(* ===== verification/Js_Base.thy ===== *)
theory Js_Base
  imports Main "HOL-Library.Multiset"
begin

text \<open>
  The prelude: what the JavaScript sources under \<^verbatim>\<open>src/schema/javascript\<close> use of the
  language itself, shared by every component.

  \<^item> JSON values (\<open>jsval\<close>), the exceptions the sources raise (\<open>js_error\<close>) and results that
    may be such an exception (\<open>'a res\<close>, with \<open>bindE\<close> for sequencing);
  \<^item> objects used as dictionaries (\<open>'a obj\<close>): association lists in enumeration order, with
    property write (\<open>obj_put\<close>), \<^verbatim>\<open>Object.assign\<close> (\<open>obj_assign\<close>) and the \<^verbatim>\<open>in\<close> operator
    (\<open>obj_in\<close>), which also sees the names inherited from \<^verbatim>\<open>Object.prototype\<close>;
  \<^item> the two loop shapes the matcher is made of: an indexed \<^verbatim>\<open>for\<close> loop left by \<^verbatim>\<open>break\<close> at the
    first mismatch (\<open>for_pairs\<close>) and a \<^verbatim>\<open>while\<close> loop over candidates left at the first success
    (\<open>search\<close>);
  \<^item> the interfaces the components share, as locales: \<open>dictionary\<close>, \<open>codec\<close> and
    \<open>incremental_matcher\<close>, with the client lemmas proved once.

  Strings are lists of \<open>char\<close> (code units below 256). Writing a property named
  \<^verbatim>\<open>__proto__\<close> changes an object's prototype in JavaScript; that write is outside the model,
  reads of it are inside (it is one of the inherited names).
\<close>

subsection \<open>Values, errors, results\<close>

text \<open>A number is an integer (\<^verbatim>\<open>Number.isInteger\<close>), or \<open>JFrac m e\<close> for the non-integer
  \<open>m / 2 ^ e\<close>, which is what every finite non-integer double is.\<close>

datatype jsval =
    JNull
  | JBool bool
  | JInt int
  | JFrac int nat
  | JStr string
  | JArr "jsval list"
  | JObj "(string \<times> jsval) list"

text \<open>The text of an error; \<open>TextWith\<close> keeps a value that the source concatenates into it.\<close>

datatype message = Text string | TextWith string jsval string

text \<open>\<open>SystemError\<close> keeps the code of an error of the operating system (\<^verbatim>\<open>ENOENT\<close>, \<^verbatim>\<open>EBADF\<close>, \<dots>).
  \<open>Unmodelled\<close> is not an exception: it marks a run that leaves the model, at a place named where
  it is used.\<close>

datatype js_error =
    SchemaException message string
  | DatasetException message string
  | AssertionError
  | TypeError
  | RangeError
  | SyntaxError
  | ReferenceError
  | SystemError string
  | GenericError message
  | Unmodelled

type_synonym 'a res = "js_error + 'a"
type_synonym 'a obj = "(string \<times> 'a) list"

definition bindE :: "'a res \<Rightarrow> ('a \<Rightarrow> 'b res) \<Rightarrow> 'b res" where
  "bindE m f = (case m of Inl e \<Rightarrow> Inl e | Inr x \<Rightarrow> f x)"

text \<open>\<^verbatim>\<open>if (c) throw e\<close>\<close>

definition throw_if :: "bool \<Rightarrow> js_error \<Rightarrow> unit res" where
  "throw_if c e = (if c then Inl e else Inr ())"

text \<open>A loop that updates variables and may throw.\<close>

fun foldE :: "('a \<Rightarrow> 's \<Rightarrow> 's res) \<Rightarrow> 'a list \<Rightarrow> 's \<Rightarrow> 's res" where
  "foldE f [] s = Inr s"
| "foldE f (x # xs) s = bindE (f x s) (foldE f xs)"

fun mapE :: "('a \<Rightarrow> 'b res) \<Rightarrow> 'a list \<Rightarrow> 'b list res" where
  "mapE f [] = Inr []"
| "mapE f (x # xs) = bindE (f x) (\<lambda>y. bindE (mapE f xs) (\<lambda>ys. Inr (y # ys)))"

text \<open>\<^verbatim>\<open>for (let k in o) { r[k] = f(k, o[k]) }\<close> on a fresh or on the same object: the keys and
  their order are those of \<open>o\<close>, and the first error leaves the loop.\<close>

definition obj_mapE :: "(string \<Rightarrow> 'a \<Rightarrow> 'b res) \<Rightarrow> 'a obj \<Rightarrow> 'b obj res" where
  "obj_mapE f ob = mapE (\<lambda>(k, v). bindE (f k v) (\<lambda>w. Inr (k, w))) ob"

definition obj_map :: "('a \<Rightarrow> 'b) \<Rightarrow> 'a obj \<Rightarrow> 'b obj" where
  "obj_map f ob = map (\<lambda>(k, v). (k, f v)) ob"

definition keys :: "'a obj \<Rightarrow> string list" where
  "keys ob = map fst ob"

text \<open>Truthiness of a JSON value.\<close>

fun truthy :: "jsval \<Rightarrow> bool" where
  "truthy JNull = False"
| "truthy (JBool b) = b"
| "truthy (JInt n) = (n \<noteq> 0)"
| "truthy (JFrac m e) = True"
| "truthy (JStr s) = (s \<noteq> [])"
| "truthy (JArr xs) = True"
| "truthy (JObj ob) = True"

text \<open>\<^verbatim>\<open>k in input ? input[k] : dflt\<close>. The right operand of \<^verbatim>\<open>in\<close> must be an object or an
  array; the keys the sources ask for are neither indices nor inherited names, so an array
  has none of them.\<close>

fun field_or :: "jsval \<Rightarrow> string \<Rightarrow> jsval \<Rightarrow> jsval res" where
  "field_or (JObj ob) k dflt = Inr (case map_of ob k of Some v \<Rightarrow> v | None \<Rightarrow> dflt)"
| "field_or (JArr xs) k dflt = Inr dflt"
| "field_or _ k dflt = Inl TypeError"

subsection \<open>Characters and names\<close>

definition is_digit :: "char \<Rightarrow> bool" where
  "is_digit c = (48 \<le> (of_char c :: nat) \<and> (of_char c :: nat) \<le> 57)"

definition is_lower :: "char \<Rightarrow> bool" where
  "is_lower c = (97 \<le> (of_char c :: nat) \<and> (of_char c :: nat) \<le> 122)"

definition name_start :: "char \<Rightarrow> bool" where
  "name_start c = (is_lower c \<or> c = CHR ''_'')"

definition name_char :: "char \<Rightarrow> bool" where
  "name_char c = (is_digit c \<or> name_start c)"

fun digits_of :: "nat \<Rightarrow> string" where
  "digits_of n = (if n < 10 then [char_of (48 + n)] else digits_of (n div 10) @ [char_of (48 + n mod 10)])"

declare digits_of.simps [simp del]

definition decimal :: "string \<Rightarrow> nat" where
  "decimal s = foldl (\<lambda>a c. 10 * a + (of_char c - 48)) 0 s"

text \<open>The array index a property name denotes, if any: a canonical decimal numeral below
  \<open>2 ^ 32 - 1\<close>. Such properties are enumerated first, in ascending order.\<close>

definition index_of_key :: "string \<Rightarrow> nat option" where
  "index_of_key k =
     (if k \<noteq> [] \<and> list_all is_digit k \<and> (length k = 1 \<or> hd k \<noteq> CHR ''0'') \<and> decimal k < 4294967295
      then Some (decimal k) else None)"

subsection \<open>Objects as dictionaries\<close>

text \<open>The names every object inherits from \<^verbatim>\<open>Object.prototype\<close>.\<close>

definition inherited_names :: "string list" where
  "inherited_names =
     [''constructor'', ''__proto__'', ''hasOwnProperty'', ''isPrototypeOf'',
      ''propertyIsEnumerable'', ''toLocaleString'', ''toString'', ''valueOf'',
      ''__defineGetter__'', ''__defineSetter__'', ''__lookupGetter__'', ''__lookupSetter__'']"

definition inherited :: "string \<Rightarrow> bool" where
  "inherited k = (k \<in> set inherited_names)"

text \<open>\<^verbatim>\<open>k in o\<close>\<close>

definition obj_in :: "string \<Rightarrow> 'a obj \<Rightarrow> bool" where
  "obj_in k ob = (k \<in> set (keys ob) \<or> inherited k)"

text \<open>What \<^verbatim>\<open>o[k]\<close> gives: an own property, something inherited from \<^verbatim>\<open>Object.prototype\<close>, or
  undefined.\<close>

datatype 'a lookup = Own 'a | Proto | Undef

definition get :: "'a obj \<Rightarrow> string \<Rightarrow> 'a lookup" where
  "get ob k = (case map_of ob k of Some v \<Rightarrow> Own v | None \<Rightarrow> if inherited k then Proto else Undef)"

definition index_before :: "nat \<Rightarrow> string \<times> 'a \<Rightarrow> bool" where
  "index_before i kv = (case index_of_key (fst kv) of None \<Rightarrow> False | Some j \<Rightarrow> j < i)"

text \<open>\<^verbatim>\<open>o[k] = v\<close>: an existing property keeps its place, a new index goes among the indices,
  any other new property goes last.\<close>

definition obj_put :: "string \<Rightarrow> 'a \<Rightarrow> 'a obj \<Rightarrow> 'a obj" where
  "obj_put k v ob =
     (if k \<in> set (keys ob) then map (\<lambda>(k', v'). (k', if k' = k then v else v')) ob
      else case index_of_key k of
             None \<Rightarrow> ob @ [(k, v)]
           | Some i \<Rightarrow> takeWhile (index_before i) ob @ (k, v) # dropWhile (index_before i) ob)"

text \<open>\<^verbatim>\<open>Object.assign(target, source)\<close>; \<^verbatim>\<open>Object.assign({}, a, b)\<close> is
  \<open>obj_assign a b\<close>, since \<open>obj_assign [] a\<close> has the entries of \<open>a\<close>.\<close>

definition obj_assign :: "'a obj \<Rightarrow> 'a obj \<Rightarrow> 'a obj" where
  "obj_assign target source = fold (\<lambda>(k, v) ob. obj_put k v ob) source target"

definition wf_obj :: "'a obj \<Rightarrow> bool" where
  "wf_obj ob = distinct (keys ob)"

subsection \<open>Loops\<close>

text \<open>\<^verbatim>\<open>for (i ...) { match = body(...); if (match) {update st} else break }\<close> on the pairs the
  indices select. The flag \<open>m\<close> is the value of \<^verbatim>\<open>match\<close> before the loop: with no iteration it
  is left as it was.\<close>

fun for_pairs :: "('a \<Rightarrow> 'b \<Rightarrow> 'st \<Rightarrow> 'st option res) \<Rightarrow> bool \<Rightarrow> ('a \<times> 'b) list \<Rightarrow> 'st \<Rightarrow> (bool \<times> 'st) res" where
  "for_pairs body m [] st = Inr (m, st)"
| "for_pairs body m ((a, b) # ps) st =
     bindE (body a b st) (\<lambda>r. case r of None \<Rightarrow> Inr (False, st) | Some st' \<Rightarrow> for_pairs body True ps st')"

text \<open>\<^verbatim>\<open>while (perms.hasNext()) { p = perms.next(); ...; if (match) {...; break} }\<close>\<close>

fun search :: "('p \<Rightarrow> 'r option res) \<Rightarrow> 'p list \<Rightarrow> 'r option res" where
  "search f [] = Inr None"
| "search f (p # ps) = bindE (f p) (\<lambda>r. case r of None \<Rightarrow> search f ps | Some x \<Rightarrow> Inr (Some x))"

subsection \<open>Collections of rules\<close>

named_theorems res_simps \<open>rewriting of results and of the loops on results\<close>
named_theorems obj_simps \<open>lookups in objects after writes\<close>

subsection \<open>Results\<close>

lemma bindE_Inl [simp, res_simps]: "bindE (Inl e) f = Inl e"
  by (simp add: bindE_def)

lemma bindE_Inr [simp, res_simps]: "bindE (Inr x) f = f x"
  by (simp add: bindE_def)

lemma bindE_eq_Inr [res_simps]: "bindE m f = Inr y \<longleftrightarrow> (\<exists>x. m = Inr x \<and> f x = Inr y)"
  by (cases m) auto

lemma bindE_eq_Inl [res_simps]: "bindE m f = Inl e \<longleftrightarrow> m = Inl e \<or> (\<exists>x. m = Inr x \<and> f x = Inl e)"
  by (cases m) auto

lemma bindE_assoc [simp]: "bindE (bindE m f) g = bindE m (\<lambda>x. bindE (f x) g)"
  by (cases m) auto

lemma bindE_cong [fundef_cong]:
  "m = m' \<Longrightarrow> (\<And>x. m' = Inr x \<Longrightarrow> f x = f' x) \<Longrightarrow> bindE m f = bindE m' f'"
  by (cases m') auto

lemma throw_if_Inr [simp, res_simps]: "throw_if c e = Inr u \<longleftrightarrow> \<not> c"
  by (simp add: throw_if_def)

lemma throw_if_Inl [simp, res_simps]: "throw_if c e = Inl e' \<longleftrightarrow> c \<and> e' = e"
  by (auto simp: throw_if_def)

lemma throw_if_False [simp]: "throw_if False e = Inr ()"
  by (simp add: throw_if_def)

lemma throw_if_True [simp]: "throw_if True e = Inl e"
  by (simp add: throw_if_def)

lemma foldE_append: "foldE f (xs @ ys) s = bindE (foldE f xs s) (foldE f ys)"
  by (induction xs arbitrary: s) (simp_all cong: bindE_cong)

lemma foldE_cong [fundef_cong]:
  "xs = ys \<Longrightarrow> s = s' \<Longrightarrow> (\<And>x t. x \<in> set ys \<Longrightarrow> f x t = g x t) \<Longrightarrow> foldE f xs s = foldE g ys s'"
proof (induction ys arbitrary: xs s s')
  case (Cons y ys)
  then show ?case by (auto intro: bindE_cong)
qed simp

text \<open>An invariant of the loop, with the part of the list already visited.\<close>

lemma foldE_prefix:
  assumes "foldE f xs s = Inr s'" and "I [] s"
    and "\<And>ys y zs t t'. xs = ys @ y # zs \<Longrightarrow> I ys t \<Longrightarrow> f y t = Inr t' \<Longrightarrow> I (ys @ [y]) t'"
  shows "I xs s'"
proof -
  have "I (pre @ post) s'" if "foldE f post t = Inr s'" "I pre t" "xs = pre @ post" for pre post t
    using that
  proof (induction post arbitrary: pre t)
    case (Cons y post)
    then obtain t' where t': "f y t = Inr t'" "foldE f post t' = Inr s'" by (auto simp: bindE_eq_Inr)
    have "I (pre @ [y]) t'" using Cons.prems t' by (intro assms(3)) auto
    then show ?case using Cons.IH [OF t'(2), of "pre @ [y]"] Cons.prems by simp
  qed simp
  from this [of xs s "[]"] show ?thesis using assms(1,2) by simp
qed

lemma foldE_preserves:
  "foldE f xs s = Inr s' \<Longrightarrow> (\<And>x t t'. x \<in> set xs \<Longrightarrow> P t \<Longrightarrow> f x t = Inr t' \<Longrightarrow> P t') \<Longrightarrow> P s \<Longrightarrow> P s'"
  by (rule foldE_prefix [of f xs s s' "\<lambda>_ t. P t"]) auto

lemma mapE_eq_Inr: "mapE f xs = Inr ys \<longleftrightarrow> list_all2 (\<lambda>x y. f x = Inr y) xs ys"
proof (induction xs arbitrary: ys)
  case Nil
  then show ?case by auto
next
  case (Cons x xs)
  then show ?case by (cases ys) (auto simp: bindE_eq_Inr)
qed

lemma mapE_map [simp]: "mapE f (map g xs) = mapE (\<lambda>x. f (g x)) xs"
  by (induction xs) auto

lemma mapE_total: "(\<And>x. x \<in> set xs \<Longrightarrow> f x = Inr (g x)) \<Longrightarrow> mapE f xs = Inr (map g xs)"
  by (induction xs) auto

lemma keys_obj_map [simp]: "keys (obj_map f ob) = keys ob"
  by (auto simp: keys_def obj_map_def)

lemma keys_obj_mapE: "obj_mapE f ob = Inr ob' \<Longrightarrow> keys ob' = keys ob"
proof (induction ob arbitrary: ob')
  case Nil
  then show ?case by (simp add: obj_mapE_def keys_def)
next
  case (Cons kv ob)
  then show ?case
    by (cases kv) (auto simp: obj_mapE_def bindE_eq_Inr keys_def)
qed

lemma obj_mapE_set:
  assumes "obj_mapE f ob = Inr ob'" and "(k, w) \<in> set ob'"
  shows "\<exists>v. (k, v) \<in> set ob \<and> f k v = Inr w"
  using assms
proof (induction ob arbitrary: ob')
  case Nil
  then show ?case by (simp add: obj_mapE_def)
next
  case (Cons kv ob)
  then show ?case
    by (cases kv) (fastforce simp: obj_mapE_def bindE_eq_Inr)
qed

lemma obj_mapE_obj_map: "obj_mapE f (obj_map g ob) = obj_mapE (\<lambda>k v. f k (g v)) ob"
  by (induction ob) (auto simp: obj_mapE_def obj_map_def)

lemma obj_mapE_total:
  "(\<And>k v. (k, v) \<in> set ob \<Longrightarrow> f k v = Inr (g v)) \<Longrightarrow> obj_mapE f ob = Inr (obj_map g ob)"
  unfolding obj_mapE_def obj_map_def by (rule mapE_total) auto

lemma map_of_obj_map: "map_of (obj_map f ob) k = map_option f (map_of ob k)"
  by (induction ob) (auto simp: obj_map_def)

lemma obj_map_id [simp]: "obj_map (\<lambda>x. x) ob = ob"
  by (induction ob) (auto simp: obj_map_def)

lemma set_obj_map: "(k, w) \<in> set (obj_map f ob) \<longleftrightarrow> (\<exists>v. (k, v) \<in> set ob \<and> w = f v)"
  by (auto simp: obj_map_def)

lemma length_obj_map [simp]: "length (obj_map f ob) = length ob"
  by (simp add: obj_map_def)

subsection \<open>Objects\<close>

lemma map_of_eq_None_keys: "map_of ob k = None \<longleftrightarrow> k \<notin> set (keys ob)"
  by (simp add: keys_def map_of_eq_None_iff)

lemma in_keys_iff: "k \<in> set (keys ob) \<longleftrightarrow> (\<exists>v. map_of ob k = Some v)"
  using map_of_eq_None_keys [of ob k] by auto

lemma keys_Nil [simp]: "keys [] = []"
  by (simp add: keys_def)

lemma map_of_replace:
  "map_of (map (\<lambda>(k', v'). (k', if k' = k then v else v')) ob) =
     (if k \<in> set (keys ob) then (map_of ob)(k \<mapsto> v) else map_of ob)"
  by (induction ob) (auto simp: keys_def fun_eq_iff)

lemma keys_replace [simp]: "keys (map (\<lambda>(k', v'). (k', if k' = k then v else v')) ob) = keys ob"
  by (auto simp: keys_def)

lemma map_of_middle:
  "k \<notin> set (keys (xs @ ys)) \<Longrightarrow> map_of (xs @ (k, v) # ys) = (map_of (xs @ ys))(k \<mapsto> v)"
  by (induction xs) (auto simp: keys_def fun_eq_iff)

lemma map_of_obj_put [simp, obj_simps]: "map_of (obj_put k v ob) = (map_of ob)(k \<mapsto> v)"
proof (cases "k \<in> set (keys ob)")
  case True
  then show ?thesis by (simp add: obj_put_def map_of_replace)
next
  case False
  then have "map_of ob k = None" by (simp add: map_of_eq_None_keys)
  then have "map_of (ob @ [(k, v)]) = (map_of ob)(k \<mapsto> v)"
    using False map_of_middle [of k ob "[]" v] by simp
  moreover have "map_of (takeWhile p ob @ (k, v) # dropWhile p ob) = (map_of ob)(k \<mapsto> v)" for p
    using False map_of_middle [of k "takeWhile p ob" "dropWhile p ob" v] by simp
  ultimately show ?thesis
    using False by (simp add: obj_put_def split: option.split)
qed

lemma set_keys_obj_put [simp]: "set (keys (obj_put k v ob)) = insert k (set (keys ob))"
proof -
  have "k' \<in> set (keys (obj_put k v ob)) \<longleftrightarrow> k' \<in> insert k (set (keys ob))" for k'
    by (auto simp: in_keys_iff)
  then show ?thesis by blast
qed

lemma distinct_middle: "distinct (xs @ k # ys) \<longleftrightarrow> k \<notin> set (xs @ ys) \<and> distinct (xs @ ys)"
  by auto

lemma set_obj_put: "kv \<in> set (obj_put k v ob) \<Longrightarrow> kv = (k, v) \<or> kv \<in> set ob"
proof -
  have "set (takeWhile P xs @ y # dropWhile P xs) = insert y (set xs)" for P xs and y :: "string \<times> 'a"
    using set_append [of "takeWhile P xs" "dropWhile P xs"] by simp
  then show "kv \<in> set (obj_put k v ob) \<Longrightarrow> kv = (k, v) \<or> kv \<in> set ob"
    by (auto simp: obj_put_def split: if_splits option.splits)
qed

lemma wf_obj_put [simp, intro]: "wf_obj ob \<Longrightarrow> wf_obj (obj_put k v ob)"
proof (cases "k \<in> set (keys ob)")
  case False
  assume wf: "wf_obj ob"
  have "distinct (map fst (takeWhile p ob) @ k # map fst (dropWhile p ob))" for p
    using wf False unfolding distinct_middle map_append [symmetric] takeWhile_dropWhile_id
    by (simp add: wf_obj_def keys_def)
  then show ?thesis
    using wf False by (auto simp: obj_put_def wf_obj_def keys_def split: option.split)
qed (simp add: obj_put_def wf_obj_def)

lemma wf_obj_Nil [simp]: "wf_obj []"
  by (simp add: wf_obj_def)

lemma wf_obj_Cons: "wf_obj ((k, v) # ob) \<longleftrightarrow> map_of ob k = None \<and> wf_obj ob"
  by (simp add: wf_obj_def map_of_eq_None_keys) (simp add: keys_def)

lemma wf_obj_map [simp]: "wf_obj (obj_map f ob) = wf_obj ob"
  by (simp add: wf_obj_def)

lemma wf_obj_assign [simp, intro]: "wf_obj a \<Longrightarrow> wf_obj (obj_assign a b)"
  by (induction b arbitrary: a) (auto simp: obj_assign_def)

lemma map_of_obj_assign [simp, obj_simps]:
  "wf_obj b \<Longrightarrow> map_of (obj_assign a b) = map_of a ++ map_of b"
proof (induction b arbitrary: a)
  case Nil
  then show ?case by (simp add: obj_assign_def)
next
  case (Cons kv b)
  obtain k v where kv: "kv = (k, v)" by (cases kv)
  from Cons.prems have "map_of b k = None" and wf: "wf_obj b"
    by (simp_all add: kv wf_obj_Cons)
  have "map_of (obj_assign a (kv # b)) = map_of (obj_assign (obj_put k v a) b)"
    by (simp add: kv obj_assign_def)
  also have "\<dots> = (map_of a)(k \<mapsto> v) ++ map_of b"
    using Cons.IH wf by simp
  also have "\<dots> = map_of a ++ map_of (kv # b)"
    using \<open>map_of b k = None\<close> by (auto simp: kv fun_eq_iff map_add_def split: option.split)
  finally show ?case .
qed

lemma obj_assign_Nil [simp]: "obj_assign a [] = a"
  by (simp add: obj_assign_def)

subsection \<open>Interfaces\<close>

text \<open>What the matcher relies on of the objects it keeps its name and dimension maps in. An
  update is \<^emph>\<open>consistent\<close> with a map when it rebinds no name of it; merging consistent updates
  extends the map.\<close>

locale dictionary =
  fixes empty :: "'d"
    and get :: "'d \<Rightarrow> 'k \<Rightarrow> 'v option"
    and put :: "'k \<Rightarrow> 'v \<Rightarrow> 'd \<Rightarrow> 'd"
    and assign :: "'d \<Rightarrow> 'd \<Rightarrow> 'd"
    and wf :: "'d \<Rightarrow> bool"
  assumes get_empty: "get empty = Map.empty"
    and get_put: "get (put k v d) = (get d)(k \<mapsto> v)"
    and get_assign: "wf b \<Longrightarrow> get (assign a b) = get a ++ get b"
    and wf_empty: "wf empty"
    and wf_put: "wf d \<Longrightarrow> wf (put k v d)"
    and wf_assign: "wf a \<Longrightarrow> wf (assign a b)"
begin

lemma assign_extends_right: "wf b \<Longrightarrow> get b \<subseteq>\<^sub>m get (assign a b)"
  by (simp add: get_assign map_le_map_add)

lemma assign_extends_left: "wf b \<Longrightarrow> get a \<subseteq>\<^sub>m get a ++ get b \<Longrightarrow> get a \<subseteq>\<^sub>m get (assign a b)"
  by (simp add: get_assign)

lemma assign_put_fresh:
  "get a k = None \<or> get a k = Some v \<Longrightarrow> get a \<subseteq>\<^sub>m get (assign a (put k v empty))"
  by (auto simp: get_assign wf_put wf_empty get_put get_empty map_le_def map_add_def)

lemma assign_commute:
  assumes "wf a" "wf b" and "get a \<subseteq>\<^sub>m get a ++ get b"
  shows "get (assign b a) = get (assign a b)"
proof -
  have "get b ++ get a = get a ++ get b"
  proof
    fix k
    have "get a k = None \<or> get a k = (get a ++ get b) k"
      using assms(3) by (auto simp: map_le_def)
    then show "(get b ++ get a) k = (get a ++ get b) k"
      by (cases "get a k") (auto simp: map_add_def split: option.split)
  qed
  then show ?thesis using assms by (simp add: get_assign)
qed

end

text \<open>A printer and a loader of one kind of value: loading what was printed gives the value
  back, up to a normalisation. The lemma lifts this to a whole object of such values, loaded
  property by property, whatever each property's loader does to the errors it raises.\<close>

locale codec =
  fixes dump :: "'a \<Rightarrow> jsval"
    and load :: "jsval \<Rightarrow> 'a res"
    and norm :: "'a \<Rightarrow> 'a"
    and ok :: "'a \<Rightarrow> bool"
  assumes load_dump: "ok x \<Longrightarrow> load (dump x) = Inr (norm x)"
begin

lemma load_dump_object:
  assumes "\<And>k x. (k, x) \<in> set ob \<Longrightarrow> ok x"
    and "\<And>k v x. load v = Inr x \<Longrightarrow> ld k v = Inr x"
  shows "obj_mapE ld (obj_map dump ob) = Inr (obj_map norm ob)"
  unfolding obj_mapE_obj_map by (rule obj_mapE_total) (auto intro: assms load_dump)

end

text \<open>A matcher that extends a state (the maps it has built so far) pair by pair. If every step on
  a candidate pair extends the state and establishes the pair, and pairs stay established when the state is
  extended, then the loop over all pairs establishes all of them in its final state.\<close>

locale incremental_matcher =
  fixes ext :: "'st \<Rightarrow> 'st \<Rightarrow> bool"
    and body :: "'a \<Rightarrow> 'b \<Rightarrow> 'st \<Rightarrow> 'st option res"
    and sat :: "'st \<Rightarrow> 'a \<Rightarrow> 'b \<Rightarrow> bool"
    and inv :: "'st \<Rightarrow> bool"
    and cand :: "'a \<Rightarrow> 'b \<Rightarrow> bool"
  assumes ext_refl: "ext st st"
    and ext_trans: "ext st1 st2 \<Longrightarrow> ext st2 st3 \<Longrightarrow> ext st1 st3"
    and sat_mono: "ext st st' \<Longrightarrow> sat st a b \<Longrightarrow> sat st' a b"
    and body_sound: "cand a b \<Longrightarrow> inv st \<Longrightarrow> body a b st = Inr (Some st') \<Longrightarrow> inv st' \<and> ext st st' \<and> sat st' a b"
begin

lemma for_pairs_sound:
  assumes "for_pairs body m ps st = Inr (True, st')" and "inv st" and "\<forall>(a, b) \<in> set ps. cand a b"
  shows "inv st' \<and> ext st st' \<and> (\<forall>(a, b) \<in> set ps. sat st' a b)"
  using assms
proof (induction ps arbitrary: m st)
  case Nil
  then show ?case by (simp add: ext_refl)
next
  case (Cons p ps)
  obtain a b where p: "p = (a, b)" by (cases p)
  from Cons.prems(1) obtain st1 where st1: "body a b st = Inr (Some st1)"
    and rest: "for_pairs body True ps st1 = Inr (True, st')"
    by (auto simp: p bindE_eq_Inr split: option.splits)
  from Cons.prems(3) have cands: "cand a b" "\<forall>(a, b) \<in> set ps. cand a b" by (auto simp: p)
  from body_sound [OF cands(1) Cons.prems(2) st1] have inv1: "inv st1" and e1: "ext st st1" and s1: "sat st1 a b"
    by auto
  from Cons.IH [OF rest inv1 cands(2)] have inv': "inv st'" and e2: "ext st1 st'"
    and all: "\<forall>(a, b) \<in> set ps. sat st' a b" by auto
  have "sat st' a b" using sat_mono [OF e2 s1] .
  with inv' ext_trans [OF e1 e2] all show ?case by (auto simp: p)
qed

end

text \<open>A matcher whose state also records something for the first element of each pair. What was
  recorded for one element is not touched by the steps for others, so when the first elements
  are distinct the final state has a good record for every pair.\<close>

locale recording_matcher = incremental_matcher ext body sat inv cand
  for ext :: "'st \<Rightarrow> 'st \<Rightarrow> bool"
    and body :: "'a \<Rightarrow> 'b \<Rightarrow> 'st \<Rightarrow> 'st option res"
    and sat :: "'st \<Rightarrow> 'a \<Rightarrow> 'b \<Rightarrow> bool"
    and inv :: "'st \<Rightarrow> bool"
    and cand :: "'a \<Rightarrow> 'b \<Rightarrow> bool" +
  fixes record_of :: "'st \<Rightarrow> 'a \<Rightarrow> 'r"
    and good :: "'st \<Rightarrow> 'a \<Rightarrow> 'b \<Rightarrow> 'r \<Rightarrow> bool"
  assumes good_mono: "ext st st' \<Longrightarrow> good st a b r \<Longrightarrow> good st' a b r"
    and body_good: "cand a b \<Longrightarrow> inv st \<Longrightarrow> body a b st = Inr (Some st') \<Longrightarrow> good st' a b (record_of st' a)"
    and body_frame: "cand a b \<Longrightarrow> cand a' b' \<Longrightarrow> a' \<noteq> a \<Longrightarrow> body a b st = Inr (Some st') \<Longrightarrow> record_of st' a' = record_of st a'"
begin

lemma for_pairs_frame:
  assumes "for_pairs body m ps st = Inr (True, st')" and "\<forall>(a, b) \<in> set ps. cand a b" and "cand a' b'"
    and "a' \<notin> fst ` set ps"
  shows "record_of st' a' = record_of st a'"
  using assms
proof (induction ps arbitrary: m st)
  case (Cons p ps)
  obtain a b where p: "p = (a, b)" by (cases p)
  from Cons.prems(1) obtain st1 where st1: "body a b st = Inr (Some st1)"
    and rest: "for_pairs body True ps st1 = Inr (True, st')"
    by (auto simp: p bindE_eq_Inr split: option.splits)
  have "record_of st1 a' = record_of st a'"
    using Cons.prems by (intro body_frame [OF _ Cons.prems(3) _ st1]) (auto simp: p)
  with Cons.IH [OF rest] Cons.prems show ?case by (auto simp: p)
qed simp

lemma for_pairs_good:
  assumes "for_pairs body m ps st = Inr (True, st')" and "inv st" and "\<forall>(a, b) \<in> set ps. cand a b"
    and "distinct (map fst ps)"
  shows "\<forall>(a, b) \<in> set ps. good st' a b (record_of st' a)"
  using assms
proof (induction ps arbitrary: m st)
  case (Cons p ps)
  obtain a b where p: "p = (a, b)" by (cases p)
  from Cons.prems(1) obtain st1 where st1: "body a b st = Inr (Some st1)"
    and rest: "for_pairs body True ps st1 = Inr (True, st')"
    by (auto simp: p bindE_eq_Inr split: option.splits)
  from Cons.prems(3,4) have c: "cand a b" "\<forall>(a, b) \<in> set ps. cand a b" and d: "a \<notin> fst ` set ps" "distinct (map fst ps)"
    by (auto simp: p)
  have inv1: "inv st1" using body_sound [OF c(1) Cons.prems(2) st1] by simp
  have "record_of st' a = record_of st1 a" using for_pairs_frame [OF rest c(2) c(1) d(1)] .
  moreover have "good st' a b (record_of st1 a)"
    using good_mono body_good [OF c(1) Cons.prems(2) st1] for_pairs_sound [OF rest inv1 c(2)] by blast
  ultimately show ?case using Cons.IH [OF rest inv1 c(2) d(2)] by (auto simp: p)
qed simp

end

text \<open>The same loops without errors, and with success at every pair.\<close>

lemma for_pairs_total:
  assumes "I st" and "\<forall>(a, b) \<in> set ps. cand a b"
    and "\<And>a b st. cand a b \<Longrightarrow> I st \<Longrightarrow> \<exists>r. body a b st = Inr r \<and> (\<forall>st'. r = Some st' \<longrightarrow> I st')"
  shows "\<exists>r st'. for_pairs body m ps st = Inr (r, st') \<and> I st'"
  using assms(1,2)
proof (induction ps arbitrary: m st)
  case (Cons p ps)
  obtain a b where p: "p = (a, b)" by (cases p)
  from assms(3) [of a b st] Cons.prems obtain r where r: "body a b st = Inr r" "\<forall>st'. r = Some st' \<longrightarrow> I st'"
    by (auto simp: p)
  show ?case
  proof (cases r)
    case None
    then show ?thesis using r Cons.prems by (auto simp: p)
  next
    case (Some st1)
    then show ?thesis using r Cons.IH [of st1 True] Cons.prems by (simp add: p)
  qed
qed simp

lemma for_pairs_all:
  assumes "I st" and "\<forall>(a, b) \<in> set ps. cand a b"
    and "\<And>a b st. cand a b \<Longrightarrow> I st \<Longrightarrow> \<exists>st'. body a b st = Inr (Some st') \<and> I st'"
  shows "\<exists>st'. for_pairs body m ps st = Inr (m \<or> ps \<noteq> [], st') \<and> I st'"
  using assms(1,2)
proof (induction ps arbitrary: m st)
  case (Cons p ps)
  obtain a b where p: "p = (a, b)" by (cases p)
  from assms(3) [of a b st] Cons.prems obtain st1 where "body a b st = Inr (Some st1)" "I st1"
    by (auto simp: p)
  then show ?case using Cons.IH [of st1 True] Cons.prems by (simp add: p)
qed simp

interpretation obj_dict: dictionary "[]" map_of obj_put obj_assign wf_obj
  by unfold_locales auto

lemma search_Some:
  "search f ps = Inr (Some x) \<Longrightarrow> \<exists>p \<in> set ps. f p = Inr (Some x)"
  by (induction ps) (auto simp: bindE_eq_Inr split: option.splits)

lemma search_None:
  "search f ps = Inr None \<longleftrightarrow> (\<forall>p \<in> set ps. f p = Inr None)"
  by (induction ps) (auto simp: bindE_eq_Inr split: option.splits)

lemma search_total: "(\<And>p. p \<in> set ps \<Longrightarrow> \<exists>r. f p = Inr r) \<Longrightarrow> \<exists>r. search f ps = Inr r"
  by (induction ps) (fastforce split: option.split)+

lemma search_first: "f p = Inr (Some x) \<Longrightarrow> search f (p # ps) = Inr (Some x)"
  by simp

end
