(* ===== verification/Schema_Types.thy ===== *)
theory Schema_Types
  imports Js_Base
begin

text \<open>
  The data model of \<^verbatim>\<open>src/schema.js\<close>: dimensions, links, fields, classes, nodes and schemas,
  and the constructor functions \<^verbatim>\<open>Link\<close>, \<^verbatim>\<open>Field\<close>, \<^verbatim>\<open>Tensor\<close>, \<^verbatim>\<open>Category\<close>, \<^verbatim>\<open>Class\<close>, \<^verbatim>\<open>Node\<close>,
  \<^verbatim>\<open>Schema\<close> with every check they make, in the order they make it. A constructor takes what
  its caller passes: a JSON value for a scalar argument, and for a dictionary argument a
  \<open>dictarg\<close> (null, an object whose values the caller has already built, or something that is
  not an object). The predicates \<open>wf_link\<close> \<dots> \<open>wf_schema\<close> say what a constructed value
  satisfies.
\<close>

subsection \<open>Data\<close>

datatype dim = DInt int | DStr string

datatype bound = Fin int | Inf

record link =
  link_lower :: int
  link_upper :: bound

text \<open>A tensor keeps its \<^verbatim>\<open>srcDim\<close> as the value it was given: the constructor does not check
  that it is an array.\<close>

datatype field =
    Tensor (field_srcName: "string option") (tensor_dim: "dim list") (tensor_srcDim: jsval)
  | Category (field_srcName: "string option") (categoryClass: string)

record sclass =
  class_dim :: dim
  class_srcName :: "string option"

record node =
  isSingleton :: bool
  node_fields :: "field obj"
  node_links :: "link obj"
  node_srcName :: "string option"

record schema =
  nodes :: "node obj"
  categoryClasses :: "sclass obj"
  cyclic :: bool
  undirected :: bool
  fanin :: bool
  srcDims :: jsval

datatype 'a dictarg = NullArg | Dict "'a obj" | NonObject

abbreviation schema_error :: "string \<Rightarrow> string \<Rightarrow> js_error" where
  "schema_error msg path \<equiv> SchemaException (Text msg) path"

subsection \<open>Formats\<close>

text \<open>\<^verbatim>\<open>NAME_FORMAT = ^[a-z_][0-9a-z_]*$\<close> and \<^verbatim>\<open>DIM_FORMAT = ^[a-z_][0-9a-z_]*[+?*]?$\<close>\<close>

definition name_format :: "string \<Rightarrow> bool" where
  "name_format s = (case s of [] \<Rightarrow> False | c # cs \<Rightarrow> name_start c \<and> list_all name_char cs)"

definition is_wildcard :: "char \<Rightarrow> bool" where
  "is_wildcard c = (c = CHR ''?'' \<or> c = CHR ''+'' \<or> c = CHR ''*'')"

definition ends_wild :: "string \<Rightarrow> bool" where
  "ends_wild s = (s \<noteq> [] \<and> is_wildcard (last s))"

definition dim_format :: "string \<Rightarrow> bool" where
  "dim_format s = (name_format s \<or> ends_wild s \<and> name_format (butlast s))"

definition dim_wild :: "dim \<Rightarrow> bool" where
  "dim_wild d = (case d of DInt n \<Rightarrow> False | DStr s \<Rightarrow> ends_wild s)"

subsection \<open>Link\<close>

definition new_Link :: "jsval \<Rightarrow> link res" where
  "new_Link dim =
     (case dim of
        JArr xs \<Rightarrow>
          if length xs \<noteq> 2 then
            Inl (schema_error ''Link dimension must be a list of two elements representing the upper and lower bound.'' [])
          else
            (case xs ! 0 of
               JInt lo \<Rightarrow>
                 if lo < 0 then Inl (schema_error ''Link lower bound must be a non-negative integer.'' [])
                 else
                   (case xs ! 1 of
                      JInt hi \<Rightarrow>
                        if hi \<le> 0 then Inl (schema_error ''Link upper bound must be a positive integer or 'inf'.'' [])
                        else if hi < lo then
                          Inl (schema_error ''Link lower bound cannot be greater than the upper bound.'' [])
                        else Inr \<lparr>link_lower = lo, link_upper = Fin hi\<rparr>
                    | JStr s \<Rightarrow>
                        if s = ''inf'' then Inr \<lparr>link_lower = lo, link_upper = Inf\<rparr>
                        else Inl (schema_error ''Link upper bound must be a positive integer or 'inf'.'' [])
                    | _ \<Rightarrow> Inl (schema_error ''Link upper bound must be a positive integer or 'inf'.'' []))
             | _ \<Rightarrow> Inl (schema_error ''Link lower bound must be a non-negative integer.'' []))
      | JInt n \<Rightarrow>
          if n < 1 then Inl (schema_error ''Link dimension must be a positive integer.'' [])
          else Inr \<lparr>link_lower = n, link_upper = Fin n\<rparr>
      | _ \<Rightarrow> Inl (schema_error ''Link dimension must be either a positive integer or a two-element list.'' []))"

subsection \<open>Field, Tensor, Category\<close>

text \<open>The check of \<^verbatim>\<open>srcName\<close> in \<^verbatim>\<open>Field\<close>, repeated in \<^verbatim>\<open>Node\<close> and \<^verbatim>\<open>Class\<close>.\<close>

definition check_srcName :: "jsval \<Rightarrow> string option res" where
  "check_srcName v =
     (case v of
        JNull \<Rightarrow> Inr None
      | JStr s \<Rightarrow>
          if name_format s then Inr (Some s)
          else Inl (schema_error ''Source name may contain lowercase letters, numbers and underscores. They must start with a letter.'' [])
      | _ \<Rightarrow> Inl (schema_error ''Source name must be a string.'' []))"

text \<open>The checks on one entry of \<^verbatim>\<open>dim\<close> or of \<^verbatim>\<open>srcDim\<close>; \<open>what\<close> is the start of the message.\<close>

definition check_dim :: "string \<Rightarrow> jsval \<Rightarrow> dim res" where
  "check_dim what v =
     (case v of
        JInt n \<Rightarrow>
          if n < 1 then Inl (schema_error (what @ '' fields that are integer must be positive numbers.'') [])
          else Inr (DInt n)
      | JStr s \<Rightarrow>
          if dim_format s then Inr (DStr s)
          else Inl (schema_error (what @ '' fields that are strings may contain only lowercase letters, numbers and underscores. They must start with a letter. They may be suffixed by wildcard characters '?', '+' and '*' to denote variable count dimensions.'') [])
      | _ \<Rightarrow> Inl (schema_error (what @ '' fields must all be integers or strings.'') []))"

text \<open>The values a \<^verbatim>\<open>for (let i in v)\<close> loop reads as \<^verbatim>\<open>v[i]\<close>.\<close>

definition for_in_values :: "jsval \<Rightarrow> jsval list" where
  "for_in_values v =
     (case v of
        JArr xs \<Rightarrow> xs
      | JObj ob \<Rightarrow> map snd ob
      | JStr s \<Rightarrow> map (\<lambda>c. JStr [c]) s
      | _ \<Rightarrow> [])"

text \<open>The source repeats its test of \<^verbatim>\<open>dim\<close> where \<^verbatim>\<open>srcDim\<close> is meant, so any non-null value is
  looped over.\<close>

definition check_srcDim :: "jsval \<Rightarrow> unit res" where
  "check_srcDim srcDim =
     (if srcDim = JNull then Inr ()
      else bindE (mapE (check_dim ''Tensor source dim'') (for_in_values srcDim)) (\<lambda>_. Inr ()))"

fun check_wildcards :: "bool \<Rightarrow> dim list \<Rightarrow> unit res" where
  "check_wildcards foundWildcard [] = Inr ()"
| "check_wildcards foundWildcard (d # ds) =
     (if dim_wild d then
        if foundWildcard then Inl (schema_error ''Tensor can have at most one variable count dimension.'' [])
        else check_wildcards True ds
      else check_wildcards foundWildcard ds)"

definition skippable :: "dim list \<Rightarrow> bool" where
  "skippable ds =
     (case ds of
        [DStr s] \<Rightarrow> s \<noteq> [] \<and> (last s = CHR ''?'' \<or> last s = CHR ''*'')
      | _ \<Rightarrow> False)"

definition new_Tensor :: "jsval \<Rightarrow> jsval \<Rightarrow> jsval \<Rightarrow> field res" where
  "new_Tensor dim srcName srcDim =
     bindE (check_srcName srcName) (\<lambda>name.
       (case dim of
          JArr xs \<Rightarrow>
            bindE (throw_if (length xs < 1) (schema_error ''Tensor must have at least one dimension.'' [])) (\<lambda>_.
            bindE (mapE (check_dim ''Tensor dim'') xs) (\<lambda>ds.
            bindE (check_srcDim srcDim) (\<lambda>_.
            bindE (check_wildcards False ds) (\<lambda>_.
            bindE (throw_if (skippable ds) (schema_error ''Tensors cannot have zero dimensions. Having only one dimension suffixed with '?' or '*' permits this.'' [])) (\<lambda>_.
            Inr (Tensor name ds srcDim))))))
        | _ \<Rightarrow> Inl (schema_error ''Tensor dim field must be a list of dimension definitions.'' [])))"

definition new_Category :: "jsval \<Rightarrow> jsval \<Rightarrow> field res" where
  "new_Category cls srcName =
     bindE (check_srcName srcName) (\<lambda>name.
       (case cls of
          JStr s \<Rightarrow>
            if name_format s then Inr (Category name s)
            else Inl (schema_error ''Category class may contain lowercase letters, numbers and underscores. They must start with a letter.'' [])
        | _ \<Rightarrow> Inl (schema_error ''Category class must be a string.'' [])))"

definition new_Class :: "jsval \<Rightarrow> jsval \<Rightarrow> sclass res" where
  "new_Class dim srcName =
     bindE
       (case dim of
          JInt n \<Rightarrow>
            if n < 1 then Inl (schema_error ''Class dimension must be a positive integer.'' []) else Inr (DInt n)
        | JStr s \<Rightarrow>
            if name_format s then Inr (DStr s)
            else Inl (schema_error ''Class dimension can contain lowercase letters, numbers and underscores. They must start with a letter.'' [])
        | _ \<Rightarrow> Inl (schema_error ''Class dimension must be an integer or a string.'' []))
       (\<lambda>d. bindE (check_srcName srcName) (\<lambda>name. Inr \<lparr>class_dim = d, class_srcName = name\<rparr>))"

subsection \<open>Node\<close>

definition dict_arg :: "'a dictarg \<Rightarrow> string \<Rightarrow> 'a obj res" where
  "dict_arg a msg =
     (case a of NullArg \<Rightarrow> Inr [] | Dict ob \<Rightarrow> Inr ob | NonObject \<Rightarrow> Inl (schema_error msg []))"

definition bool_arg :: "jsval \<Rightarrow> string \<Rightarrow> bool res" where
  "bool_arg v msg = (case v of JBool b \<Rightarrow> Inr b | _ \<Rightarrow> Inl (schema_error msg []))"

text \<open>\<^verbatim>\<open>for (let k in o)\<close> with the check of \<^verbatim>\<open>NAME_FORMAT\<close>\<close>

fun check_names :: "string \<Rightarrow> string \<Rightarrow> string list \<Rightarrow> unit res" where
  "check_names msg prefix [] = Inr ()"
| "check_names msg prefix (k # ks) =
     (if name_format k then check_names msg prefix ks else Inl (schema_error msg (prefix @ k)))"

definition new_Node :: "jsval \<Rightarrow> field dictarg \<Rightarrow> link dictarg \<Rightarrow> jsval \<Rightarrow> node res" where
  "new_Node singleton flds lnks srcName =
     bindE (bool_arg singleton ''Node singleton flag must be a boolean.'') (\<lambda>sing.
     bindE (dict_arg flds ''Node fields must be a key-value dictionary.'') (\<lambda>fs.
     bindE (dict_arg lnks ''Node links must be a key-value dictionary.'') (\<lambda>ls.
     bindE (check_srcName srcName) (\<lambda>name.
     bindE (throw_if (sing \<and> length (keys fs) \<noteq> 1) (schema_error ''Singleton nodes must have a single field.'' [])) (\<lambda>_.
     bindE (throw_if (sing \<and> length (keys ls) \<noteq> 0) (schema_error ''Singleton nodes cannot have links.'' [])) (\<lambda>_.
     bindE (throw_if (length (keys fs) + length (keys ls) < 1) (schema_error ''Node must have at least one field or link.'' [])) (\<lambda>_.
     bindE (check_names ''Node field names may contain lowercase letters, numbers and underscores. They must start with a letter.''
              ''fields.'' (keys fs)) (\<lambda>_.
     bindE (check_names ''Node link targets may contain lowercase letters, numbers and underscores. They must start with a letter.''
              ''links.'' (keys ls)) (\<lambda>_.
     Inr \<lparr>isSingleton = sing, node_fields = fs, node_links = ls, node_srcName = name\<rparr>)))))))))"

subsection \<open>Schema\<close>

text \<open>The loop over the links of node \<open>k\<close>; \<open>counted\<close> is \<^verbatim>\<open>undirected && !fanin\<close> and the result is
  \<^verbatim>\<open>linkCount\<close>. A target that is only an inherited name passes the \<^verbatim>\<open>in\<close> test, and the
  \<^verbatim>\<open>isSingleton\<close> of what it denotes is undefined.\<close>

fun check_links :: "node obj \<Rightarrow> bool \<Rightarrow> string \<Rightarrow> link obj \<Rightarrow> int \<Rightarrow> int res" where
  "check_links nds counted k [] linkCount = Inr linkCount"
| "check_links nds counted k ((l, lnk) # ls) linkCount =
     (if \<not> obj_in l nds then
        Inl (schema_error ''Node link points to unknown node.'' (''nodes.'' @ k @ ''.links.'' @ l))
      else if (case map_of nds l of Some n \<Rightarrow> isSingleton n | None \<Rightarrow> False) then
        Inl (schema_error ''Node link points to a singleton node.'' (''nodes.'' @ k @ ''.links.'' @ l))
      else if counted then
        (case link_upper lnk of
           Inf \<Rightarrow> Inl (schema_error ''Nodes in undirected schemas with fan-in cannot have infinite outgoing links.''
                        (''nodes.'' @ k @ ''.links.'' @ l))
         | Fin h \<Rightarrow> check_links nds counted k ls (linkCount + h))
      else check_links nds counted k ls linkCount)"

text \<open>The loop over the fields of node \<open>k\<close>; the result is the set of classes not yet referenced,
  in insertion order.\<close>

fun check_fields :: "sclass obj \<Rightarrow> string \<Rightarrow> field obj \<Rightarrow> string list \<Rightarrow> string list res" where
  "check_fields cls k [] orphanClasses = Inr orphanClasses"
| "check_fields cls k ((f, Category name c) # fs) orphanClasses =
     (if \<not> obj_in c cls then
        Inl (schema_error ''Field category class undefined.'' (''nodes.'' @ k @ ''.fields.'' @ f))
      else check_fields cls k fs (removeAll c orphanClasses))"
| "check_fields cls k ((f, Tensor name ds sd) # fs) orphanClasses = check_fields cls k fs orphanClasses"

fun check_nodes :: "node obj \<Rightarrow> sclass obj \<Rightarrow> bool \<Rightarrow> node obj \<Rightarrow> string list \<Rightarrow> string list res" where
  "check_nodes nds cls counted [] orphanClasses = Inr orphanClasses"
| "check_nodes nds cls counted ((k, n) # ns) orphanClasses =
     bindE (check_links nds counted k (node_links n) 0) (\<lambda>linkCount.
     bindE (check_fields cls k (node_fields n) orphanClasses) (\<lambda>orphans.
     bindE (throw_if (counted \<and> linkCount > 2)
              (schema_error ''Nodes in undirected schemas with fan-in can have at most 2 outgoing links.'' (''nodes.'' @ k))) (\<lambda>_.
     check_nodes nds cls counted ns orphans)))"

text \<open>The properties a \<^verbatim>\<open>for-in\<close> loop visits in an object or an array.\<close>

definition js_entries :: "jsval \<Rightarrow> (string \<times> jsval) list" where
  "js_entries v =
     (case v of
        JObj ob \<Rightarrow> ob
      | JArr xs \<Rightarrow> zip (map digits_of [0..<length xs]) xs
      | _ \<Rightarrow> [])"

definition is_object :: "jsval \<Rightarrow> bool" where
  "is_object v = (case v of JObj ob \<Rightarrow> True | JArr xs \<Rightarrow> True | _ \<Rightarrow> False)"

definition srcDim_value :: "jsval \<Rightarrow> bool" where
  "srcDim_value v = (case v of JStr s \<Rightarrow> True | JInt n \<Rightarrow> True | _ \<Rightarrow> False)"

fun check_srcDims_entries :: "(string \<times> jsval) list \<Rightarrow> unit res" where
  "check_srcDims_entries [] = Inr ()"
| "check_srcDims_entries ((k, v) # kvs) =
     (if srcDim_value v then check_srcDims_entries kvs
      else Inl (schema_error ''Source dimension values must be strings or integers.'' (''src-dims.'' @ k)))"

definition check_srcDims :: "jsval \<Rightarrow> unit res" where
  "check_srcDims v =
     (if v = JNull then Inr ()
      else if is_object v then check_srcDims_entries (js_entries v)
      else Inl (schema_error ''Source dimensions field must be a key-value dictionary.'' ''src-dims''))"

definition new_Schema ::
  "node dictarg \<Rightarrow> sclass dictarg \<Rightarrow> jsval \<Rightarrow> jsval \<Rightarrow> jsval \<Rightarrow> jsval \<Rightarrow> schema res" where
  "new_Schema nds cls cyc undir fan sdims =
     bindE (dict_arg nds ''Schema nodes must be a key-value dictionary.'') (\<lambda>ns.
     bindE (dict_arg cls ''Schema category classes must be a key-value dictionary.'') (\<lambda>cs.
     bindE (bool_arg cyc ''Schema cyclic flag must be a boolean.'') (\<lambda>cy.
     bindE (bool_arg undir ''Schema undirected flag must be a boolean.'') (\<lambda>un.
     bindE (bool_arg fan ''Schema fan-in flag must be a boolean.'') (\<lambda>fa.
     bindE (throw_if (length (keys ns) < 1) (schema_error ''Schema must have at least one node.'' [])) (\<lambda>_.
     bindE (check_names ''Schema node names may contain lowercase letters, numbers and underscores. They must start with a letter.''
              ''nodes.'' (keys ns)) (\<lambda>_.
     bindE (check_names ''Schema category class names may contain lowercase letters, numbers and underscores. They must start with a letter.''
              ''classes.'' (keys cs)) (\<lambda>_.
     bindE (check_nodes ns cs (un \<and> \<not> fa) ns (keys cs)) (\<lambda>orphans.
     bindE (case orphans of
              [] \<Rightarrow> Inr ()
            | c # _ \<Rightarrow> Inl (schema_error ''Every declared class must be referenced in a category.'' (''classes.'' @ c))) (\<lambda>_.
     bindE (check_srcDims sdims) (\<lambda>_.
     Inr \<lparr>nodes = ns, categoryClasses = cs, cyclic = cy, undirected = un, fanin = fa, srcDims = sdims\<rparr>)))))))))))"

subsection \<open>Variability\<close>

definition isVariable_dim :: "dim \<Rightarrow> bool" where
  "isVariable_dim d = (case d of DInt n \<Rightarrow> False | DStr s \<Rightarrow> True)"

definition isVariable_field :: "field \<Rightarrow> bool" where
  "isVariable_field f = (case f of Tensor nm ds sd \<Rightarrow> list_ex isVariable_dim ds | Category nm c \<Rightarrow> False)"

definition isVariable_node :: "node \<Rightarrow> bool" where
  "isVariable_node n = list_ex (\<lambda>(k, f). isVariable_field f) (node_fields n)"

definition isVariable_schema :: "schema \<Rightarrow> bool" where
  "isVariable_schema s =
     (list_ex (\<lambda>(k, n). isVariable_node n) (nodes s) \<or>
      list_ex (\<lambda>(k, c). isVariable_dim (class_dim c)) (categoryClasses s))"

subsection \<open>Well-formed values\<close>

definition name_to_js :: "string option \<Rightarrow> jsval" where
  "name_to_js nm = (case nm of None \<Rightarrow> JNull | Some s \<Rightarrow> JStr s)"

definition dim_to_js :: "dim \<Rightarrow> jsval" where
  "dim_to_js d = (case d of DInt n \<Rightarrow> JInt n | DStr s \<Rightarrow> JStr s)"

definition bound_to_js :: "bound \<Rightarrow> jsval" where
  "bound_to_js b = (case b of Fin n \<Rightarrow> JInt n | Inf \<Rightarrow> JStr ''inf'')"

definition wf_srcName :: "string option \<Rightarrow> bool" where
  "wf_srcName nm = (case nm of None \<Rightarrow> True | Some s \<Rightarrow> name_format s)"

definition wf_dim :: "dim \<Rightarrow> bool" where
  "wf_dim d = (case d of DInt n \<Rightarrow> 1 \<le> n | DStr s \<Rightarrow> dim_format s)"

definition dim_value :: "jsval \<Rightarrow> bool" where
  "dim_value v = (case v of JInt n \<Rightarrow> 1 \<le> n | JStr s \<Rightarrow> dim_format s | _ \<Rightarrow> False)"

definition wf_link :: "link \<Rightarrow> bool" where
  "wf_link l = (0 \<le> link_lower l \<and>
     (case link_upper l of Fin h \<Rightarrow> 0 < h \<and> link_lower l \<le> h | Inf \<Rightarrow> True))"

definition wf_field :: "field \<Rightarrow> bool" where
  "wf_field f =
     (case f of
        Tensor nm ds sd \<Rightarrow>
          wf_srcName nm \<and> ds \<noteq> [] \<and> list_all wf_dim ds \<and> list_all dim_value (for_in_values sd) \<and>
          length (filter dim_wild ds) \<le> 1 \<and> \<not> skippable ds
      | Category nm c \<Rightarrow> wf_srcName nm \<and> name_format c)"

definition wf_class :: "sclass \<Rightarrow> bool" where
  "wf_class c = (wf_srcName (class_srcName c) \<and>
     (case class_dim c of DInt n \<Rightarrow> 1 \<le> n | DStr s \<Rightarrow> name_format s))"

definition wf_node_shape :: "node \<Rightarrow> bool" where
  "wf_node_shape n =
     (wf_srcName (node_srcName n) \<and>
      list_all name_format (keys (node_fields n)) \<and> list_all name_format (keys (node_links n)) \<and>
      (if isSingleton n then length (node_fields n) = 1 \<and> node_links n = []
       else node_fields n \<noteq> [] \<or> node_links n \<noteq> []))"

definition wf_node :: "node \<Rightarrow> bool" where
  "wf_node n = (wf_node_shape n \<and> (\<forall>(k, f) \<in> set (node_fields n). wf_field f) \<and>
     (\<forall>(k, l) \<in> set (node_links n). wf_link l))"

text \<open>What the \<^verbatim>\<open>Schema\<close> constructor guarantees beyond its parts: names, references between
  nodes and to classes, the restriction on undirected schemas without fan-in, no class left
  unreferenced, and the form of \<^verbatim>\<open>srcDims\<close>.\<close>

definition finite_upper :: "link \<Rightarrow> int" where
  "finite_upper l = (case link_upper l of Fin h \<Rightarrow> h | Inf \<Rightarrow> 0)"

definition link_target :: "node obj \<Rightarrow> string \<Rightarrow> bool" where
  "link_target nds l = (case map_of nds l of Some n \<Rightarrow> \<not> isSingleton n | None \<Rightarrow> inherited l)"

definition chain_links :: "link obj \<Rightarrow> bool" where
  "chain_links ls = ((\<forall>(l, lnk) \<in> set ls. link_upper lnk \<noteq> Inf) \<and> sum_list (map (\<lambda>(l, lnk). finite_upper lnk) ls) \<le> 2)"

definition field_classes :: "field obj \<Rightarrow> string list" where
  "field_classes fs = concat (map (\<lambda>(k, f). case f of Category nm c \<Rightarrow> [c] | Tensor nm ds sd \<Rightarrow> []) fs)"

definition wf_srcDims :: "jsval \<Rightarrow> bool" where
  "wf_srcDims v = (v = JNull \<or> is_object v \<and> (\<forall>(k, d) \<in> set (js_entries v). srcDim_value d))"

definition wf_refs :: "schema \<Rightarrow> bool" where
  "wf_refs s =
     (nodes s \<noteq> [] \<and> list_all name_format (keys (nodes s)) \<and> list_all name_format (keys (categoryClasses s)) \<and>
      (\<forall>(k, n) \<in> set (nodes s). \<forall>(l, lnk) \<in> set (node_links n). link_target (nodes s) l) \<and>
      (undirected s \<and> \<not> fanin s \<longrightarrow> (\<forall>(k, n) \<in> set (nodes s). chain_links (node_links n))) \<and>
      (\<forall>(k, n) \<in> set (nodes s). \<forall>c \<in> set (field_classes (node_fields n)). obj_in c (categoryClasses s)) \<and>
      (\<forall>c \<in> set (keys (categoryClasses s)). \<exists>(k, n) \<in> set (nodes s). c \<in> set (field_classes (node_fields n))) \<and>
      wf_srcDims (srcDims s))"

definition wf_schema :: "schema \<Rightarrow> bool" where
  "wf_schema s = (wf_refs s \<and> (\<forall>(k, n) \<in> set (nodes s). wf_node n) \<and>
     (\<forall>(k, c) \<in> set (categoryClasses s). wf_class c))"

subsection \<open>What the constructors accept\<close>

named_theorems accepts \<open>exact acceptance conditions of the constructors\<close>

lemma check_srcName_iff [accepts]:
  "check_srcName v = Inr nm \<longleftrightarrow> v = name_to_js nm \<and> wf_srcName nm"
  by (cases v; cases nm) (auto simp: check_srcName_def name_to_js_def wf_srcName_def)

lemma check_dim_iff: "check_dim what v = Inr d \<longleftrightarrow> v = dim_to_js d \<and> wf_dim d"
  by (cases v; cases d) (auto simp: check_dim_def dim_to_js_def wf_dim_def)

lemma mapE_check_dim [accepts]:
  "mapE (check_dim what) vs = Inr ds \<longleftrightarrow> vs = map dim_to_js ds \<and> list_all wf_dim ds"
proof (induction vs arbitrary: ds)
  case Nil
  then show ?case by auto
next
  case (Cons v vs)
  then show ?case by (cases ds) (auto simp: bindE_eq_Inr check_dim_iff)
qed

lemma dim_value_iff: "dim_value v \<longleftrightarrow> (\<exists>d. v = dim_to_js d \<and> wf_dim d)"
proof
  assume "dim_value v"
  then show "\<exists>d. v = dim_to_js d \<and> wf_dim d"
    by (cases v) (auto simp: dim_value_def dim_to_js_def wf_dim_def intro: exI [of _ "DInt _"] exI [of _ "DStr _"])
next
  assume "\<exists>d. v = dim_to_js d \<and> wf_dim d"
  then obtain d where "v = dim_to_js d" "wf_dim d" by blast
  then show "dim_value v" by (cases d) (auto simp: dim_value_def dim_to_js_def wf_dim_def)
qed

lemma ex_mapE_check_dim:
  "(\<exists>ds. mapE (check_dim what) vs = Inr ds) \<longleftrightarrow> list_all dim_value vs"
proof (induction vs)
  case Nil
  then show ?case by simp
next
  case (Cons v vs)
  have "(\<exists>d. check_dim what v = Inr d) \<longleftrightarrow> dim_value v"
    by (auto simp: check_dim_iff dim_value_iff)
  with Cons show ?case by (auto simp: bindE_eq_Inr)
qed

lemma check_wildcards_iff [accepts]:
  "check_wildcards found ds = Inr u \<longleftrightarrow> length (filter dim_wild ds) + (if found then 1 else 0) \<le> 1"
  by (induction found ds rule: check_wildcards.induct) auto

lemma check_srcDim_iff [accepts]: "check_srcDim sd = Inr u \<longleftrightarrow> list_all dim_value (for_in_values sd)"
proof (cases "sd = JNull")
  case True
  then show ?thesis by (simp add: check_srcDim_def for_in_values_def)
next
  case False
  then show ?thesis
    by (simp add: check_srcDim_def bindE_eq_Inr ex_mapE_check_dim)
qed

lemma new_Tensor_iff [accepts]:
  "new_Tensor d n sd = Inr f \<longleftrightarrow>
    (\<exists>nm ds. d = JArr (map dim_to_js ds) \<and> n = name_to_js nm \<and> f = Tensor nm ds sd \<and> wf_field f)"
  by (cases d) (auto simp: new_Tensor_def bindE_eq_Inr accepts wf_field_def Suc_le_eq)

lemma new_Category_iff [accepts]:
  "new_Category c n = Inr f \<longleftrightarrow> (\<exists>nm s. c = JStr s \<and> n = name_to_js nm \<and> f = Category nm s \<and> wf_field f)"
  by (cases c) (auto simp: new_Category_def bindE_eq_Inr accepts wf_field_def)

lemma new_Class_iff [accepts]:
  "new_Class d n = Inr c \<longleftrightarrow> d = dim_to_js (class_dim c) \<and> n = name_to_js (class_srcName c) \<and> wf_class c"
  by (cases d; cases c; cases "class_dim c")
     (auto simp: new_Class_def bindE_eq_Inr accepts wf_class_def dim_to_js_def split: if_splits)

lemma new_Link_Arr: "new_Link (JArr [JInt (link_lower l), bound_to_js (link_upper l)]) = Inr l \<longleftrightarrow> wf_link l"
  by (cases l; cases "link_upper l") (auto simp: new_Link_def bound_to_js_def wf_link_def)

lemma new_Link_wf: "new_Link v = Inr l \<Longrightarrow> wf_link l"
  by (auto simp: new_Link_def wf_link_def split: jsval.splits if_splits)

lemma dict_arg_iff [accepts]: "dict_arg a msg = Inr ob \<longleftrightarrow> a = Dict ob \<or> a = NullArg \<and> ob = []"
  by (cases a) (auto simp: dict_arg_def)

lemma bool_arg_iff [accepts]: "bool_arg v msg = Inr b \<longleftrightarrow> v = JBool b"
  by (cases v) (auto simp: bool_arg_def)

lemma check_names_iff [accepts]: "check_names msg prefix ks = Inr u \<longleftrightarrow> list_all name_format ks"
  by (induction msg prefix ks rule: check_names.induct) auto

lemma new_Node_iff [accepts]:
  "new_Node (JBool b) (Dict fs) (Dict ls) n = Inr nd \<longleftrightarrow>
    isSingleton nd = b \<and> node_fields nd = fs \<and> node_links nd = ls \<and> n = name_to_js (node_srcName nd) \<and> wf_node_shape nd"
  by (cases nd) (auto simp: new_Node_def bindE_eq_Inr accepts wf_node_shape_def keys_def Suc_le_eq)

lemma new_Node_wf_shape: "new_Node b fs ls n = Inr nd \<Longrightarrow> wf_node_shape nd"
  by (auto simp: new_Node_def bindE_eq_Inr accepts wf_node_shape_def keys_def Suc_le_eq)

lemma obj_in_target:
  "(\<not> obj_in l nds \<or> (case map_of nds l of Some n \<Rightarrow> isSingleton n | None \<Rightarrow> False)) \<longleftrightarrow> \<not> link_target nds l"
  by (auto simp: obj_in_def link_target_def in_keys_iff split: option.splits)

lemma check_links_Cons:
  "check_links nds counted k ((l, lnk) # ls) c = Inr r \<longleftrightarrow>
    link_target nds l \<and> (counted \<longrightarrow> link_upper lnk \<noteq> Inf) \<and>
    check_links nds counted k ls (if counted then c + finite_upper lnk else c) = Inr r"
  using obj_in_target [of l nds]
  by (cases "link_upper lnk") (auto simp: finite_upper_def simp del: obj_in_target)

lemma check_links_iff:
  "check_links nds counted k ls c = Inr r \<longleftrightarrow>
    (\<forall>(l, lnk) \<in> set ls. link_target nds l) \<and> (counted \<longrightarrow> (\<forall>(l, lnk) \<in> set ls. link_upper lnk \<noteq> Inf)) \<and>
    r = c + (if counted then sum_list (map (\<lambda>(l, lnk). finite_upper lnk) ls) else 0)"
proof (induction ls arbitrary: c)
  case Nil
  then show ?case by auto
next
  case (Cons p ls)
  obtain l lnk where p: "p = (l, lnk)" by (cases p)
  show ?case unfolding p check_links_Cons Cons.IH by (auto simp: algebra_simps)
qed

lemma check_fields_iff:
  "check_fields cls k fs orphans = Inr r \<longleftrightarrow>
    (\<forall>c \<in> set (field_classes fs). obj_in c cls) \<and> r = filter (\<lambda>c. c \<notin> set (field_classes fs)) orphans"
proof (induction cls k fs orphans rule: check_fields.induct)
  case (2 cls k f nm c fs orphans)
  have "filter (\<lambda>x. x \<notin> set (field_classes ((f, Category nm c) # fs))) orphans =
      filter (\<lambda>x. x \<notin> set (field_classes fs)) (removeAll c orphans)"
    by (simp add: removeAll_filter_not_eq field_classes_def) (rule filter_cong, auto)
  with 2 show ?case by (auto simp: field_classes_def)
qed (auto simp: field_classes_def)

definition node_refs :: "node obj \<Rightarrow> sclass obj \<Rightarrow> bool \<Rightarrow> node \<Rightarrow> bool" where
  "node_refs nds cls counted n =
     ((\<forall>(l, lnk) \<in> set (node_links n). link_target nds l) \<and> (counted \<longrightarrow> chain_links (node_links n)) \<and>
      (\<forall>c \<in> set (field_classes (node_fields n)). obj_in c cls))"

lemma check_nodes_iff:
  "check_nodes nds cls counted ns orphans = Inr r \<longleftrightarrow>
    (\<forall>(k, n) \<in> set ns. node_refs nds cls counted n) \<and>
    r = filter (\<lambda>c. \<forall>(k, n) \<in> set ns. c \<notin> set (field_classes (node_fields n))) orphans"
proof (induction ns arbitrary: orphans)
  case Nil
  then show ?case by auto
next
  case (Cons p ns)
  obtain k n where p: "p = (k, n)" by (cases p)
  have "check_nodes nds cls counted ((k, n) # ns) orphans = Inr r \<longleftrightarrow>
      node_refs nds cls counted n \<and>
      check_nodes nds cls counted ns (filter (\<lambda>c. c \<notin> set (field_classes (node_fields n))) orphans) = Inr r"
    by (auto simp: bindE_eq_Inr check_links_iff check_fields_iff node_refs_def chain_links_def not_less)
  then show ?case unfolding p Cons.IH by (auto simp: filter_filter conj_commute)
qed

lemma check_srcDims_iff [accepts]: "check_srcDims v = Inr u \<longleftrightarrow> wf_srcDims v"
proof -
  have "check_srcDims_entries kvs = Inr u \<longleftrightarrow> (\<forall>(k, d) \<in> set kvs. srcDim_value d)" for kvs
    by (induction kvs rule: check_srcDims_entries.induct) auto
  then show ?thesis by (auto simp: check_srcDims_def wf_srcDims_def is_object_def)
qed

lemma new_Schema_iff:
  "new_Schema (Dict ns) (Dict cs) (JBool cy) (JBool un) (JBool fa) sd = Inr s \<longleftrightarrow>
    s = \<lparr>nodes = ns, categoryClasses = cs, cyclic = cy, undirected = un, fanin = fa, srcDims = sd\<rparr> \<and> wf_refs s"
proof -
  have orphans: "(case filter P cs' of [] \<Rightarrow> Inr () | c # cs'' \<Rightarrow> Inl (E c)) = Inr () \<longleftrightarrow> (\<forall>c \<in> set cs'. \<not> P c)"
    for P and cs' :: "string list" and E :: "string \<Rightarrow> js_error"
  proof (cases "filter P cs'")
    case Nil
    then show ?thesis by (simp add: filter_empty_conv)
  next
    case (Cons c rest)
    then have "c \<in> set (filter P cs')" by simp
    then have "\<exists>c \<in> set cs'. P c" by auto
    with Cons show ?thesis by auto
  qed
  let ?s = "\<lparr>nodes = ns, categoryClasses = cs, cyclic = cy, undirected = un, fanin = fa, srcDims = sd\<rparr>"
  let ?c = "un \<and> \<not> fa"
  have refs: "(\<forall>(k, n) \<in> set ns. node_refs ns cs ?c n) \<longleftrightarrow>
      (\<forall>(k, n) \<in> set ns. \<forall>(l, lnk) \<in> set (node_links n). link_target ns l) \<and>
      (?c \<longrightarrow> (\<forall>(k, n) \<in> set ns. chain_links (node_links n))) \<and>
      (\<forall>(k, n) \<in> set ns. \<forall>c \<in> set (field_classes (node_fields n)). obj_in c cs)"
    unfolding node_refs_def by (simp add: case_prod_beta) blast
  have "new_Schema (Dict ns) (Dict cs) (JBool cy) (JBool un) (JBool fa) sd = Inr s \<longleftrightarrow>
      s = ?s \<and> keys ns \<noteq> [] \<and> list_all name_format (keys ns) \<and> list_all name_format (keys cs) \<and>
      (\<forall>(k, n) \<in> set ns. node_refs ns cs ?c n) \<and>
      (\<forall>c \<in> set (keys cs). \<not> (\<forall>(k, n) \<in> set ns. c \<notin> set (field_classes (node_fields n)))) \<and> wf_srcDims sd"
    unfolding new_Schema_def
    by (simp add: bindE_eq_Inr accepts check_nodes_iff orphans Suc_le_eq) auto
  also have "\<dots> \<longleftrightarrow> s = ?s \<and> wf_refs ?s"
    unfolding refs wf_refs_def by (simp add: keys_def case_prod_beta)
  finally show ?thesis by auto
qed

lemma new_Schema_args:
  "new_Schema ns cs cy un fa sd = Inr s \<Longrightarrow>
   new_Schema (Dict (nodes s)) (Dict (categoryClasses s)) (JBool (cyclic s)) (JBool (undirected s)) (JBool (fanin s)) (srcDims s) = Inr s"
  by (auto simp: new_Schema_def bindE_eq_Inr accepts)

lemma new_Schema_wf_refs: "new_Schema ns cs cy un fa sd = Inr s \<Longrightarrow> wf_refs s"
  using new_Schema_args new_Schema_iff by blast

text \<open>The consequences of \<open>wf_refs\<close> one at a time.\<close>

lemma wf_refs_class_used:
  assumes "wf_refs s" and "c \<in> set (keys (categoryClasses s))"
  obtains k n where "(k, n) \<in> set (nodes s)" and "c \<in> set (field_classes (node_fields n))"
proof -
  have "\<exists>(k, n) \<in> set (nodes s). c \<in> set (field_classes (node_fields n))"
    using assms unfolding wf_refs_def by simp
  then show ?thesis using that by blast
qed

lemma wf_refs_class_declared:
  assumes "wf_refs s" and "(k, n) \<in> set (nodes s)" and "c \<in> set (field_classes (node_fields n))"
  shows "obj_in c (categoryClasses s)"
proof -
  have "\<forall>(k, n) \<in> set (nodes s). \<forall>c \<in> set (field_classes (node_fields n)). obj_in c (categoryClasses s)"
    using assms(1) unfolding wf_refs_def by simp
  then show ?thesis using assms(2,3) by blast
qed

lemma wf_refs_link_target:
  assumes "wf_refs s" and "(k, n) \<in> set (nodes s)" and "(l, lnk) \<in> set (node_links n)"
  shows "link_target (nodes s) l"
proof -
  have "\<forall>(k, n) \<in> set (nodes s). \<forall>(l, lnk) \<in> set (node_links n). link_target (nodes s) l"
    using assms(1) unfolding wf_refs_def by simp
  then show ?thesis using assms(2,3) by blast
qed

end
