(* ===== verification/Schema_Load.thy ===== *)
theory Schema_Load
  imports Schema_Types
begin

text \<open>
  Reading and writing schemas in \<^verbatim>\<open>src/schema.js\<close>: the functions \<^verbatim>\<open>load\<close>, \<^verbatim>\<open>loadNode\<close>,
  \<^verbatim>\<open>loadField\<close>, \<^verbatim>\<open>loadTensor\<close>, \<^verbatim>\<open>loadCategory\<close>, \<^verbatim>\<open>loadClass\<close>, \<^verbatim>\<open>loadLink\<close> and their \<^verbatim>\<open>dump\<close>
  counterparts. A loader gets a JSON value and returns a well-formed value or the exception
  it raises, with the path its callers write into it; a dumper returns a JSON value.

  The source replaces the entries of the dictionaries it is given by what it loads from them;
  the model returns the loaded dictionary and leaves the input alone, which no caller of
  \<^verbatim>\<open>load\<close> in the repository can observe (each parses its JSON for the call).

  The lemmas show that whatever \<^verbatim>\<open>load\<close> accepts is well formed, and that writing a well-formed
  schema and reading it back gives the same schema up to the two pieces of information the
  format has no place for: the name of a singleton's only field, and the difference between the
  source name of a singleton and the source name of its field (\<open>canon\<close>).
\<close>

subsection \<open>Loading\<close>

text \<open>\<^verbatim>\<open>catch (err) { if (err instanceof SchemaException) err.path = p; throw err }\<close>\<close>

definition with_path :: "string \<Rightarrow> 'a res \<Rightarrow> 'a res" where
  "with_path p r = (case r of Inl (SchemaException msg q) \<Rightarrow> Inl (SchemaException msg p) | _ \<Rightarrow> r)"

definition loadLink :: "jsval \<Rightarrow> link res" where
  "loadLink input = new_Link input"

definition loadTensor :: "jsval \<Rightarrow> field res" where
  "loadTensor input =
     bindE (field_or input ''dim'' JNull) (\<lambda>dim.
     bindE (field_or input ''src-name'' JNull) (\<lambda>srcName.
     bindE (field_or input ''src-dim'' JNull) (\<lambda>srcDim.
     bindE (throw_if (dim = JNull) (schema_error ''Tensor must have a 'dim' field.'' [])) (\<lambda>_.
     new_Tensor dim srcName srcDim))))"

definition loadCategory :: "jsval \<Rightarrow> field res" where
  "loadCategory input =
     bindE (field_or input ''class'' JNull) (\<lambda>cls.
     bindE (field_or input ''src-name'' JNull) (\<lambda>srcName.
     bindE (throw_if (cls = JNull) (schema_error ''Category must have a 'class' field.'' [])) (\<lambda>_.
     new_Category cls srcName)))"

definition loadField :: "jsval \<Rightarrow> field res" where
  "loadField input =
     bindE (field_or input ''type'' JNull) (\<lambda>fieldType.
     bindE (throw_if (fieldType = JNull) (schema_error ''Field must have a 'type' field.'' [])) (\<lambda>_.
     if fieldType = JStr ''tensor'' then loadTensor input
     else if fieldType = JStr ''category'' then loadCategory input
     else Inl (SchemaException (TextWith (''Unknown field type '' @ [CHR 0x27]) fieldType (CHR 0x27 # ''.'')) [])))"

definition loadClass :: "jsval \<Rightarrow> sclass res" where
  "loadClass input =
     bindE (throw_if (input \<noteq> JNull \<and> \<not> is_object input) AssertionError) (\<lambda>_.
     bindE (field_or input ''dim'' JNull) (\<lambda>dim.
     bindE (field_or input ''src-name'' JNull) (\<lambda>srcName.
     bindE (throw_if (dim = JNull) (schema_error ''Class must have a 'dim' field.'' [])) (\<lambda>_.
     new_Class dim srcName))))"

text \<open>\<^verbatim>\<open>if (typeof v === 'object') for (let k in v) v[k] = ld(v[k])\<close>, with the path of each entry, and
  \<open>v\<close> as it is passed on to a constructor.\<close>

definition load_entries :: "(jsval \<Rightarrow> 'a res) \<Rightarrow> string \<Rightarrow> jsval \<Rightarrow> 'a dictarg res" where
  "load_entries ld prefix v =
     (if v = JNull then Inr NullArg
      else if is_object v then
        bindE (obj_mapE (\<lambda>k x. with_path (prefix @ k) (ld x)) (js_entries v)) (\<lambda>ob. Inr (Dict ob))
      else Inr NonObject)"

definition loadNode_fields :: "jsval \<Rightarrow> jsval \<Rightarrow> jsval \<Rightarrow> field dictarg res" where
  "loadNode_fields input singleton flds =
     (if truthy singleton \<and> flds = JNull then Inl TypeError
      else if truthy singleton \<and> is_object flds \<and> js_entries flds = [] then
        bindE (loadField input) (\<lambda>f. Inr (Dict [(''field'', f)]))
      else load_entries loadField ''fields.'' flds)"

definition loadNode :: "jsval \<Rightarrow> node res" where
  "loadNode input =
     bindE (field_or input ''singleton'' (JBool False)) (\<lambda>singleton.
     bindE (field_or input ''links'' (JObj [])) (\<lambda>lnks.
     bindE (field_or input ''fields'' (JObj [])) (\<lambda>flds.
     bindE (field_or input ''src-name'' JNull) (\<lambda>srcName.
     bindE (loadNode_fields input singleton flds) (\<lambda>fs.
     bindE (load_entries loadLink ''links.'' lnks) (\<lambda>ls.
     new_Node singleton fs ls srcName))))))"

text \<open>The end of \<^verbatim>\<open>load\<close>: the referential constraints, and the call of the constructor.\<close>

definition load_flags :: "jsval \<Rightarrow> node dictarg \<Rightarrow> sclass dictarg \<Rightarrow> jsval \<Rightarrow> schema res" where
  "load_flags constraints ns cs sdims =
     (case constraints of
        JObj ob \<Rightarrow>
          bindE (field_or constraints ''cyclic'' (JBool False)) (\<lambda>cyc.
          bindE (field_or constraints ''undirected'' (JBool False)) (\<lambda>undir.
          bindE (field_or constraints ''fan-in'' (JBool False)) (\<lambda>fan.
          new_Schema ns cs cyc undir fan sdims)))
      | _ \<Rightarrow> Inl (schema_error ''Reference constraints field must be a key-value dictionary.'' ''ref-constraints''))"

definition load :: "jsval \<Rightarrow> schema res" where
  "load input =
     bindE (throw_if (input \<noteq> JNull \<and> \<not> is_object input) AssertionError) (\<lambda>_.
     bindE (field_or input ''nodes'' JNull) (\<lambda>nds.
     bindE (field_or input ''ref-constraints'' (JObj [])) (\<lambda>constraints.
     bindE (field_or input ''classes'' (JObj [])) (\<lambda>cls.
     bindE (field_or input ''src-dims'' JNull) (\<lambda>sdims.
     bindE (load_entries loadNode ''nodes.'' nds) (\<lambda>ns.
     bindE (if is_object cls then load_entries loadClass ''classes.'' cls
            else Inl (schema_error ''Category classes must be a key-value dictionary.'' ''classes'')) (\<lambda>cs.
     load_flags constraints ns cs sdims)))))))"

subsection \<open>Dumping\<close>

definition dumpLink :: "link \<Rightarrow> jsval" where
  "dumpLink l = JArr [JInt (link_lower l), bound_to_js (link_upper l)]"

definition dumpTensor :: "dim list \<Rightarrow> jsval \<Rightarrow> jsval obj" where
  "dumpTensor ds sd =
     (let result = [(''dim'', JArr (map dim_to_js ds))]
      in if sd \<noteq> JNull then obj_put ''src-dim'' sd result else result)"

definition dumpCategory :: "string \<Rightarrow> jsval obj" where
  "dumpCategory c = [(''class'', JStr c)]"

definition put_srcName :: "string option \<Rightarrow> jsval obj \<Rightarrow> jsval obj" where
  "put_srcName nm result = (case nm of None \<Rightarrow> result | Some s \<Rightarrow> obj_put ''src-name'' (JStr s) result)"

definition dumpField :: "field \<Rightarrow> jsval obj" where
  "dumpField f =
     (case f of
        Tensor nm ds sd \<Rightarrow> put_srcName nm (obj_put ''type'' (JStr ''tensor'') (dumpTensor ds sd))
      | Category nm c \<Rightarrow> put_srcName nm (obj_put ''type'' (JStr ''category'') (dumpCategory c)))"

definition dumpClass :: "sclass \<Rightarrow> jsval" where
  "dumpClass c = JObj (put_srcName (class_srcName c) [(''dim'', dim_to_js (class_dim c))])"

definition dumpNode :: "node \<Rightarrow> jsval res" where
  "dumpNode n =
     (let result = [(''singleton'', JBool (isSingleton n))]
      in if isSingleton n then
           (case node_fields n of
              [] \<Rightarrow> Inl TypeError
            | (k, f) # _ \<Rightarrow> Inr (JObj (put_srcName (node_srcName n) (obj_assign result (dumpField f)))))
         else
           Inr (JObj (put_srcName (node_srcName n)
             (obj_put ''links'' (JObj (obj_map dumpLink (node_links n)))
             (obj_put ''fields'' (JObj (obj_map (\<lambda>f. JObj (dumpField f)) (node_fields n))) result)))))"

definition dump :: "schema \<Rightarrow> jsval res" where
  "dump s =
     bindE (obj_mapE (\<lambda>k n. dumpNode n) (nodes s)) (\<lambda>nds.
       let result = [(''ref-constraints'',
                       JObj [(''cyclic'', JBool (cyclic s)), (''undirected'', JBool (undirected s)), (''fan-in'', JBool (fanin s))]),
                     (''nodes'', JObj nds)];
           result = (if categoryClasses s \<noteq> [] then obj_put ''classes'' (JObj (obj_map dumpClass (categoryClasses s))) result
                     else result);
           result = (if srcDims s \<noteq> JNull then obj_put ''src-dims'' (srcDims s) result else result)
       in Inr (JObj result))"

subsection \<open>What the format keeps\<close>

definition set_srcName :: "string option \<Rightarrow> field \<Rightarrow> field" where
  "set_srcName nm f = (case f of Tensor _ ds sd \<Rightarrow> Tensor nm ds sd | Category _ c \<Rightarrow> Category nm c)"

definition canon_node :: "node \<Rightarrow> node" where
  "canon_node n =
     (if isSingleton n then
        (case node_fields n of
           [] \<Rightarrow> n
         | (k, f) # _ \<Rightarrow>
             let nm = (case node_srcName n of None \<Rightarrow> field_srcName f | Some s \<Rightarrow> Some s)
             in n\<lparr>node_fields := [(''field'', set_srcName nm f)], node_srcName := nm\<rparr>)
      else n)"

definition canon :: "schema \<Rightarrow> schema" where
  "canon s = s\<lparr>nodes := obj_map canon_node (nodes s)\<rparr>"

subsection \<open>Lemmas\<close>

lemma with_path_Inr [simp]: "with_path p r = Inr x \<longleftrightarrow> r = Inr x"
  by (auto simp: with_path_def split: sum.splits js_error.splits)

subsubsection \<open>Everything loaded is well formed\<close>

lemma loadField_wf: "loadField v = Inr f \<Longrightarrow> wf_field f"
  by (auto simp: loadField_def loadTensor_def loadCategory_def bindE_eq_Inr accepts split: if_splits)

lemma loadClass_wf: "loadClass v = Inr c \<Longrightarrow> wf_class c"
  by (auto simp: loadClass_def bindE_eq_Inr accepts)

lemma loadLink_wf: "loadLink v = Inr l \<Longrightarrow> wf_link l"
  by (simp add: loadLink_def new_Link_wf)

lemma load_entries_wf:
  assumes "load_entries ld prefix v = Inr a" and "\<And>v x. ld v = Inr x \<Longrightarrow> P x"
    and "(k, x) \<in> set (case a of Dict ob \<Rightarrow> ob | _ \<Rightarrow> [])"
  shows "P x"
  using assms by (auto simp: load_entries_def bindE_eq_Inr split: if_splits dest!: obj_mapE_set)

text \<open>What a constructor that takes dictionaries does with them: the entries of its result are
  the entries it was given.\<close>

lemma new_Node_entries:
  assumes "new_Node b fs ls n = Inr nd"
  shows "node_fields nd = (case fs of Dict ob \<Rightarrow> ob | _ \<Rightarrow> [])" and "node_links nd = (case ls of Dict ob \<Rightarrow> ob | _ \<Rightarrow> [])"
  using assms by (auto simp: new_Node_def bindE_eq_Inr accepts)

lemma new_Schema_entries:
  assumes "new_Schema ns cs cy un fa sd = Inr s"
  shows "nodes s = (case ns of Dict ob \<Rightarrow> ob | _ \<Rightarrow> [])" and "categoryClasses s = (case cs of Dict ob \<Rightarrow> ob | _ \<Rightarrow> [])"
  using assms by (auto simp: new_Schema_def bindE_eq_Inr accepts)

lemma loadNode_fields_wf:
  assumes "loadNode_fields input b flds = Inr a" and "(k, f) \<in> set (case a of Dict ob \<Rightarrow> ob | _ \<Rightarrow> [])"
  shows "wf_field f"
  using assms
  by (auto simp: loadNode_fields_def bindE_eq_Inr loadField_wf split: if_splits
      dest: load_entries_wf [where P = wf_field and ld = loadField])

lemma loadNode_wf:
  assumes "loadNode v = Inr n"
  shows "wf_node n"
proof -
  obtain b flds lnks nm fs ls where fs: "loadNode_fields v b flds = Inr fs"
    and ls: "load_entries loadLink ''links.'' lnks = Inr ls" and n: "new_Node b fs ls nm = Inr n"
    using assms by (auto simp: loadNode_def bindE_eq_Inr)
  have "\<forall>(k, f) \<in> set (node_fields n). wf_field f"
    using loadNode_fields_wf [OF fs] new_Node_entries(1) [OF n] by auto
  moreover have "\<forall>(k, l) \<in> set (node_links n). wf_link l"
    using load_entries_wf [OF ls loadLink_wf] new_Node_entries(2) [OF n] by auto
  ultimately show ?thesis using new_Node_wf_shape [OF n] by (simp add: wf_node_def)
qed

lemma load_wf:
  assumes "load v = Inr s"
  shows "wf_schema s"
proof -
  obtain nds ns cls cs con sd where ns: "load_entries loadNode ''nodes.'' nds = Inr ns"
    and cs: "load_entries loadClass ''classes.'' cls = Inr cs" and "load_flags con ns cs sd = Inr s"
    using assms by (auto simp: load_def bindE_eq_Inr split: if_splits)
  then obtain cy un fa where s: "new_Schema ns cs cy un fa sd = Inr s"
    by (cases con) (auto simp: load_flags_def bindE_eq_Inr)
  have "\<forall>(k, n) \<in> set (nodes s). wf_node n"
    using load_entries_wf [OF ns loadNode_wf] new_Schema_entries(1) [OF s] by auto
  moreover have "\<forall>(k, c) \<in> set (categoryClasses s). wf_class c"
    using load_entries_wf [OF cs loadClass_wf] new_Schema_entries(2) [OF s] by auto
  ultimately show ?thesis using new_Schema_wf_refs [OF s] by (simp add: wf_schema_def)
qed

subsubsection \<open>The written form\<close>

lemma index_of_key_nondigit: "\<not> is_digit c \<Longrightarrow> index_of_key (c # cs) = None"
  by (simp add: index_of_key_def)

lemmas obj_eval = obj_put_def keys_def index_of_key_nondigit is_digit_def

lemma dumpField_Tensor:
  "dumpField (Tensor nm ds sd) =
    (''dim'', JArr (map dim_to_js ds)) # (if sd \<noteq> JNull then [(''src-dim'', sd)] else []) @
    (''type'', JStr ''tensor'') # (case nm of None \<Rightarrow> [] | Some s \<Rightarrow> [(''src-name'', JStr s)])"
  by (cases nm) (simp_all add: dumpField_def dumpTensor_def put_srcName_def obj_eval)

lemma dumpField_Category:
  "dumpField (Category nm c) =
    [(''class'', JStr c), (''type'', JStr ''category'')] @ (case nm of None \<Rightarrow> [] | Some s \<Rightarrow> [(''src-name'', JStr s)])"
  by (cases nm) (simp_all add: dumpField_def dumpCategory_def put_srcName_def obj_eval)

lemmas dumpField_forms = dumpField_Tensor dumpField_Category

lemma assign_dumpField:
  "obj_assign [(''singleton'', JBool b)] (dumpField f) = (''singleton'', JBool b) # dumpField f"
  by (cases f; cases "field_srcName f")
     (simp_all add: dumpField_forms obj_assign_def obj_eval)

lemma put_srcName_again:
  "put_srcName nm ((''singleton'', b) # dumpField f) =
    (''singleton'', b) # dumpField (set_srcName (case nm of None \<Rightarrow> field_srcName f | Some s \<Rightarrow> Some s) f)"
  by (cases f; cases nm; cases "field_srcName f")
     (auto simp: dumpField_forms put_srcName_def set_srcName_def obj_eval)

lemma dumpNode_singleton:
  assumes "isSingleton n" and "node_fields n = [(k, f)]"
  shows "dumpNode n = Inr (JObj ((''singleton'', JBool True) #
     dumpField (set_srcName (case node_srcName n of None \<Rightarrow> field_srcName f | Some s \<Rightarrow> Some s) f)))"
  using assms by (simp add: dumpNode_def assign_dumpField put_srcName_again)

lemma dumpNode_regular:
  assumes "\<not> isSingleton n"
  shows "dumpNode n = Inr (JObj ([(''singleton'', JBool False),
       (''fields'', JObj (obj_map (\<lambda>f. JObj (dumpField f)) (node_fields n))),
       (''links'', JObj (obj_map dumpLink (node_links n)))] @
       (case node_srcName n of None \<Rightarrow> [] | Some s \<Rightarrow> [(''src-name'', JStr s)])))"
  using assms by (cases "node_srcName n") (simp_all add: dumpNode_def put_srcName_def obj_eval)

subsubsection \<open>Reading the written form\<close>

lemma name_to_js_option: "name_to_js nm = (case nm of None \<Rightarrow> JNull | Some s \<Rightarrow> JStr s)"
  by (rule name_to_js_def)

lemma loadField_dumpField:
  assumes "wf_field f" and "map_of ob ''type'' = None" "map_of ob ''dim'' = None" "map_of ob ''class'' = None"
    "map_of ob ''src-dim'' = None" "map_of ob ''src-name'' = None"
  shows "loadField (JObj (ob @ dumpField f)) = Inr f"
proof (cases f)
  case (Tensor nm ds sd)
  have "new_Tensor (JArr (map dim_to_js ds)) (name_to_js nm) sd = Inr (Tensor nm ds sd)"
    using assms(1) Tensor by (auto simp: new_Tensor_iff)
  then show ?thesis
    using assms by (auto simp: Tensor loadField_def loadTensor_def dumpField_forms map_add_def name_to_js_option split: option.splits)
next
  case (Category nm c)
  have "new_Category (JStr c) (name_to_js nm) = Inr (Category nm c)"
    using assms(1) Category by (auto simp: new_Category_iff)
  then show ?thesis
    using assms by (auto simp: Category loadField_def loadCategory_def dumpField_forms map_add_def name_to_js_option split: option.splits)
qed

definition node_json :: "node \<Rightarrow> jsval" where
  "node_json n = (case dumpNode n of Inl e \<Rightarrow> JNull | Inr v \<Rightarrow> v)"

interpretation link_codec: codec dumpLink loadLink "\<lambda>l. l" wf_link
  by unfold_locales (simp add: loadLink_def dumpLink_def new_Link_Arr)

interpretation field_codec: codec "\<lambda>f. JObj (dumpField f)" loadField "\<lambda>f. f" wf_field
  by unfold_locales (use loadField_dumpField [of _ "[]"] in simp)

interpretation class_codec: codec dumpClass loadClass "\<lambda>c. c" wf_class
proof unfold_locales
  fix c assume "wf_class c"
  then have "new_Class (dim_to_js (class_dim c)) (name_to_js (class_srcName c)) = Inr c"
    by (simp add: new_Class_iff)
  then show "loadClass (dumpClass c) = Inr c"
    by (auto simp: loadClass_def dumpClass_def put_srcName_def is_object_def name_to_js_option dim_to_js_def
        split: option.splits dim.splits)
qed

lemma wf_set_srcName: "wf_field f \<Longrightarrow> wf_srcName nm \<Longrightarrow> wf_field (set_srcName nm f)"
  by (cases f) (auto simp: wf_field_def set_srcName_def)

lemma wf_field_srcName: "wf_field f \<Longrightarrow> wf_srcName (field_srcName f)"
  by (cases f) (auto simp: wf_field_def)

lemma loadNode_singleton:
  assumes "isSingleton n" and "wf_node n"
  shows "loadNode (node_json n) = Inr (canon_node n) \<and> (\<exists>v. dumpNode n = Inr v)"
proof -
  from assms obtain k f where kf: "node_fields n = [(k, f)]" and lk: "node_links n = []"
    by (auto simp: wf_node_def wf_node_shape_def length_Suc_conv)
  define nm where "nm = (case node_srcName n of None \<Rightarrow> field_srcName f | Some s \<Rightarrow> Some s)"
  have f: "wf_field f" using assms(2) kf by (simp add: wf_node_def)
  have nm: "wf_srcName nm"
    using assms(2) wf_field_srcName [OF f] by (auto simp: nm_def wf_node_def wf_node_shape_def wf_srcName_def split: option.splits)
  let ?ob = "(''singleton'', JBool True) # dumpField (set_srcName nm f)"
  have d: "dumpNode n = Inr (JObj ?ob)"
    using dumpNode_singleton [OF assms(1) kf] by (simp add: nm_def)
  have "loadField (JObj ?ob) = Inr (set_srcName nm f)"
    using loadField_dumpField [OF wf_set_srcName [OF f nm], of "[(''singleton'', JBool True)]"] by simp
  moreover have "map_of ?ob ''fields'' = None" and "map_of ?ob ''links'' = None"
    and "map_of ?ob ''src-name'' = map_option JStr nm"
    by (cases f; cases nm; simp add: set_srcName_def dumpField_forms)+
  moreover have "new_Node (JBool True) (Dict [(''field'', set_srcName nm f)]) (Dict []) (name_to_js nm) = Inr (canon_node n)"
    using assms(1) kf lk nm
    by (simp add: new_Node_iff canon_node_def nm_def [symmetric] wf_node_shape_def keys_def name_format_def
        name_start_def name_char_def is_lower_def is_digit_def)
  ultimately have "loadNode (JObj ?ob) = Inr (canon_node n)"
    by (cases nm) (simp_all add: loadNode_def loadNode_fields_def load_entries_def is_object_def js_entries_def
        obj_mapE_def name_to_js_option)
  then show ?thesis by (simp add: node_json_def d)
qed

lemma loadNode_regular:
  assumes "\<not> isSingleton n" and "wf_node n"
  shows "loadNode (node_json n) = Inr (canon_node n) \<and> (\<exists>v. dumpNode n = Inr v)"
proof -
  have "obj_mapE (\<lambda>k x. with_path (''fields.'' @ k) (loadField x)) (obj_map (\<lambda>f. JObj (dumpField f)) (node_fields n))
      = Inr (obj_map (\<lambda>f. f) (node_fields n))"
    using assms(2) by (intro field_codec.load_dump_object) (auto simp: wf_node_def)
  moreover have "obj_mapE (\<lambda>k x. with_path (''links.'' @ k) (loadLink x)) (obj_map dumpLink (node_links n))
      = Inr (obj_map (\<lambda>l. l) (node_links n))"
    using assms(2) by (intro link_codec.load_dump_object) (auto simp: wf_node_def)
  moreover have "new_Node (JBool False) (Dict (node_fields n)) (Dict (node_links n)) (name_to_js (node_srcName n)) = Inr n"
    using assms by (simp add: new_Node_iff wf_node_def)
  ultimately have "loadNode (node_json n) = Inr n"
    using dumpNode_regular [OF assms(1)]
    by (cases "node_srcName n") (simp_all add: node_json_def loadNode_def loadNode_fields_def load_entries_def is_object_def
        js_entries_def name_to_js_option)
  then show ?thesis using assms(1) dumpNode_regular by (simp add: canon_node_def)
qed

interpretation node_codec: codec node_json loadNode canon_node wf_node
  by unfold_locales (use loadNode_singleton loadNode_regular in blast)

subsubsection \<open>Whole schemas\<close>

lemma canon_node_simps [simp]:
  "isSingleton (canon_node n) = isSingleton n" "node_links (canon_node n) = node_links n"
  by (auto simp: canon_node_def Let_def split: list.splits)

lemma canon_node_classes:
  assumes "wf_node n"
  shows "field_classes (node_fields (canon_node n)) = field_classes (node_fields n)"
proof (cases "isSingleton n")
  case True
  with assms obtain k f where "node_fields n = [(k, f)]"
    by (auto simp: wf_node_def wf_node_shape_def length_Suc_conv)
  with True show ?thesis
    by (cases f) (simp_all add: canon_node_def Let_def field_classes_def set_srcName_def)
qed (simp add: canon_node_def)

lemma dumpNode_canon:
  assumes "wf_node n"
  shows "dumpNode (canon_node n) = dumpNode n"
proof (cases "isSingleton n")
  case True
  with assms obtain k f where kf: "node_fields n = [(k, f)]"
    by (auto simp: wf_node_def wf_node_shape_def length_Suc_conv)
  define nm where "nm = (case node_srcName n of None \<Rightarrow> field_srcName f | Some s \<Rightarrow> Some s)"
  have "node_fields (canon_node n) = [(''field'', set_srcName nm f)]" and "node_srcName (canon_node n) = nm"
    using True kf by (simp_all add: canon_node_def nm_def Let_def)
  moreover have "set_srcName (case nm of None \<Rightarrow> field_srcName (set_srcName nm f) | Some s \<Rightarrow> Some s) (set_srcName nm f) = set_srcName nm f"
    by (cases f; cases nm) (simp_all add: set_srcName_def)
  ultimately show ?thesis
    using dumpNode_singleton [of "canon_node n" "''field''"] dumpNode_singleton [OF True kf, folded nm_def] True
    by simp
qed (simp add: canon_node_def)

lemma link_target_canon: "link_target (obj_map canon_node nds) l = link_target nds l"
  by (auto simp: link_target_def map_of_obj_map split: option.splits)

lemma wf_refs_canon:
  assumes "wf_schema s"
  shows "wf_refs (canon s)"
proof -
  have cls: "field_classes (node_fields (canon_node n)) = field_classes (node_fields n)" if "(k, n) \<in> set (nodes s)" for k n
    using assms that by (intro canon_node_classes) (auto simp: wf_schema_def)
  have refs: "wf_refs s" using assms by (simp add: wf_schema_def)
  have ball: "(\<forall>(k, m) \<in> set (obj_map canon_node (nodes s)). P m) \<longleftrightarrow> (\<forall>(k, n) \<in> set (nodes s). P (canon_node n))" for P
    by (simp add: obj_map_def case_prod_beta)
  have bex: "(\<exists>(k, m) \<in> set (obj_map canon_node (nodes s)). P m) \<longleftrightarrow> (\<exists>(k, n) \<in> set (nodes s). P (canon_node n))" for P
    by (simp add: obj_map_def case_prod_beta)
  have "nodes (canon s) \<noteq> []" using refs by (simp add: canon_def wf_refs_def obj_map_def)
  moreover have "\<forall>c \<in> set (keys (categoryClasses s)). \<exists>(k, n) \<in> set (nodes s). c \<in> set (field_classes (node_fields (canon_node n)))"
  proof
    fix c assume "c \<in> set (keys (categoryClasses s))"
    with refs obtain k n where "(k, n) \<in> set (nodes s)" and "c \<in> set (field_classes (node_fields n))"
      by (rule wf_refs_class_used)
    then show "\<exists>(k, n) \<in> set (nodes s). c \<in> set (field_classes (node_fields (canon_node n)))"
      using cls by (intro bexI [of _ "(k, n)"]) auto
  qed
  moreover have "\<forall>(k, n) \<in> set (nodes s). \<forall>c \<in> set (field_classes (node_fields (canon_node n))). obj_in c (categoryClasses s)"
    using cls wf_refs_class_declared [OF refs] by auto
  ultimately show ?thesis
    using refs unfolding wf_refs_def canon_def
    by (simp add: ball bex link_target_canon)
qed

text \<open>The written form of a schema, given that of its nodes.\<close>

definition schema_json :: "schema \<Rightarrow> jsval" where
  "schema_json s = JObj
     ([(''ref-constraints'', JObj [(''cyclic'', JBool (cyclic s)), (''undirected'', JBool (undirected s)), (''fan-in'', JBool (fanin s))]),
       (''nodes'', JObj (obj_map node_json (nodes s)))] @
      (if categoryClasses s \<noteq> [] then [(''classes'', JObj (obj_map dumpClass (categoryClasses s)))] else []) @
      (if srcDims s \<noteq> JNull then [(''src-dims'', srcDims s)] else []))"

lemma dump_wf:
  assumes "\<And>k n. (k, n) \<in> set (nodes s) \<Longrightarrow> \<exists>v. dumpNode n = Inr v"
  shows "dump s = Inr (schema_json s)"
proof -
  have "obj_mapE (\<lambda>k n. dumpNode n) (nodes s) = Inr (obj_map node_json (nodes s))"
    using assms by (intro obj_mapE_total) (force simp: node_json_def)
  then show ?thesis by (simp add: dump_def schema_json_def Let_def obj_eval)
qed

lemma wf_node_dumps: "wf_node n \<Longrightarrow> \<exists>v. dumpNode n = Inr v"
  using loadNode_singleton loadNode_regular by blast

lemma schema_json_canon:
  assumes "wf_schema s"
  shows "schema_json (canon s) = schema_json s"
proof -
  have "node_json (canon_node n) = node_json n" if "(k, n) \<in> set (nodes s)" for k n
    using assms that dumpNode_canon [of n] by (auto simp: wf_schema_def node_json_def)
  then have "obj_map node_json (obj_map canon_node (nodes s)) = obj_map node_json (nodes s)"
    by (auto simp: obj_map_def)
  then show ?thesis by (simp add: schema_json_def canon_def)
qed

lemma load_schema_json:
  assumes "wf_schema s"
  shows "load (schema_json s) = Inr (canon s)"
proof -
  have "obj_mapE (\<lambda>k x. with_path (''nodes.'' @ k) (loadNode x)) (obj_map node_json (nodes s)) = Inr (obj_map canon_node (nodes s))"
    using assms by (intro node_codec.load_dump_object) (auto simp: wf_schema_def)
  moreover have "obj_mapE (\<lambda>k x. with_path (''classes.'' @ k) (loadClass x)) (obj_map dumpClass (categoryClasses s)) =
      Inr (obj_map (\<lambda>c. c) (categoryClasses s))"
    using assms by (intro class_codec.load_dump_object) (auto simp: wf_schema_def)
  moreover have "new_Schema (Dict (obj_map canon_node (nodes s))) (Dict (categoryClasses s)) (JBool (cyclic s))
      (JBool (undirected s)) (JBool (fanin s)) (srcDims s) = Inr (canon s)"
    using wf_refs_canon [OF assms] by (simp add: new_Schema_iff) (simp add: canon_def)
  ultimately show ?thesis
    by (auto simp: load_def load_flags_def schema_json_def load_entries_def is_object_def js_entries_def obj_mapE_def)
qed

subsection \<open>Properties of reading and writing\<close>

text \<open>C1: whatever JSON value \<^verbatim>\<open>load\<close> accepts, the schema it returns is well formed: all names
  match \<^verbatim>\<open>NAME_FORMAT\<close>, every tensor has at least one dimension, at most one wildcard and
  cannot have zero dimensions, link bounds are ordered, singletons have one field and no links,
  links point to non-singleton nodes, every category's class is declared and every declared
  class is used, and an undirected schema without fan-in has finite links with at most two per
  node.\<close>

theorem load_well_formed:
  assumes "load v = Inr s"
  shows "wf_schema s"
  using assms by (rule load_wf)

theorem load_well_formed_witness:
  "\<exists>s. load (JObj [(''nodes'', JObj [(''x'', JObj [(''singleton'', JBool True), (''type'', JStr ''tensor''),
        (''dim'', JArr [JInt 3, JStr ''a+''])])])]) = Inr s \<and> wf_schema s"
proof -
  let ?v = "JObj [(''nodes'', JObj [(''x'', JObj [(''singleton'', JBool True), (''type'', JStr ''tensor''),
        (''dim'', JArr [JInt 3, JStr ''a+''])])])]"
  let ?s = "\<lparr>nodes = [(''x'', \<lparr>isSingleton = True, node_fields = [(''field'', Tensor None [DInt 3, DStr ''a+''] JNull)],
      node_links = [], node_srcName = None\<rparr>)], categoryClasses = [], cyclic = False, undirected = False,
      fanin = False, srcDims = JNull\<rparr>"
  have "load ?v = Inr ?s" by code_simp
  then show ?thesis using load_well_formed by blast
qed

text \<open>C2: a well-formed schema can be written, and reading the written form back succeeds and
  gives its canonical form, which writes to the same text: nothing but the name of a
  singleton's field and the distinction between the two source names of a singleton is lost,
  and a second round loses nothing.\<close>

theorem load_dump_roundtrip:
  assumes "wf_schema s"
  shows "\<exists>v. dump s = Inr v \<and> load v = Inr (canon s) \<and> dump (canon s) = Inr v"
proof -
  have "dump s = Inr (schema_json s)"
    using assms by (intro dump_wf wf_node_dumps) (auto simp: wf_schema_def)
  moreover have l: "load (schema_json s) = Inr (canon s)" using assms by (rule load_schema_json)
  moreover have "dump (canon s) = Inr (schema_json (canon s))"
    using load_wf [OF l] by (intro dump_wf wf_node_dumps) (auto simp: wf_schema_def)
  ultimately show ?thesis using schema_json_canon [OF assms] by auto
qed

theorem load_dump_roundtrip_witness:
  "let s = \<lparr>nodes = [(''x'', \<lparr>isSingleton = True, node_fields = [(''f'', Category (Some ''g'') ''c'')],
        node_links = [], node_srcName = None\<rparr>)], categoryClasses = [(''c'', \<lparr>class_dim = DInt 2, class_srcName = None\<rparr>)],
        cyclic = False, undirected = False, fanin = False, srcDims = JNull\<rparr>
   in \<exists>v. dump s = Inr v \<and> load v = Inr (canon s) \<and> dump (canon s) = Inr v"
  unfolding Let_def by (rule load_dump_roundtrip) code_simp

end
