(* ===== verification/Permutation.thy ===== *)
theory Permutation
  imports Js_Base
begin

text \<open>
  The permutation iterator of \<^verbatim>\<open>src/util/iterative-permutation.js\<close>: Heap's algorithm with the
  recursion turned into an explicit stack of \<^verbatim>\<open>{n, index}\<close> entries. The record \<open>permutation\<close>
  is the iterator object; its stack is kept top first, where the source pushes and pops at the
  end of an array.

  The lemmas relate the iterator to the recursive form of the algorithm (\<open>heap\<close>), whose net
  effect on the array is the identity for an odd and a rotation for an even number of
  elements, and conclude that the iterator yields every arrangement of the array exactly
  once, in \<open>n!\<close> calls. The interface its clients rely on is the locale \<open>enumerator\<close>.
\<close>

subsection \<open>The iterator\<close>

record 'a permutation =
  maxIterations :: nat
  iterations :: nat
  px :: "'a list"
  pn :: nat
  stack :: "(nat \<times> nat) list"

function factorial_loop :: "nat \<Rightarrow> nat \<Rightarrow> nat" where
  "factorial_loop num result =
     (if 1 < num then factorial_loop (num - 1) (result * (num - 1)) else result)"
  by pat_completeness auto
termination
  by (relation "measure (\<lambda>(num, result). num)") auto

declare factorial_loop.simps [simp del]

definition factorial :: "nat \<Rightarrow> nat" where
  "factorial num = factorial_loop num num"

definition new_Permutation :: "'a list \<Rightarrow> 'a permutation" where
  "new_Permutation x =
     \<lparr>maxIterations = factorial (length x), iterations = 0, px = x, pn = length x,
      stack = map (\<lambda>i. (i, 0)) [1..<length x + 1]\<rparr>"

definition swap :: "nat \<Rightarrow> nat \<Rightarrow> 'a list \<Rightarrow> 'a list" where
  "swap i j x = x[i := x ! j, j := x ! i]"

text \<open>The exchange made when the entry \<open>(n, index)\<close> is taken from the stack.\<close>

definition heap_swap :: "nat \<Rightarrow> nat \<Rightarrow> 'a list \<Rightarrow> 'a list" where
  "heap_swap n index x = (if n mod 2 = 0 then swap index (n - 1) x else swap 0 (n - 1) x)"

function doNext_loop ::
  "'a list \<Rightarrow> bool \<Rightarrow> nat \<times> nat \<Rightarrow> (nat \<times> nat) list \<Rightarrow> ('a list \<times> (nat \<times> nat) list) res" where
  "doNext_loop x skipSwap (n, index) st =
     (if n = 1 then Inr (x, st)
      else
        let x' = (if skipSwap then x else heap_swap n index x);
            index' = (if skipSwap then index else index + 1)
        in if index' < n then doNext_loop x' True (n - 1, 0) ((n, index') # st)
           else case st of [] \<Rightarrow> Inl TypeError | s # st' \<Rightarrow> doNext_loop x' skipSwap s st')"
  by pat_completeness auto
termination
  by (relation "measures
       [\<lambda>(x, skip, (n, i), st). if skip \<and> i < n then 0 else 1,
        \<lambda>(x, skip, (n, i), st). if skip \<and> i < n then n else length st]")
     (auto split: if_splits)

declare doNext_loop.simps [simp del]

definition doNext :: "'a permutation \<Rightarrow> ('a list \<times> 'a permutation) res" where
  "doNext p =
     (case stack p of
        [] \<Rightarrow> Inl TypeError
      | s # st \<Rightarrow> bindE (doNext_loop (px p) False s st) (\<lambda>(x, st'). Inr (x, p\<lparr>px := x, stack := st'\<rparr>)))"

definition next_perm :: "'a permutation \<Rightarrow> ('a list \<times> 'a permutation) res" where
  "next_perm p = doNext (p\<lparr>iterations := iterations p + 1\<rparr>)"

definition hasNext :: "'a permutation \<Rightarrow> bool" where
  "hasNext p = (iterations p < maxIterations p)"

definition getTotal :: "'a permutation \<Rightarrow> nat" where
  "getTotal p = maxIterations p"

text \<open>The arrays \<^verbatim>\<open>next()\<close> returns while \<^verbatim>\<open>hasNext()\<close> holds: the sequence every client loops
  over. The bound is the number of calls that \<^verbatim>\<open>hasNext\<close> still allows.\<close>

primrec perms_loop :: "nat \<Rightarrow> 'a permutation \<Rightarrow> 'a list list res" where
  "perms_loop 0 p = Inr []"
| "perms_loop (Suc k) p =
     (if hasNext p then bindE (next_perm p) (\<lambda>(x, p'). bindE (perms_loop k p') (\<lambda>xs. Inr (x # xs)))
      else Inr [])"

definition perm_list :: "'a list \<Rightarrow> 'a list list res" where
  "perm_list x = (let p = new_Permutation x in perms_loop (getTotal p) p)"

text \<open>The iterator after \<open>k\<close> calls of \<^verbatim>\<open>next()\<close>, whatever \<^verbatim>\<open>hasNext()\<close> says.\<close>

primrec advance :: "nat \<Rightarrow> 'a permutation \<Rightarrow> 'a permutation res" where
  "advance 0 p = Inr p"
| "advance (Suc k) p = bindE (next_perm p) (\<lambda>(x, p'). advance k p')"

subsection \<open>The recursive form of the algorithm\<close>

text \<open>\<open>run h n is x\<close>: for each index of \<open>is\<close>, the arrays \<open>h\<close> yields, then the exchange of
  level \<open>n\<close>. Both return the arrays yielded and the array they leave.\<close>

fun run :: "('a list \<Rightarrow> 'a list list \<times> 'a list) \<Rightarrow> nat \<Rightarrow> nat list \<Rightarrow> 'a list \<Rightarrow> 'a list list \<times> 'a list" where
  "run h n [] x = ([], x)"
| "run h n (i # is) x =
     (let (ys, x1) = h x; (zs, x2) = run h n is (heap_swap n i x1) in (ys @ zs, x2))"

primrec heap :: "nat \<Rightarrow> 'a list \<Rightarrow> 'a list list \<times> 'a list" where
  "heap 0 x = ([], x)"
| "heap (Suc n) x = (if n = 0 then ([x], x) else run (heap n) (Suc n) [0..<Suc n] x)"

text \<open>What a stack of suspended entries still has to yield.\<close>

fun pending :: "(nat \<times> nat) list \<Rightarrow> 'a list \<Rightarrow> 'a list list \<times> 'a list" where
  "pending [] x = ([], x)"
| "pending ((n, i) # st) x =
     (let (ys, x1) = run (heap (n - 1)) n [Suc i..<n] (heap_swap n i x); (zs, x2) = pending st x1
      in (ys @ zs, x2))"

definition fresh :: "nat \<Rightarrow> (nat \<times> nat) list" where
  "fresh n = map (\<lambda>k. (k, 0)) [2..<Suc n]"

definition suspended :: "(nat \<times> nat) list \<Rightarrow> bool" where
  "suspended st = (\<forall>(n, i) \<in> set st. 2 \<le> n \<and> i < n)"

text \<open>The interface of the iterator: the arrays it yields are the arrangements of its argument,
  and an empty argument yields none.\<close>

locale enumerator =
  fixes perms :: "'a list \<Rightarrow> 'a list list res"
  assumes perms_Nil: "perms [] = Inr []"
    and perms_all: "xs \<noteq> [] \<Longrightarrow> \<exists>ps. perms xs = Inr ps \<and> set ps = {ys. mset ys = mset xs}"
begin

lemma perms_mem:
  assumes "perms xs = Inr ps" and "ys \<in> set ps"
  shows "mset ys = mset xs"
  using assms perms_Nil perms_all [of xs] by (cases "xs = []") auto

lemma perms_length: "perms xs = Inr ps \<Longrightarrow> ys \<in> set ps \<Longrightarrow> length ys = length xs"
  using perms_mem mset_eq_length by blast

lemma perms_total: "\<exists>ps. perms xs = Inr ps"
  using perms_Nil perms_all by (cases "xs = []") auto

text \<open>A search over the candidates fails only if no arrangement succeeds.\<close>

lemma search_complete:
  assumes "bindE (perms xs) (search f) = Inr None" and "xs \<noteq> []" and "mset ys = mset xs"
  shows "f ys = Inr None"
  using assms perms_all [of xs] by (auto simp: search_None)

end

subsection \<open>Lemmas\<close>

lemma factorial_loop_fact: "1 \<le> num \<Longrightarrow> factorial_loop num result = result * fact (num - 1)"
proof (induction num result rule: factorial_loop.induct)
  case (1 num result)
  show ?case
  proof (cases "1 < num")
    case True
    then obtain k where k: "num = Suc (Suc k)" by (metis Suc_lessE One_nat_def less_imp_Suc_add add_Suc)
    have "factorial_loop num result = factorial_loop (num - 1) (result * (num - 1))"
      using True by (subst factorial_loop.simps) simp
    also have "\<dots> = result * (num - 1) * fact (num - 1 - 1)"
      using "1.IH" True by simp
    also have "\<dots> = result * fact (num - 1)"
      by (simp add: k algebra_simps)
    finally show ?thesis .
  next
    case False
    with "1.prems" have "num = 1" by simp
    then show ?thesis by (subst factorial_loop.simps) simp
  qed
qed

lemma factorial_0: "factorial 0 = 0"
  by (simp add: factorial_def factorial_loop.simps)

lemma factorial_fact: "1 \<le> n \<Longrightarrow> factorial n = fact n"
  by (cases n) (simp_all add: factorial_def factorial_loop_fact)

subsubsection \<open>The stack machine runs the recursive algorithm\<close>

lemma pending_append: "pending (st @ st') x =
    (let (ys, x1) = pending st x; (zs, x2) = pending st' x1 in (ys @ zs, x2))"
  by (induction st arbitrary: x) (auto simp: Let_def split: prod.splits)

lemma fresh_Suc: "1 \<le> n \<Longrightarrow> fresh (Suc n) = fresh n @ [(Suc n, 0)]"
  by (simp add: fresh_def)

lemma fresh_1 [simp]: "fresh (Suc 0) = []"
  by (simp add: fresh_def)

lemma heap_fresh: "1 \<le> n \<Longrightarrow> heap n x = (let (ys, x1) = pending (fresh n) x in (x # ys, x1))"
proof (induction n arbitrary: x)
  case 0
  then show ?case by simp
next
  case (Suc n)
  show ?case
  proof (cases "n = 0")
    case True
    then show ?thesis by simp
  next
    case False
    have "heap (Suc n) x = run (heap n) (Suc n) (0 # [Suc 0..<Suc n]) x"
      using False by (simp add: upt_conv_Cons del: upt_Suc)
    with False show ?thesis
      by (auto simp: fresh_Suc pending_append Suc.IH Let_def simp del: upt_Suc split: prod.splits)
  qed
qed

lemma doNext_loop_descend:
  "1 \<le> n \<Longrightarrow> doNext_loop x True (n, 0) st = Inr (x, fresh n @ st)"
proof (induction n arbitrary: st)
  case 0
  then show ?case by simp
next
  case (Suc n)
  show ?case
  proof (cases "n = 0")
    case True
    then show ?thesis by (simp add: doNext_loop.simps)
  next
    case False
    then have "doNext_loop x True (Suc n, 0) st = doNext_loop x True (n, 0) ((Suc n, 0) # st)"
      by (subst doNext_loop.simps) simp
    with False show ?thesis by (simp add: Suc.IH fresh_Suc)
  qed
qed

text \<open>One step of the iterator yields the first pending array and leaves a stack with the
  others; with nothing pending it pops an empty stack.\<close>

lemma pending_Cons_step:
  assumes "2 \<le> n" and "Suc i < n"
  shows "fst (pending ((n, i) # st) x) =
    heap_swap n i x # fst (pending (fresh (n - 1) @ (n, Suc i) # st) (heap_swap n i x))"
proof -
  have "[Suc i..<n] = Suc i # [Suc (Suc i)..<n]" using assms by (simp add: upt_conv_Cons)
  moreover have "1 \<le> n - 1" using assms by simp
  ultimately show ?thesis
    by (auto simp: heap_fresh pending_append Let_def split: prod.splits)
qed

definition yields :: "('a list \<times> (nat \<times> nat) list) res \<Rightarrow> 'a list list \<Rightarrow> bool" where
  "yields r outs =
     (case outs of
        [] \<Rightarrow> r = Inl TypeError
      | y # ys \<Rightarrow> \<exists>st'. r = Inr (y, st') \<and> suspended st' \<and> fst (pending st' y) = ys)"

lemma doNext_loop_push:
  assumes "suspended ((n, i) # st)" and "Suc i < n"
  shows "yields (doNext_loop x False (n, i) st) (fst (pending ((n, i) # st) x))"
proof -
  let ?x = "heap_swap n i x"
  have n: "2 \<le> n" using assms(1) by (auto simp: suspended_def)
  have "doNext_loop x False (n, i) st = doNext_loop ?x True (n - 1, 0) ((n, Suc i) # st)"
    using n assms(2) by (subst doNext_loop.simps) (simp add: Let_def)
  then have "doNext_loop x False (n, i) st = Inr (?x, fresh (n - 1) @ (n, Suc i) # st)"
    using n doNext_loop_descend [of "n - 1" ?x "(n, Suc i) # st"] by simp
  moreover have "suspended (fresh (n - 1) @ (n, Suc i) # st)"
    using assms n by (auto simp: suspended_def fresh_def)
  ultimately show ?thesis
    by (simp only: pending_Cons_step [OF n assms(2)]) (simp add: yields_def)
qed

lemma doNext_loop_pending:
  "suspended ((n, i) # st) \<Longrightarrow> yields (doNext_loop x False (n, i) st) (fst (pending ((n, i) # st) x))"
proof (induction st arbitrary: n i x)
  case Nil
  show ?case
  proof (cases "Suc i < n")
    case True
    with Nil show ?thesis by (rule doNext_loop_push)
  next
    case False
    then have "doNext_loop x False (n, i) [] = Inl TypeError"
      using Nil by (subst doNext_loop.simps) (simp add: suspended_def Let_def)
    with False show ?thesis by (simp add: yields_def)
  qed
next
  case (Cons s st)
  obtain m j where s: "s = (m, j)" by (cases s)
  show ?case
  proof (cases "Suc i < n")
    case True
    with Cons.prems show ?thesis by (rule doNext_loop_push)
  next
    case False
    let ?x = "heap_swap n i x"
    have "doNext_loop x False (n, i) (s # st) = doNext_loop ?x False (m, j) st"
      using False Cons.prems by (subst doNext_loop.simps) (simp add: suspended_def Let_def s)
    moreover have "fst (pending ((n, i) # s # st) x) = fst (pending ((m, j) # st) ?x)"
      using False by (auto simp: s Let_def split: prod.splits)
    moreover have "suspended ((m, j) # st)"
      using Cons.prems by (auto simp: s suspended_def)
    ultimately show ?thesis using Cons.IH [of m j ?x] by (simp only: s)
  qed
qed

text \<open>The whole loop of a client: it collects the pending arrays, as many as the counter allows.\<close>

lemma perms_loop_pending:
  assumes "suspended (stack p)" and "maxIterations p - iterations p \<le> length (fst (pending (stack p) (px p)))"
    and "k = maxIterations p - iterations p"
  shows "perms_loop k p = Inr (take k (fst (pending (stack p) (px p))))"
  using assms
proof (induction k arbitrary: p)
  case 0
  then show ?case by simp
next
  case (Suc k)
  from Suc.prems obtain y ys where outs: "fst (pending (stack p) (px p)) = y # ys"
    by (cases "fst (pending (stack p) (px p))") auto
  then obtain n i st where st: "stack p = (n, i) # st"
    by (cases "stack p") auto
  from doNext_loop_pending [of n i st "px p"] Suc.prems(1) outs obtain st' where
    r: "doNext_loop (px p) False (n, i) st = Inr (y, st')" and st': "suspended st'"
    and ys: "fst (pending st' y) = ys"
    by (auto simp: st yields_def simp del: pending.simps)
  define p' where "p' = p\<lparr>iterations := iterations p + 1, px := y, stack := st'\<rparr>"
  have "next_perm p = Inr (y, p')"
    by (simp add: next_perm_def doNext_def st r p'_def)
  moreover have "hasNext p" using Suc.prems(3) by (simp add: hasNext_def)
  moreover have "perms_loop k p' = Inr (take k ys)"
  proof -
    have "k = maxIterations p - Suc (iterations p)" using Suc.prems(3) by arith
    then have k: "k = maxIterations p' - iterations p'" by (simp add: p'_def)
    moreover have "maxIterations p' - iterations p' \<le> length ys"
      using Suc.prems(2) k outs by (simp add: p'_def)
    ultimately show ?thesis
      using Suc.IH [of p'] st' ys by (simp add: p'_def)
  qed
  ultimately show ?case by (simp add: outs)
qed

lemma first_next:
  assumes "x \<noteq> []"
  shows "next_perm (new_Permutation x) =
    Inr (x, (new_Permutation x)\<lparr>iterations := 1, stack := fresh (length x)\<rparr>)"
proof -
  have "1 < Suc (length x)" using assms by (cases x) auto
  then have "[1..<length x + 1] = 1 # [2..<Suc (length x)]"
    using upt_conv_Cons [of 1 "Suc (length x)"] by (simp add: numeral_2_eq_2 del: upt_Suc)
  then have "stack (new_Permutation x) = (1, 0) # fresh (length x)"
    by (simp add: new_Permutation_def fresh_def del: upt_Suc)
  then show ?thesis
    by (simp add: next_perm_def doNext_def doNext_loop.simps new_Permutation_def)
qed

lemma perm_list_heap:
  assumes "x \<noteq> []" and "length (fst (heap (length x) x)) = fact (length x)"
  shows "perm_list x = Inr (fst (heap (length x) x))"
proof -
  define n where "n = length x"
  have n: "1 \<le> n" using assms by (cases x) (simp_all add: n_def)
  have heap: "fst (heap n x) = x # fst (pending (fresh n) x)"
    using heap_fresh [OF n, of x] by (simp add: Let_def split: prod.splits)
  let ?p = "new_Permutation x"
  obtain k where k: "fact n = Suc k" by (metis fact_nonzero not0_implies_Suc)
  have max: "maxIterations ?p = Suc k"
    using n by (simp add: new_Permutation_def n_def [symmetric] factorial_fact k)
  have next_p: "next_perm ?p = Inr (x, ?p\<lparr>iterations := 1, stack := fresh n\<rparr>)"
    using first_next [OF assms(1)] by (simp add: n_def)
  define p1 where "p1 = ?p\<lparr>iterations := 1, stack := fresh n\<rparr>"
  have len: "length (fst (pending (fresh n) x)) = k"
    using assms(2) heap k by (simp add: n_def)
  have "perms_loop k p1 = Inr (take k (fst (pending (fresh n) x)))"
  proof -
    have "suspended (stack p1)" by (auto simp: p1_def suspended_def fresh_def)
    moreover have "stack p1 = fresh n" and "px p1 = x" by (simp_all add: p1_def new_Permutation_def)
    moreover have "k = maxIterations p1 - iterations p1" using max by (simp add: p1_def)
    ultimately show ?thesis using perms_loop_pending [of p1 k] len by simp
  qed
  then have "perms_loop (Suc k) ?p = Inr (fst (heap n x))"
    using next_p max by (simp add: hasNext_def p1_def heap len new_Permutation_def)
  then show ?thesis using max by (simp add: perm_list_def getTotal_def n_def)
qed

subsubsection \<open>The arrays at the start of each round\<close>

primrec rounds :: "('a list \<Rightarrow> 'b \<times> 'a list) \<Rightarrow> nat \<Rightarrow> 'a list \<Rightarrow> nat \<Rightarrow> 'a list" where
  "rounds h n x 0 = x"
| "rounds h n x (Suc j) = heap_swap n j (snd (h (rounds h n x j)))"

lemma run_rounds:
  "a \<le> b \<Longrightarrow> run h n [a..<b] (rounds h n x a) =
     (concat (map (\<lambda>j. fst (h (rounds h n x j))) [a..<b]), rounds h n x b)"
proof (induction "b - a" arbitrary: a)
  case 0
  then show ?case by simp
next
  case (Suc d)
  then have "[a..<b] = a # [Suc a..<b]" by (simp add: upt_conv_Cons)
  moreover have "run h n [Suc a..<b] (rounds h n x (Suc a)) =
      (concat (map (\<lambda>j. fst (h (rounds h n x j))) [Suc a..<b]), rounds h n x b)"
    using Suc by (intro Suc.hyps) auto
  ultimately show ?case by (auto simp: Let_def split: prod.splits)
qed

lemma heap_rounds:
  assumes "1 \<le> n"
  shows "heap (Suc n) x =
    (concat (map (\<lambda>j. fst (heap n (rounds (heap n) (Suc n) x j))) [0..<Suc n]), rounds (heap n) (Suc n) x (Suc n))"
  using assms run_rounds [of 0 "Suc n" "heap n" "Suc n" x] by simp

text \<open>One position to the right, the last element first.\<close>

definition rotr :: "'a list \<Rightarrow> 'a list" where
  "rotr p = last p # butlast p"

lemma length_rotr [simp]: "p \<noteq> [] \<Longrightarrow> length (rotr p) = length p"
  by (cases p) (simp_all add: rotr_def)

lemma rotr_snoc [simp]: "rotr (p @ [c]) = c # p"
  by (simp add: rotr_def)

lemma rotate1_rotr: "p \<noteq> [] \<Longrightarrow> rotate1 (rotr p) = p"
  by (simp add: rotr_def)

lemma rotr_pow_nonempty: "p \<noteq> [] \<Longrightarrow> (rotr ^^ j) p \<noteq> []"
  by (induction j) (auto simp: rotr_def)

lemma length_rotr_pow [simp]: "p \<noteq> [] \<Longrightarrow> length ((rotr ^^ j) p) = length p"
  by (induction j) (auto simp: rotr_pow_nonempty)

lemma mset_rotr: "p \<noteq> [] \<Longrightarrow> mset (rotr p) = mset p"
  by (cases p rule: rev_cases) auto

lemma mset_rotr_pow: "p \<noteq> [] \<Longrightarrow> mset ((rotr ^^ j) p) = mset p"
  by (induction j) (auto simp: mset_rotr rotr_pow_nonempty)

lemma rotate_rotr_pow: "p \<noteq> [] \<Longrightarrow> rotate j ((rotr ^^ j) p) = p"
proof (induction j)
  case 0
  then show ?case by simp
next
  case (Suc j)
  have "rotate (Suc j) ((rotr ^^ Suc j) p) = rotate j (rotate1 (rotr ((rotr ^^ j) p)))"
    by (simp add: rotate_def funpow_swap1)
  also have "\<dots> = p" using Suc by (simp add: rotate1_rotr rotr_pow_nonempty)
  finally show ?case .
qed

lemma rotr_pow_rotate:
  assumes "p \<noteq> []" and "j \<le> length p"
  shows "(rotr ^^ j) p = rotate (length p - j) p"
proof -
  have "rotate (length p - j) (rotate j ((rotr ^^ j) p)) = (rotr ^^ j) p"
    using assms by (simp add: rotate_rotate)
  then show ?thesis using assms by (simp add: rotate_rotr_pow)
qed

lemma swap_append:
  "swap (length as) (Suc (length as + length bs)) (as @ a # bs @ b # cs) = as @ b # bs @ a # cs"
  by (simp add: swap_def nth_append list_update_append)

lemma swap_same: "swap i i x = x"
  by (simp add: swap_def)

lemma split_two:
  assumes "Suc n < length x"
  shows "x = take n x @ x ! n # x ! Suc n # drop (Suc (Suc n)) x"
  using assms by (simp add: Cons_nth_drop_Suc)

text \<open>The effect of a level on the array: what each round starts from, for a level above one
  that rotates and for a level above one that leaves the array alone.\<close>

definition level_effect :: "nat \<Rightarrow> 'a list \<Rightarrow> 'a list" where
  "level_effect n x = (if odd n then x else rotr (take n x) @ drop n x)"

lemma round_rotates:
  assumes "even n" and "1 \<le> n" and "length p = Suc n"
  shows "heap_swap (Suc n) j (level_effect n (p @ r)) = rotr p @ r"
proof -
  obtain p' b where pb: "p = p' @ [b]" using assms(3) by (cases p rule: rev_cases) auto
  obtain as a where pa: "p' = as @ [a]" using assms(2,3) pb by (cases p' rule: rev_cases) auto
  have "n = Suc (length as)" using assms(3) pb pa by simp
  moreover from this have "odd (length as)" using assms(1) by simp
  ultimately show ?thesis
    using swap_append [of "[]" as a b r] assms(1)
    by (simp add: pb pa level_effect_def heap_swap_def odd_iff_mod_2_eq_one rotr_def butlast_append)
qed

lemma rounds_rotate:
  assumes h: "\<And>y. length y = length x \<Longrightarrow> snd (h y) = level_effect n y"
    and n: "even n" "1 \<le> n" "Suc n \<le> length x"
  shows "rounds h (Suc n) x j = (rotr ^^ j) (take (Suc n) x) @ drop (Suc n) x"
proof (induction j)
  case 0
  then show ?case by simp
next
  case (Suc j)
  let ?p = "(rotr ^^ j) (take (Suc n) x)"
  have len: "length ?p = Suc n" using n by (subst length_rotr_pow) auto
  have "snd (h (?p @ drop (Suc n) x)) = level_effect n (?p @ drop (Suc n) x)"
    using h len n by simp
  then show ?case using Suc round_rotates [OF n(1,2) len] by simp
qed

lemma rounds_shift:
  assumes h: "\<And>y. length y = length x \<Longrightarrow> snd (h y) = level_effect n y"
    and n: "odd n" "Suc n \<le> length x" and j: "j \<le> n"
  shows "rounds h (Suc n) x j =
    take j (x ! n # x) @ drop j (take n x) @ (x ! n # x) ! j # drop (Suc n) x"
  using j
proof (induction j)
  case 0
  then show ?case using n by (simp add: id_take_nth_drop [symmetric])
next
  case (Suc j)
  let ?y = "x ! n # x"
  let ?x = "take j ?y @ drop j (take n x) @ ?y ! j # drop (Suc n) x"
  have d: "drop j (take n x) = x ! j # drop (Suc j) (take n x)"
    using Suc.prems n by (subst Cons_nth_drop_Suc [symmetric]) auto
  have t: "take (Suc j) ?y = take j ?y @ [?y ! j]"
    using Suc.prems n by (intro take_Suc_conv_app_nth) simp
  have "length ?x = length x" using Suc.prems n by simp
  then have "rounds h (Suc n) x (Suc j) = heap_swap (Suc n) j ?x"
    using Suc h n(1) by (simp add: level_effect_def)
  also have "\<dots> = swap j n (take j ?y @ x ! j # drop (Suc j) (take n x) @ ?y ! j # drop (Suc n) x)"
    using n(1) by (simp add: heap_swap_def d)
  also have "\<dots> = take j ?y @ ?y ! j # drop (Suc j) (take n x) @ x ! j # drop (Suc n) x"
    using swap_append [of "take j ?y" "drop (Suc j) (take n x)" "x ! j" "?y ! j" "drop (Suc n) x"]
      Suc.prems n by simp
  finally show ?case using t by simp
qed

text \<open>Each round starts from an arrangement of the same prefix, every element of the prefix is
  last in it in some round, and the last round leaves the effect of the level.\<close>

lemma rounds_arrange:
  assumes h: "\<And>y. length y = length x \<Longrightarrow> snd (h y) = level_effect n y"
    and n: "1 \<le> n" "Suc n \<le> length x" and j: "j \<le> n"
  shows "\<exists>q. rounds h (Suc n) x j = q @ drop (Suc n) x \<and> mset q = mset (take (Suc n) x)"
proof (cases "even n")
  case True
  have "mset ((rotr ^^ j) (take (Suc n) x)) = mset (take (Suc n) x)"
    using n by (intro mset_rotr_pow) auto
  then show ?thesis using rounds_rotate [OF h True n] by blast
next
  case False
  let ?y = "x ! n # x"
  let ?q = "take j ?y @ drop j (take n x) @ [?y ! j]"
  have "mset (take j ?y) + {#?y ! j#} = mset (take (Suc j) ?y)"
    using n j by (subst take_Suc_conv_app_nth) auto
  then have "mset ?q = {#x ! n#} + (mset (take j x) + mset (drop j (take n x)))"
    by (simp add: ac_simps)
  also have "mset (take j x) + mset (drop j (take n x)) = mset (take n x)"
  proof -
    have "take j x = take j (take n x)" using j by (simp add: min_absorb1)
    then show ?thesis by (metis append_take_drop_id mset_append)
  qed
  also have "{#x ! n#} + mset (take n x) = mset (take (Suc n) x)"
    using n by (simp add: take_Suc_conv_app_nth)
  finally show ?thesis using rounds_shift [OF h False n(2) j] by auto
qed

lemma rounds_cover:
  assumes h: "\<And>y. length y = length x \<Longrightarrow> snd (h y) = level_effect n y"
    and n: "1 \<le> n" "Suc n \<le> length x" and c: "c \<in> set (take (Suc n) x)"
  shows "\<exists>j \<le> n. rounds h (Suc n) x j ! n = c"
proof -
  from c obtain q where q: "q \<le> n" "x ! q = c"
    using n by (auto simp: in_set_conv_nth less_Suc_eq_le)
  show ?thesis
  proof (cases "even n")
    case True
    let ?p = "take (Suc n) x"
    have "length ((rotr ^^ (n - q)) ?p) = Suc n"
      using n by (subst length_rotr_pow) auto
    then have "rounds h (Suc n) x (n - q) ! n = (rotr ^^ (n - q)) ?p ! n"
      using rounds_rotate [OF h True n] n by (simp add: nth_append)
    also have "\<dots> = rotate (Suc q) ?p ! n"
    proof -
      have "(rotr ^^ (n - q)) ?p = rotate (length ?p - (n - q)) ?p"
        using n by (intro rotr_pow_rotate) auto
      then show ?thesis using n q by (simp add: Suc_diff_le min_absorb2)
    qed
    also have "\<dots> = ?p ! ((Suc q + n) mod Suc n)"
      using n by (subst nth_rotate) (simp_all add: min_absorb2)
    also have "\<dots> = c"
    proof -
      have "Suc q + n = q + Suc n" by simp
      then have "(Suc q + n) mod Suc n = (q + Suc n) mod Suc n" by (rule arg_cong)
      also have "\<dots> = q" using q by (subst mod_add_self2) simp
      finally have "(Suc q + n) mod Suc n = q" .
      then show ?thesis using q by simp
    qed
    finally show ?thesis by (intro exI [of _ "n - q"]) simp
  next
    case False
    have *: "rounds h (Suc n) x j ! n = (x ! n # x) ! j" if "j \<le> n" for j
      using rounds_shift [OF h False n(2) that] n that by (simp add: nth_append)
    show ?thesis
    proof (cases "q = n")
      case True
      then show ?thesis using *[of 0] q by auto
    next
      case False
      then have "Suc q \<le> n" using q by simp
      moreover from this have "rounds h (Suc n) x (Suc q) ! n = c"
        using *[of "Suc q"] q by (simp del: rounds.simps)
      ultimately show ?thesis by blast
    qed
  qed
qed

lemma rounds_final:
  assumes h: "\<And>y. length y = length x \<Longrightarrow> snd (h y) = level_effect n y"
    and n: "1 \<le> n" "Suc n \<le> length x"
  shows "rounds h (Suc n) x (Suc n) = level_effect (Suc n) x"
proof (cases "even n")
  case True
  let ?p = "take (Suc n) x"
  have "(rotr ^^ length ?p) ?p = ?p"
    using n by (subst rotr_pow_rotate) auto
  moreover have "length ?p = Suc n" using n by simp
  ultimately show ?thesis
    using rounds_rotate [OF h True n, of "Suc n"] True by (simp add: level_effect_def)
next
  case False
  let ?y = "x ! n # x"
  let ?x = "take n ?y @ drop n (take n x) @ ?y ! n # drop (Suc n) x"
  have x: "rounds h (Suc n) x n = ?x" using rounds_shift [OF h False n(2) order_refl] .
  have "length ?x = length x" using n by simp
  then have "rounds h (Suc n) x (Suc n) = swap n n ?x"
    using False x h by (simp add: level_effect_def heap_swap_def odd_iff_mod_2_eq_one mod_Suc)
  also have "\<dots> = take (Suc n) ?y @ drop (Suc n) x"
  proof -
    have "take (Suc n) ?y = take n ?y @ [?y ! n]" using n by (intro take_Suc_conv_app_nth) simp
    then show ?thesis using n by (simp add: swap_same del: take_Suc_Cons)
  qed
  also have "take (Suc n) ?y = rotr (take (Suc n) x)"
    using n by (simp add: rotr_def take_Suc_conv_app_nth butlast_append)
  finally show ?thesis using False by (simp add: level_effect_def)
qed

lemma heap_effect: "1 \<le> n \<Longrightarrow> n \<le> length x \<Longrightarrow> snd (heap n x) = level_effect n x"
proof (induction n arbitrary: x)
  case 0
  then show ?case by simp
next
  case (Suc n)
  show ?case
  proof (cases "n = 0")
    case True
    then show ?thesis by (simp add: level_effect_def)
  next
    case False
    then have "snd (heap (Suc n) x) = rounds (heap n) (Suc n) x (Suc n)"
      by (subst heap_rounds) auto
    also have "\<dots> = level_effect (Suc n) x"
      using False Suc.prems by (intro rounds_final Suc.IH) auto
    finally show ?thesis .
  qed
qed

lemma heap_length: "1 \<le> n \<Longrightarrow> length (fst (heap n x)) = fact n"
proof (induction n arbitrary: x)
  case 0
  then show ?case by simp
next
  case (Suc n)
  show ?case
  proof (cases "n = 0")
    case True
    then show ?thesis by simp
  next
    case False
    then have "length (fst (heap (Suc n) x)) = (\<Sum>j\<leftarrow>[0..<Suc n]. fact n)"
      by (subst heap_rounds) (simp_all add: length_concat comp_def Suc.IH del: upt_Suc)
    then show ?thesis by (simp add: sum_list_triv del: upt_Suc)
  qed
qed

text \<open>The arrays of one round of level \<open>Suc n\<close> are the arrangements with the round's last
  element in place; over all rounds they are all arrangements of the prefix.\<close>

definition arrangements :: "nat \<Rightarrow> 'a list \<Rightarrow> 'a list set" where
  "arrangements n x = {p @ drop n x | p. mset p = mset (take n x)}"

lemma arrangements_split:
  assumes n: "1 \<le> n" "Suc n \<le> length x"
    and shape: "\<And>j. j \<le> n \<Longrightarrow> \<exists>q. X j = q @ drop (Suc n) x \<and> mset q = mset (take (Suc n) x)"
    and cover: "\<And>c. c \<in> set (take (Suc n) x) \<Longrightarrow> \<exists>j \<le> n. X j ! n = c"
  shows "(\<Union>j \<in> {0..<Suc n}. arrangements n (X j)) = arrangements (Suc n) x"
proof -
  have X: "drop n (X j) = X j ! n # drop (Suc n) x \<and>
      add_mset (X j ! n) (mset (take n (X j))) = mset (take (Suc n) x)" if "j \<le> n" for j
  proof -
    obtain q where q: "X j = q @ drop (Suc n) x" "mset q = mset (take (Suc n) x)"
      using shape \<open>j \<le> n\<close> by blast
    then have "length q = Suc n" using n by (metis length_take min_absorb2 mset_eq_length)
    then obtain p c where pc: "q = p @ [c]" "length p = n" by (cases q rule: rev_cases) auto
    then have "take n (X j) = p" and "drop n (X j) = c # drop (Suc n) x" and "X j ! n = c"
      using q(1) by (simp_all add: nth_append)
    with q pc show ?thesis by simp
  qed
  show ?thesis
  proof (intro equalityI subsetI)
    fix y assume "y \<in> (\<Union>j \<in> {0..<Suc n}. arrangements n (X j))"
    then obtain j p where "j < Suc n" and p: "y = p @ drop n (X j)" "mset p = mset (take n (X j))"
      unfolding arrangements_def by auto
    then have j: "j \<le> n" by simp
    have "y = (p @ [X j ! n]) @ drop (Suc n) x" and "mset (p @ [X j ! n]) = mset (take (Suc n) x)"
      using p X [OF j] by simp_all
    then show "y \<in> arrangements (Suc n) x" unfolding arrangements_def by blast
  next
    fix y assume "y \<in> arrangements (Suc n) x"
    then obtain q where q: "y = q @ drop (Suc n) x" "mset q = mset (take (Suc n) x)"
      unfolding arrangements_def by auto
    then have "length q = Suc n" using n by (metis length_take min_absorb2 mset_eq_length)
    then obtain p c where pc: "q = p @ [c]" by (cases q rule: rev_cases) auto
    then have "c \<in># mset (take (Suc n) x)" using q(2) by (metis in_multiset_in_set last_in_set last_snoc snoc_eq_iff_butlast)
    then obtain j where j: "j \<le> n" "X j ! n = c" using cover by auto
    have "add_mset c (mset p) = add_mset c (mset (take n (X j)))"
      using X [OF j(1)] q(2) pc j(2) by simp
    then have "mset p = mset (take n (X j))" by simp
    moreover have "y = p @ drop n (X j)"
      using X [OF j(1)] q(1) pc j(2) by simp
    ultimately show "y \<in> (\<Union>j \<in> {0..<Suc n}. arrangements n (X j))"
      using j(1) unfolding arrangements_def by (intro UN_I [of j]) auto
  qed
qed

lemma heap_set:
  "1 \<le> n \<Longrightarrow> n \<le> length x \<Longrightarrow> set (fst (heap n x)) = arrangements n x"
proof (induction n arbitrary: x)
  case 0
  then show ?case by simp
next
  case (Suc n)
  show ?case
  proof (cases "n = 0")
    case True
    with Suc.prems show ?thesis
      by (cases x) (auto simp: arrangements_def take_Suc)
  next
    case False
    let ?X = "rounds (heap n) (Suc n) x"
    have h: "\<And>y. length y = length x \<Longrightarrow> snd (heap n y) = level_effect n y"
      using False Suc.prems by (intro heap_effect) auto
    have n: "1 \<le> n" "Suc n \<le> length x" using False Suc.prems by auto
    have len: "length (?X j) = length x" if "j \<le> n" for j
      using rounds_arrange [OF h n that] n by (metis append_take_drop_id length_append mset_eq_length)
    have "set (fst (heap (Suc n) x)) = (\<Union>j \<in> {0..<Suc n}. set (fst (heap n (?X j))))"
      using n by (subst heap_rounds) (auto simp del: upt_Suc)
    also have "\<dots> = (\<Union>j \<in> {0..<Suc n}. arrangements n (?X j))"
      using n len Suc.IH by (intro SUP_cong) auto
    also have "\<dots> = arrangements (Suc n) x"
      using rounds_arrange [OF h n] rounds_cover [OF h n] by (intro arrangements_split n) auto
    finally show ?thesis .
  qed
qed

lemma perm_list_Nil [simp]: "perm_list [] = Inr []"
  by (simp add: perm_list_def getTotal_def new_Permutation_def factorial_0)

lemma perm_list_arrangements:
  assumes "x \<noteq> []"
  shows "perm_list x = Inr (fst (heap (length x) x)) \<and> set (fst (heap (length x) x)) = {ys. mset ys = mset x}
    \<and> length (fst (heap (length x) x)) = fact (length x)"
proof -
  have n: "1 \<le> length x" using assms by (cases x) auto
  have "set (fst (heap (length x) x)) = {ys. mset ys = mset x}"
    using heap_set [OF n order_refl] by (auto simp: arrangements_def)
  with heap_length [OF n, of x] perm_list_heap [OF assms] show ?thesis by simp
qed

interpretation heap_perms: enumerator perm_list
  by unfold_locales (use perm_list_arrangements in auto)

lemma distinct_concat_rounds:
  "(\<And>j. j < k \<Longrightarrow> distinct (f j)) \<Longrightarrow> (\<And>i j. i < j \<Longrightarrow> j < k \<Longrightarrow> set (f i) \<inter> set (f j) = {}) \<Longrightarrow>
   distinct (concat (map f [0..<k]))"
proof (induction k)
  case 0
  then show ?case by simp
next
  case (Suc k)
  have "distinct (concat (map f [0..<k]))" using Suc.prems by (intro Suc.IH) simp_all
  moreover have "set (concat (map f [0..<k])) \<inter> set (f k) = {}"
    using Suc.prems(2) [of _ k] by fastforce
  moreover have "distinct (f k)" using Suc.prems(1) by simp
  ultimately show ?case by simp
qed

lemma rounds_last_inj:
  assumes h: "\<And>y. length y = length x \<Longrightarrow> snd (h y) = level_effect n y"
    and n: "1 \<le> n" "Suc n \<le> length x" and "distinct x"
  shows "inj_on (\<lambda>j. rounds h (Suc n) x j ! n) {0..<Suc n}"
proof -
  let ?f = "\<lambda>j. rounds h (Suc n) x j ! n"
  have "set (take (Suc n) x) \<subseteq> ?f ` {0..<Suc n}"
  proof
    fix c assume "c \<in> set (take (Suc n) x)"
    then obtain j where "j \<le> n" "?f j = c" using rounds_cover [OF h n] by blast
    then show "c \<in> ?f ` {0..<Suc n}" by (intro image_eqI [of _ _ j]) auto
  qed
  then have "card (set (take (Suc n) x)) \<le> card (?f ` {0..<Suc n})"
    by (intro card_mono) auto
  then have "Suc n \<le> card (?f ` {0..<Suc n})"
    using \<open>distinct x\<close> n by (simp add: distinct_card)
  then show ?thesis
    using card_image_le [of "{0..<Suc n}" ?f] by (intro eq_card_imp_inj_on) auto
qed

lemma heap_distinct:
  "1 \<le> n \<Longrightarrow> n \<le> length x \<Longrightarrow> distinct x \<Longrightarrow> distinct (fst (heap n x))"
proof (induction n arbitrary: x)
  case 0
  then show ?case by simp
next
  case (Suc n)
  show ?case
  proof (cases "n = 0")
    case True
    then show ?thesis by simp
  next
    case False
    let ?X = "rounds (heap n) (Suc n) x"
    have h: "\<And>y. length y = length x \<Longrightarrow> snd (heap n y) = level_effect n y"
      using False Suc.prems by (intro heap_effect) auto
    have n: "1 \<le> n" "Suc n \<le> length x" using False Suc.prems by auto
    have X: "length (?X j) = length x \<and> mset (?X j) = mset x" if "j \<le> n" for j
    proof -
      obtain q where q: "?X j = q @ drop (Suc n) x" "mset q = mset (take (Suc n) x)"
        using rounds_arrange [OF h n \<open>j \<le> n\<close>] by blast
      then have "mset (?X j) = mset (take (Suc n) x @ drop (Suc n) x)" by (simp del: append_take_drop_id)
      then have "mset (?X j) = mset x" by simp
      then show ?thesis using mset_eq_length by blast
    qed
    have last_el: "y ! n = ?X j ! n" if "j \<le> n" and "y \<in> set (fst (heap n (?X j)))" for y j
    proof -
      have "y \<in> arrangements n (?X j)" using heap_set [of n "?X j"] X that n by auto
      then obtain p where "y = p @ drop n (?X j)" and "mset p = mset (take n (?X j))"
        by (auto simp: arrangements_def)
      moreover from this have "length p = n" using X [OF that(1)] n by (metis Suc_leD length_take min_absorb2 mset_eq_length)
      ultimately show ?thesis using X [OF that(1)] n by (simp add: nth_append)
    qed
    have "distinct (concat (map (\<lambda>j. fst (heap n (?X j))) [0..<Suc n]))"
    proof (rule distinct_concat_rounds)
      fix j assume "j < Suc n"
      then have Xj: "length (?X j) = length x" "mset (?X j) = mset x" using X [of j] by auto
      from mset_eq_imp_distinct_iff [OF Xj(2)] Suc.prems(3) have "distinct (?X j)" by blast
      then show "distinct (fst (heap n (?X j)))"
        using Xj(1) n by (intro Suc.IH) simp_all
    next
      fix i j assume ij: "i < j" "j < Suc n"
      have "?X i ! n \<noteq> ?X j ! n"
        using rounds_last_inj [OF h n Suc.prems(3)] ij by (auto dest: inj_onD)
      then show "set (fst (heap n (?X i))) \<inter> set (fst (heap n (?X j))) = {}"
        using last_el [of i] last_el [of j] ij by fastforce
    qed
    then show ?thesis by (subst heap_rounds [OF n(1)]) simp
  qed
qed

lemma next_perm_exhausted:
  assumes "suspended (stack p)" and "fst (pending (stack p) (px p)) = []"
  shows "next_perm p = Inl TypeError"
proof (cases "stack p")
  case Nil
  then show ?thesis by (simp add: next_perm_def doNext_def)
next
  case (Cons s st)
  obtain n i where s: "s = (n, i)" by (cases s)
  then have "doNext_loop (px p) False (n, i) st = Inl TypeError"
    using doNext_loop_pending [of n i st "px p"] assms Cons by (simp only: yields_def list.case)
  then show ?thesis by (simp add: next_perm_def doNext_def Cons s)
qed

lemma advance_pending:
  assumes "suspended (stack p)" and "length (fst (pending (stack p) (px p))) = k"
  shows "\<exists>p'. advance k p = Inr p' \<and> iterations p' = iterations p + k \<and>
    maxIterations p' = maxIterations p \<and> next_perm p' = Inl TypeError"
  using assms
proof (induction k arbitrary: p)
  case 0
  then show ?case using next_perm_exhausted by auto
next
  case (Suc k)
  then obtain y ys where outs: "fst (pending (stack p) (px p)) = y # ys" and ys: "length ys = k"
    by (cases "fst (pending (stack p) (px p))") auto
  then obtain n i st where st: "stack p = (n, i) # st" by (cases "stack p") auto
  from doNext_loop_pending [of n i st "px p"] Suc.prems(1) outs obtain st' where
    r: "doNext_loop (px p) False (n, i) st = Inr (y, st')" and st': "suspended st'"
    and ys': "fst (pending st' y) = ys"
    by (auto simp: st yields_def simp del: pending.simps)
  define p' where "p' = p\<lparr>iterations := iterations p + 1, px := y, stack := st'\<rparr>"
  have "next_perm p = Inr (y, p')"
    by (simp add: next_perm_def doNext_def st r p'_def)
  then show ?case using Suc.IH [of p'] st' ys ys' by (auto simp: p'_def)
qed

subsection \<open>Properties of the iterator\<close>



text \<open>After \<open>n!\<close> calls the stack is empty, \<^verbatim>\<open>hasNext()\<close> is false, and a further
  \<^verbatim>\<open>next()\<close> raises a \<^verbatim>\<open>TypeError\<close>: it does not start the sequence again.\<close>

theorem next_after_exhaustion:
  assumes "x \<noteq> []"
  shows "\<exists>p. advance (fact (length x)) (new_Permutation x) = Inr p \<and> \<not> hasNext p \<and> next_perm p = Inl TypeError"
proof -
  define n where "n = length x"
  have n: "1 \<le> n" using assms by (cases x) (simp_all add: n_def)
  obtain k where k: "fact n = Suc k" by (metis fact_nonzero not0_implies_Suc)
  have next_p: "next_perm (new_Permutation x) = Inr (x, (new_Permutation x)\<lparr>iterations := 1, stack := fresh n\<rparr>)"
    using first_next [OF assms] by (simp add: n_def)
  have "length (fst (pending (fresh n) x)) = k"
    using heap_length [OF n, of x] heap_fresh [OF n, of x] k by (auto simp: Let_def split: prod.splits)
  then have "\<exists>p'. advance k ((new_Permutation x)\<lparr>iterations := 1, stack := fresh n\<rparr>) = Inr p' \<and>
      iterations p' = 1 + k \<and> maxIterations p' = fact n \<and> next_perm p' = Inl TypeError"
    using advance_pending [of "(new_Permutation x)\<lparr>iterations := 1, stack := fresh n\<rparr>" k] n
    by (auto simp: new_Permutation_def n_def [symmetric] factorial_fact suspended_def fresh_def)
  then show ?thesis using next_p k by (auto simp: n_def [symmetric] hasNext_def)
qed

theorem next_after_exhaustion_witness:
  "\<exists>p. advance 2 (new_Permutation ''ab'') = Inr p \<and> \<not> hasNext p \<and> next_perm p = Inl TypeError"
proof -
  have "fact (length ''ab'') = (2 :: nat)" by (simp add: fact_numeral)
  then show ?thesis using next_after_exhaustion [of "''ab''"] by (simp only: list.distinct simp_thms)
qed

end
