(* ===== verification/Dim_Match.thy ===== *)
theory Dim_Match
  imports Schema_Types
begin

text \<open>
  Matching of dimension lists: \<^verbatim>\<open>matchDimList\<close> of \<^verbatim>\<open>src/schema.js\<close>, the backtracking search that
  decides whether the dimensions of a source tensor fit the dimension pattern of a
  destination, and which source dimension each named dimension of the destination stands for.

  The specification does not mention the search. A source list \<^emph>\<open>expands\<close> to the lists it stands
  for (each wildcard entry repeated an allowed number of times), a pattern \<^emph>\<open>accepts\<close> a list
  under an assignment of its names (each entry consumes an allowed number of equal dimensions),
  and a solution is an assignment under which the pattern accepts some expansion of the
  source (\<open>dim_sol\<close>). The lemmas show that \<^verbatim>\<open>matchDimList\<close> succeeds exactly when a solution
  extends the given map, and that the updates it returns are such a solution; this contract is
  the locale \<open>dim_matcher\<close>, which the field and node matchers rely on.
\<close>

subsection \<open>The search\<close>

text \<open>\<^verbatim>\<open>[dimA, modA] = [dimA.slice(0, -1), dimA.slice(-1)]\<close> when the last character is a wildcard\<close>

definition base_of :: "dim \<Rightarrow> dim" where
  "base_of d = (case d of DInt n \<Rightarrow> DInt n | DStr s \<Rightarrow> if ends_wild s then DStr (butlast s) else DStr s)"

definition mod_of :: "dim \<Rightarrow> char option" where
  "mod_of d = (case d of DInt n \<Rightarrow> None | DStr s \<Rightarrow> if ends_wild s then Some (last s) else None)"

text \<open>\<^verbatim>\<open>['?', '*'].indexOf(mod) >= 0\<close> and \<^verbatim>\<open>['+', '*'].indexOf(mod) >= 0\<close>\<close>

definition skips :: "char option \<Rightarrow> bool" where
  "skips m = (m = Some CHR ''?'' \<or> m = Some CHR ''*'')"

definition repeats :: "char option \<Rightarrow> bool" where
  "repeats m = (m = Some CHR ''+'' \<or> m = Some CHR ''*'')"

text \<open>Whether the two first dimensions can match: a name that is not yet in the map, or is mapped
  to the very dimension, or equal integers. A name that is only inherited is \<^verbatim>\<open>in\<close> the map
  and is mapped to no dimension.\<close>

definition head_match :: "dim \<Rightarrow> dim \<Rightarrow> dim obj \<Rightarrow> bool" where
  "head_match dimA dimB dimMap =
     (case dimA of
        DStr s \<Rightarrow> \<not> obj_in s dimMap \<or> map_of dimMap s = Some dimB
      | DInt n \<Rightarrow> DInt n = dimB)"

definition head_update :: "dim \<Rightarrow> dim \<Rightarrow> dim obj" where
  "head_update dimA dimB = (case dimA of DStr s \<Rightarrow> obj_put s dimB [] | DInt n \<Rightarrow> [])"

fun matchDimList :: "dim list \<Rightarrow> dim list \<Rightarrow> dim obj \<Rightarrow> bool \<times> dim obj" where
  "matchDimList [] [] dimMap = (True, [])"
| "matchDimList [] (b # bs) dimMap =
     (if skips (mod_of b) then matchDimList [] bs dimMap else (False, []))"
| "matchDimList (a # as) [] dimMap =
     (if skips (mod_of a) then matchDimList as [] dimMap else (False, []))"
| "matchDimList (a # as) (b # bs) dimMap =
     (let match = head_match (base_of a) (base_of b) dimMap;
          upd = head_update (base_of a) (base_of b);
          dimMap' = obj_assign dimMap upd
      in if match \<and> fst (matchDimList as bs dimMap') then
           (True, obj_assign (snd (matchDimList as bs dimMap')) upd)
         else if match \<and> repeats (mod_of b) \<and> fst (matchDimList as (b # bs) dimMap') then
           (True, obj_assign (snd (matchDimList as (b # bs) dimMap')) upd)
         else if skips (mod_of a) \<and> fst (matchDimList as (b # bs) dimMap) then
           (True, snd (matchDimList as (b # bs) dimMap))
         else if match \<and> repeats (mod_of a) \<and> fst (matchDimList (a # as) bs dimMap') then
           (True, obj_assign (snd (matchDimList (a # as) bs dimMap')) upd)
         else if skips (mod_of b) \<and> fst (matchDimList (a # as) bs dimMap) then
           (True, snd (matchDimList (a # as) bs dimMap))
         else (False, []))"

subsection \<open>Specification\<close>

definition copies :: "char option \<Rightarrow> nat \<Rightarrow> bool" where
  "copies m k = (k = 1 \<or> k = 0 \<and> skips m \<or> 1 < k \<and> repeats m)"

inductive expands :: "dim list \<Rightarrow> dim list \<Rightarrow> bool" where
  expands_Nil: "expands [] []"
| expands_Cons: "copies (mod_of b) k \<Longrightarrow> expands bs cs \<Longrightarrow> expands (b # bs) (replicate k (base_of b) @ cs)"

definition stands_for :: "(string \<rightharpoonup> dim) \<Rightarrow> dim \<Rightarrow> dim \<Rightarrow> bool" where
  "stands_for \<sigma> a c = (case a of DInt n \<Rightarrow> c = DInt n | DStr s \<Rightarrow> \<sigma> s = Some c)"

inductive accepts_list :: "(string \<rightharpoonup> dim) \<Rightarrow> dim list \<Rightarrow> dim list \<Rightarrow> bool" for \<sigma> where
  accepts_Nil: "accepts_list \<sigma> [] []"
| accepts_Cons: "copies (mod_of a) (length seg) \<Longrightarrow> (\<forall>c \<in> set seg. stands_for \<sigma> (base_of a) c) \<Longrightarrow>
    accepts_list \<sigma> as cs \<Longrightarrow> accepts_list \<sigma> (a # as) (seg @ cs)"

definition dim_sol :: "(string \<rightharpoonup> dim) \<Rightarrow> dim list \<Rightarrow> dim list \<Rightarrow> bool" where
  "dim_sol \<sigma> as bs = (\<exists>cs. expands bs cs \<and> accepts_list \<sigma> as cs)"

text \<open>The assignments that extend a map: they keep its bindings and bind no further inherited
  name.\<close>

definition dim_ext :: "(string \<rightharpoonup> 'v) \<Rightarrow> (string \<rightharpoonup> 'v) \<Rightarrow> bool" where
  "dim_ext m \<sigma> = (m \<subseteq>\<^sub>m \<sigma> \<and> (\<forall>x. inherited x \<longrightarrow> \<sigma> x = m x))"

inductive_cases expands_NilE: "expands [] cs"
inductive_cases expands_ConsE: "expands (b # bs) cs"
inductive_cases accepts_NilE: "accepts_list \<sigma> [] cs"
inductive_cases accepts_ConsE: "accepts_list \<sigma> (a # as) cs"

text \<open>The contract of a matcher of dimension lists.\<close>

locale dim_matcher =
  fixes mdl :: "dim list \<Rightarrow> dim list \<Rightarrow> dim obj \<Rightarrow> bool \<times> dim obj"
  assumes mdl_sound: "wf_obj m \<Longrightarrow> mdl as bs m = (True, u) \<Longrightarrow>
      wf_obj u \<and> dim_ext (map_of m) (map_of m ++ map_of u) \<and> dim_sol (map_of m ++ map_of u) as bs"
    and mdl_complete: "wf_obj m \<Longrightarrow> dim_ext (map_of m) \<sigma> \<Longrightarrow> dim_sol \<sigma> as bs \<Longrightarrow> fst (mdl as bs m)"
begin

lemma mdl_iff: "wf_obj m \<Longrightarrow> fst (mdl as bs m) \<longleftrightarrow> (\<exists>\<sigma>. dim_ext (map_of m) \<sigma> \<and> dim_sol \<sigma> as bs)"
  using mdl_sound mdl_complete by (metis prod.collapse)

end

subsection \<open>Lemmas\<close>

lemma dim_ext_refl [simp]: "dim_ext m m"
  by (simp add: dim_ext_def)

lemma dim_ext_trans: "dim_ext a b \<Longrightarrow> dim_ext b c \<Longrightarrow> dim_ext a c"
  by (auto simp: dim_ext_def intro: map_le_trans)

lemma stands_for_mono: "\<sigma> \<subseteq>\<^sub>m \<tau> \<Longrightarrow> stands_for \<sigma> a c \<Longrightarrow> stands_for \<tau> a c"
  by (auto simp: stands_for_def map_le_def dom_def split: dim.splits)

lemma accepts_list_mono: "accepts_list \<sigma> as cs \<Longrightarrow> \<sigma> \<subseteq>\<^sub>m \<tau> \<Longrightarrow> accepts_list \<tau> as cs"
  by (induction rule: accepts_list.induct) (auto intro!: accepts_list.intros dest: stands_for_mono)

lemma dim_sol_mono: "dim_sol \<sigma> as bs \<Longrightarrow> \<sigma> \<subseteq>\<^sub>m \<tau> \<Longrightarrow> dim_sol \<tau> as bs"
  by (auto simp: dim_sol_def intro: accepts_list_mono)

lemma copies_1 [simp]: "copies m (Suc 0)"
  by (simp add: copies_def)

lemma copies_0 [simp]: "copies m 0 = skips m"
  by (simp add: copies_def)

lemma copies_Suc: "repeats m \<Longrightarrow> copies m (Suc k)"
  by (auto simp: copies_def)

lemma copies_Suc_Suc: "copies m (Suc (Suc k)) \<Longrightarrow> repeats m \<and> copies m (Suc k)"
  by (auto simp: copies_def)

text \<open>The search without its order and its map: which alternative is taken at each pair of
  entries.\<close>

inductive aligns :: "(string \<rightharpoonup> dim) \<Rightarrow> dim list \<Rightarrow> dim list \<Rightarrow> bool" for \<sigma> where
  al_Nil: "aligns \<sigma> [] []"
| al_one: "stands_for \<sigma> (base_of a) (base_of b) \<Longrightarrow> aligns \<sigma> as bs \<Longrightarrow> aligns \<sigma> (a # as) (b # bs)"
| al_moreB: "stands_for \<sigma> (base_of a) (base_of b) \<Longrightarrow> repeats (mod_of b) \<Longrightarrow> aligns \<sigma> as (b # bs) \<Longrightarrow> aligns \<sigma> (a # as) (b # bs)"
| al_moreA: "stands_for \<sigma> (base_of a) (base_of b) \<Longrightarrow> repeats (mod_of a) \<Longrightarrow> aligns \<sigma> (a # as) bs \<Longrightarrow> aligns \<sigma> (a # as) (b # bs)"
| al_skipA: "skips (mod_of a) \<Longrightarrow> aligns \<sigma> as bs \<Longrightarrow> aligns \<sigma> (a # as) bs"
| al_skipB: "skips (mod_of b) \<Longrightarrow> aligns \<sigma> as bs \<Longrightarrow> aligns \<sigma> as (b # bs)"

lemma expands_skip: "skips (mod_of b) \<Longrightarrow> expands bs cs \<Longrightarrow> expands (b # bs) cs"
  using expands_Cons [of b 0 bs cs] by simp

lemma expands_one: "expands bs cs \<Longrightarrow> expands (b # bs) (base_of b # cs)"
  using expands_Cons [of b "Suc 0" bs cs] by simp

lemma expands_more: "repeats (mod_of b) \<Longrightarrow> expands (b # bs) cs \<Longrightarrow> expands (b # bs) (base_of b # cs)"
proof (erule expands_ConsE)
  fix k cs' assume "repeats (mod_of b)" "cs = replicate k (base_of b) @ cs'" "expands bs cs'"
  then show ?thesis using expands_Cons [of b "Suc k" bs cs'] by (simp add: copies_Suc)
qed

lemma accepts_skip: "skips (mod_of a) \<Longrightarrow> accepts_list \<sigma> as cs \<Longrightarrow> accepts_list \<sigma> (a # as) cs"
  using accepts_Cons [of a "[]" \<sigma> as cs] by simp

lemma accepts_one: "stands_for \<sigma> (base_of a) c \<Longrightarrow> accepts_list \<sigma> as cs \<Longrightarrow> accepts_list \<sigma> (a # as) (c # cs)"
  using accepts_Cons [of a "[c]" \<sigma> as cs] by simp

lemma accepts_more:
  "repeats (mod_of a) \<Longrightarrow> stands_for \<sigma> (base_of a) c \<Longrightarrow> accepts_list \<sigma> (a # as) cs \<Longrightarrow> accepts_list \<sigma> (a # as) (c # cs)"
proof (erule accepts_ConsE)
  fix seg cs' assume "repeats (mod_of a)" "stands_for \<sigma> (base_of a) c" "cs = seg @ cs'"
    "\<forall>c \<in> set seg. stands_for \<sigma> (base_of a) c" "accepts_list \<sigma> as cs'"
  then show ?thesis using accepts_Cons [of a "c # seg" \<sigma> as cs'] by (simp add: copies_Suc)
qed

lemma aligns_dim_sol: "aligns \<sigma> as bs \<Longrightarrow> dim_sol \<sigma> as bs"
  unfolding dim_sol_def
proof (induction rule: aligns.induct)
  case al_Nil
  then show ?case by (auto intro: expands_Nil accepts_Nil)
next
  case al_one
  then show ?case by (blast intro: expands_one accepts_one)
next
  case al_moreB
  then show ?case by (blast intro: expands_more accepts_one)
next
  case al_moreA
  then show ?case by (blast intro: expands_one accepts_more)
next
  case al_skipA
  then show ?case by (blast intro: accepts_skip)
next
  case al_skipB
  then show ?case by (blast intro: expands_skip)
qed

lemma dim_sol_aligns:
  assumes "expands bs cs" and "accepts_list \<sigma> as cs"
  shows "aligns \<sigma> as bs"
  using assms
proof (induction "length as + length bs + length cs" arbitrary: as bs cs rule: less_induct)
  case less
  note IH = less.hyps
  show ?case
  proof (cases bs)
    case Nil
    with less.prems(1) have cs: "cs = []" by (auto elim: expands_NilE)
    show ?thesis
    proof (cases as)
      case Nil
      then show ?thesis by (simp add: \<open>bs = []\<close> al_Nil)
    next
      case (Cons a as')
      with less.prems(2) cs have "skips (mod_of a)" and "accepts_list \<sigma> as' []"
        by (auto elim!: accepts_ConsE)
      then show ?thesis using IH [of as' bs "[]"] less.prems(1) cs Cons by (auto intro: al_skipA)
    qed
  next
    case (Cons b bs')
    from less.prems(1) obtain k cs' where k: "copies (mod_of b) k" and cs: "cs = replicate k (base_of b) @ cs'"
      and e: "expands bs' cs'" unfolding Cons by (auto elim: expands_ConsE)
    show ?thesis
    proof (cases k)
      case 0
      then have "aligns \<sigma> as bs'" using IH [of as bs' cs'] e less.prems(2) cs Cons by simp
      then show ?thesis using k 0 by (simp add: Cons al_skipB)
    next
      case (Suc k')
      let ?c = "base_of b" and ?cs = "replicate k' (base_of b) @ cs'"
      have cs': "cs = ?c # ?cs" using cs Suc by simp
      show ?thesis
      proof (cases as)
        case Nil
        with less.prems(2) cs' show ?thesis by (auto elim: accepts_NilE)
      next
        case as: (Cons a as')
        from less.prems(2) obtain seg rest where i: "copies (mod_of a) (length seg)" and sg: "cs = seg @ rest"
          and st: "\<forall>c \<in> set seg. stands_for \<sigma> (base_of a) c" and acc: "accepts_list \<sigma> as' rest"
          unfolding as by (auto elim: accepts_ConsE)
        show ?thesis
        proof (cases seg)
          case Nil
          then have "aligns \<sigma> as' bs" using IH [of as' bs cs] less.prems(1) acc sg as by simp
          then show ?thesis using i Nil by (simp add: as al_skipA)
        next
          case seg: (Cons c seg')
          have "c = ?c" and tl: "?cs = seg' @ rest" using cs' sg seg by auto
          then have sf: "stands_for \<sigma> (base_of a) (base_of b)" using st seg by simp
          have accA: "accepts_list \<sigma> (a # as') ?cs \<and> repeats (mod_of a)" if "seg' = d # seg''" for d seg''
            using accepts_Cons [of a seg' \<sigma> as' rest] i st acc seg that tl copies_Suc_Suc by fastforce
          have expB: "expands (b # bs') ?cs \<and> repeats (mod_of b)" if "k' = Suc k''" for k''
            using expands_Cons [of b k' bs' cs'] k e Suc that copies_Suc_Suc by fastforce
          have exp1: "expands bs' ?cs" if "k' = 0" using e that by simp
          have acc1: "accepts_list \<sigma> as' ?cs" if "seg' = []" using acc that tl by simp
          show ?thesis
          proof (cases "k' = 0")
            case True
            show ?thesis
            proof (cases seg')
              case Nil
              then have "aligns \<sigma> as' bs'" using IH [of as' bs' ?cs] exp1 True acc1 as Cons cs' by simp
              then show ?thesis using sf by (simp add: as Cons al_one)
            next
              case (Cons d seg'')
              then have "aligns \<sigma> (a # as') bs'" using IH [of "a # as'" bs' ?cs] exp1 True accA as \<open>bs = b # bs'\<close> cs' by simp
              then show ?thesis using sf accA [OF Cons] by (simp add: as \<open>bs = b # bs'\<close> al_moreA)
            qed
          next
            case False
            then obtain k'' where k'': "k' = Suc k''" by (cases k') auto
            show ?thesis
            proof (cases seg')
              case Nil
              then have "aligns \<sigma> as' (b # bs')" using IH [of as' "b # bs'" ?cs] expB [OF k''] acc1 as Cons cs' by simp
              then show ?thesis using sf expB [OF k''] by (simp add: as Cons al_moreB)
            next
              case seg': (Cons d seg'')
              show ?thesis using IH [of "a # as'" "b # bs'" ?cs] expB [OF k''] accA [OF seg'] as Cons cs' by simp
            qed
          qed
        qed
      qed
    qed
  qed
qed

lemma dim_sol_iff_aligns: "dim_sol \<sigma> as bs \<longleftrightarrow> aligns \<sigma> as bs"
  using aligns_dim_sol dim_sol_aligns by (auto simp: dim_sol_def)

text \<open>The first entries under an assignment that extends the map.\<close>

lemma head_match_complete:
  assumes "dim_ext (map_of m) \<sigma>" and "stands_for \<sigma> a b"
  shows "head_match a b m \<and> dim_ext (map_of (obj_assign m (head_update a b))) \<sigma>"
proof (cases a)
  case (DInt n)
  with assms show ?thesis by (auto simp: head_match_def head_update_def stands_for_def)
next
  case (DStr s)
  with assms have s: "\<sigma> s = Some b" by (simp add: stands_for_def)
  have le: "map_of m \<subseteq>\<^sub>m \<sigma>" and inh: "\<And>x. inherited x \<Longrightarrow> \<sigma> x = map_of m x"
    using assms(1) by (auto simp: dim_ext_def)
  have "map_of m s = Some b \<or> \<not> obj_in s m"
  proof (cases "map_of m s")
    case None
    then show ?thesis using s inh [of s] by (auto simp: obj_in_def in_keys_iff)
  next
    case (Some c)
    then show ?thesis using le s by (force simp: map_le_def)
  qed
  moreover have "dim_ext ((map_of m)(s \<mapsto> b)) \<sigma>"
    using le inh s by (auto simp: dim_ext_def map_le_def)
  ultimately show ?thesis
    by (auto simp: DStr head_match_def head_update_def)
qed

lemma head_match_sound:
  assumes "head_match a b m"
  shows "stands_for (map_of (obj_assign m (head_update a b))) a b
    \<and> dim_ext (map_of m) (map_of (obj_assign m (head_update a b)))"
  using assms
  by (cases a) (auto simp: head_match_def head_update_def stands_for_def dim_ext_def map_le_def obj_in_def in_keys_iff)

lemma wf_head_update [simp]: "wf_obj (head_update a b)"
  by (cases a) (auto simp: head_update_def)

lemma matchDimList_complete:
  "aligns \<sigma> as bs \<Longrightarrow> dim_ext (map_of m) \<sigma> \<Longrightarrow> fst (matchDimList as bs m)"
proof (induction arbitrary: m rule: aligns.induct)
  case al_Nil
  then show ?case by simp
next
  case (al_one a b as bs)
  then show ?case using head_match_complete [OF al_one.prems al_one.hyps(1)] by (simp add: Let_def)
next
  case (al_moreB a b as bs)
  then show ?case using head_match_complete [OF al_moreB.prems al_moreB.hyps(1)] by (simp add: Let_def)
next
  case (al_moreA a b as bs)
  then show ?case using head_match_complete [OF al_moreA.prems al_moreA.hyps(1)] by (simp add: Let_def)
next
  case (al_skipA a as bs)
  then show ?case by (cases bs) (auto simp: Let_def)
next
  case (al_skipB b as bs)
  then show ?case by (cases as) (auto simp: Let_def)
qed

text \<open>The updates of a recursive call, made in the map that already holds the head's binding,
  and the head's own update are together an update of the outer map.\<close>

lemma updates_merge:
  assumes "wf_obj r" and "wf_obj p"
    and "map_of m ++ map_of p \<subseteq>\<^sub>m (map_of m ++ map_of p) ++ map_of r"
  shows "map_of m ++ map_of (obj_assign r p) = (map_of m ++ map_of p) ++ map_of r"
proof
  fix k
  have "map_of p k = Some v \<Longrightarrow> ((map_of m ++ map_of p) ++ map_of r) k = Some v" for v
    using assms(3) by (force simp: map_le_def map_add_def dom_def)
  then show "(map_of m ++ map_of (obj_assign r p)) k = ((map_of m ++ map_of p) ++ map_of r) k"
    using assms(2) by (cases "map_of p k") (auto simp: map_add_def split: option.split)
qed

definition mdl_post :: "dim list \<Rightarrow> dim list \<Rightarrow> dim obj \<Rightarrow> dim obj \<Rightarrow> bool" where
  "mdl_post as bs m u = (wf_obj u \<and> dim_ext (map_of m) (map_of m ++ map_of u) \<and> aligns (map_of m ++ map_of u) as bs)"

lemma mdl_post_head:
  assumes hm: "head_match (base_of a) (base_of b) m"
    and post: "mdl_post as' bs' (obj_assign m (head_update (base_of a) (base_of b))) r"
    and step: "\<And>\<sigma>. stands_for \<sigma> (base_of a) (base_of b) \<Longrightarrow> aligns \<sigma> as' bs' \<Longrightarrow> aligns \<sigma> as bs"
  shows "mdl_post as bs m (obj_assign r (head_update (base_of a) (base_of b)))"
proof -
  let ?p = "head_update (base_of a) (base_of b)"
  let ?env = "(map_of m ++ map_of ?p) ++ map_of r"
  have wf: "wf_obj r" and ext: "dim_ext (map_of m ++ map_of ?p) ?env" and al: "aligns ?env as' bs'"
    using post by (auto simp: mdl_post_def)
  have le: "map_of m ++ map_of ?p \<subseteq>\<^sub>m ?env" using ext by (simp add: dim_ext_def)
  have eq: "map_of m ++ map_of (obj_assign r ?p) = ?env"
    using updates_merge [OF wf wf_head_update le] .
  from head_match_sound [OF hm] have sf: "stands_for (map_of m ++ map_of ?p) (base_of a) (base_of b)"
    and e1: "dim_ext (map_of m) (map_of m ++ map_of ?p)" by simp_all
  have "stands_for ?env (base_of a) (base_of b)" using stands_for_mono [OF le sf] .
  then show ?thesis
    unfolding mdl_post_def eq using dim_ext_trans [OF e1 ext] step al wf by blast
qed

lemma mdl_post_same:
  assumes "mdl_post as' bs' m r" and "\<And>\<sigma>. aligns \<sigma> as' bs' \<Longrightarrow> aligns \<sigma> as bs"
  shows "mdl_post as bs m r"
  using assms by (auto simp: mdl_post_def)

lemma matchDimList_post: "fst (matchDimList as bs m) \<Longrightarrow> mdl_post as bs m (snd (matchDimList as bs m))"
proof (induction as bs m rule: matchDimList.induct)
  case (1 m)
  then show ?case by (simp add: mdl_post_def al_Nil)
next
  case (2 b bs m)
  then show ?case by (auto split: if_splits intro: mdl_post_same al_skipB)
next
  case (3 a as m)
  then show ?case by (auto split: if_splits intro: mdl_post_same al_skipA)
next
  case (4 a as b bs m)
  note IH = "4.IH" [OF refl refl refl]
  let ?h = "head_match (base_of a) (base_of b) m"
  let ?p = "head_update (base_of a) (base_of b)"
  let ?m = "obj_assign m ?p"
  consider
      (one) "?h" "fst (matchDimList as bs ?m)"
        "snd (matchDimList (a # as) (b # bs) m) = obj_assign (snd (matchDimList as bs ?m)) ?p"
    | (moreB) "?h" "repeats (mod_of b)" "fst (matchDimList as (b # bs) ?m)"
        "\<not> fst (matchDimList as bs ?m)"
        "snd (matchDimList (a # as) (b # bs) m) = obj_assign (snd (matchDimList as (b # bs) ?m)) ?p"
    | (skipA) "skips (mod_of a)" "fst (matchDimList as (b # bs) m)"
        "\<not> (?h \<and> fst (matchDimList as bs ?m))" "\<not> (?h \<and> repeats (mod_of b) \<and> fst (matchDimList as (b # bs) ?m))"
        "snd (matchDimList (a # as) (b # bs) m) = snd (matchDimList as (b # bs) m)"
    | (moreA) "?h" "repeats (mod_of a)" "fst (matchDimList (a # as) bs ?m)"
        "\<not> (?h \<and> fst (matchDimList as bs ?m))" "\<not> (?h \<and> repeats (mod_of b) \<and> fst (matchDimList as (b # bs) ?m))"
        "\<not> (skips (mod_of a) \<and> fst (matchDimList as (b # bs) m))"
        "snd (matchDimList (a # as) (b # bs) m) = obj_assign (snd (matchDimList (a # as) bs ?m)) ?p"
    | (skipB) "skips (mod_of b)" "fst (matchDimList (a # as) bs m)"
        "\<not> (?h \<and> fst (matchDimList as bs ?m))" "\<not> (?h \<and> repeats (mod_of b) \<and> fst (matchDimList as (b # bs) ?m))"
        "\<not> (skips (mod_of a) \<and> fst (matchDimList as (b # bs) m))"
        "\<not> (?h \<and> repeats (mod_of a) \<and> fst (matchDimList (a # as) bs ?m))"
        "snd (matchDimList (a # as) (b # bs) m) = snd (matchDimList (a # as) bs m)"
    using "4.prems" by (auto simp: Let_def split: if_splits)
  then show ?case
  proof cases
    case one
    then show ?thesis unfolding one(3) by (intro mdl_post_head [OF one(1) IH(1)] al_one)
  next
    case moreB
    show ?thesis unfolding moreB(5)
      by (rule mdl_post_head [OF moreB(1) IH(3)]) (use moreB in \<open>auto intro: al_moreB\<close>)
  next
    case skipA
    show ?thesis unfolding skipA(5)
      by (rule mdl_post_same [OF IH(5)]) (use skipA in \<open>auto intro: al_skipA\<close>)
  next
    case moreA
    show ?thesis unfolding moreA(7)
      by (rule mdl_post_head [OF moreA(1) IH(7)]) (use moreA in \<open>auto intro: al_moreA\<close>)
  next
    case skipB
    show ?thesis unfolding skipB(7)
      by (rule mdl_post_same [OF IH(9)]) (use skipB in \<open>auto intro: al_skipB\<close>)
  qed
qed

interpretation dim_search: dim_matcher matchDimList
proof
  fix as bs m u
  assume "matchDimList as bs m = (True, u)"
  then show "wf_obj u \<and> dim_ext (map_of m) (map_of m ++ map_of u) \<and> dim_sol (map_of m ++ map_of u) as bs"
    using matchDimList_post [of as bs m] by (simp add: mdl_post_def dim_sol_iff_aligns)
next
  fix as bs m \<sigma>
  assume "dim_ext (map_of m) \<sigma>" "dim_sol \<sigma> as bs"
  then show "fst (matchDimList as bs m)" by (simp add: dim_sol_iff_aligns matchDimList_complete)
qed

lemma matchDimList_False: "\<not> fst (matchDimList as bs m) \<Longrightarrow> matchDimList as bs m = (False, [])"
  by (induction as bs m rule: matchDimList.induct) (auto simp: Let_def split: if_splits)

text \<open>The names an update binds are those of the pattern, and what they are bound to are
  dimensions of the source.\<close>

lemma matchDimList_names:
  "map_of (snd (matchDimList as bs m)) x = Some d \<Longrightarrow> DStr x \<in> base_of ` set as \<and> d \<in> base_of ` set bs"
proof (induction as bs m rule: matchDimList.induct)
  case (4 a as b bs m)
  let ?p = "head_update (base_of a) (base_of b)"
  have p: "map_of ?p x = Some d \<Longrightarrow> DStr x = base_of a \<and> d = base_of b"
    by (cases "base_of a") (auto simp: head_update_def split: if_splits)
  note IH = "4.IH" [OF refl refl refl]
  show ?case
    using "4.prems" IH
    by (auto simp: Let_def image_iff split: if_splits dest!: p)
qed (auto split: if_splits)

subsubsection \<open>Sources of constant dimensions\<close>

lemma mod_of_DInt [simp]: "mod_of (DInt n) = None" and base_of_DInt [simp]: "base_of (DInt n) = DInt n"
  by (simp_all add: mod_of_def base_of_def)

lemma copies_None [simp]: "copies None k \<longleftrightarrow> k = 1"
  by (auto simp: copies_def skips_def repeats_def)

lemma expands_constants: "expands (map DInt ns) cs \<longleftrightarrow> cs = map DInt ns"
proof (induction ns arbitrary: cs)
  case Nil
  then show ?case by (auto elim: expands_NilE intro: expands_Nil)
next
  case (Cons n ns)
  have "expands (DInt n # map DInt ns) cs \<Longrightarrow> cs = DInt n # map DInt ns"
    by (erule expands_ConsE) (simp add: Cons)
  then show ?case using Cons expands_one [of "map DInt ns" "map DInt ns" "DInt n"] by auto
qed

lemma name_not_wild:
  assumes "name_format s"
  shows "\<not> ends_wild s"
proof -
  obtain c cs where s: "s = c # cs" and c: "name_start c" and cs: "list_all name_char cs"
    using assms by (auto simp: name_format_def split: list.splits)
  have "name_char (last s)"
    using c cs by (cases "cs = []") (auto simp: s name_char_def list_all_iff)
  moreover have "\<not> name_char CHR ''?''" "\<not> name_char CHR ''+''" "\<not> name_char CHR ''*''"
    by code_simp+
  ultimately show ?thesis by (auto simp: ends_wild_def is_wildcard_def)
qed

lemma plain_name [simp]:
  assumes "name_format s"
  shows "base_of (DStr s) = DStr s" and "mod_of (DStr s) = None"
  using name_not_wild [OF assms] by (simp_all add: base_of_def mod_of_def)

lemma suffixed_name [simp]:
  assumes "is_wildcard c"
  shows "base_of (DStr (s @ [c])) = DStr s" and "mod_of (DStr (s @ [c])) = Some c"
  using assms by (simp_all add: base_of_def mod_of_def ends_wild_def)

lemma copies_plus [simp]: "copies (Some CHR ''+'') k \<longleftrightarrow> 1 \<le> k"
  by (auto simp: copies_def skips_def repeats_def)

lemma dim_ext_empty: "dim_ext Map.empty \<sigma> \<longleftrightarrow> (\<forall>x. inherited x \<longrightarrow> \<sigma> x = None)"
  by (simp add: dim_ext_def)

lemma accepts_plus_then_name:
  assumes "name_format a" "name_format b"
  shows "accepts_list \<sigma> [DStr (a @ ''+''), DStr b] cs \<longleftrightarrow>
    (\<exists>seg c. cs = seg @ [c] \<and> seg \<noteq> [] \<and> (\<forall>d \<in> set seg. \<sigma> a = Some d) \<and> \<sigma> b = Some c)"
proof
  assume "accepts_list \<sigma> [DStr (a @ ''+''), DStr b] cs"
  then show "\<exists>seg c. cs = seg @ [c] \<and> seg \<noteq> [] \<and> (\<forall>d \<in> set seg. \<sigma> a = Some d) \<and> \<sigma> b = Some c"
    using assms
    by (auto elim!: accepts_ConsE accepts_NilE simp: is_wildcard_def stands_for_def length_Suc_conv)
next
  assume "\<exists>seg c. cs = seg @ [c] \<and> seg \<noteq> [] \<and> (\<forall>d \<in> set seg. \<sigma> a = Some d) \<and> \<sigma> b = Some c"
  then obtain seg c where "cs = seg @ [c]" "seg \<noteq> []" "\<forall>d \<in> set seg. \<sigma> a = Some d" "\<sigma> b = Some c" by blast
  moreover have "accepts_list \<sigma> [DStr b] [c]"
    using accepts_one [of \<sigma> "DStr b" c "[]" "[]"] assms \<open>\<sigma> b = Some c\<close> by (simp add: stands_for_def accepts_Nil)
  ultimately show "accepts_list \<sigma> [DStr (a @ ''+''), DStr b] cs"
    using accepts_Cons [of "DStr (a @ ''+'')" seg \<sigma> "[DStr b]" "[c]"]
    by (simp add: is_wildcard_def stands_for_def Suc_le_eq)
qed

subsection \<open>Properties\<close>

text \<open>C5. \<^verbatim>\<open>matchDimList\<close> decides the specification: it succeeds exactly when some assignment of
  source dimensions to the names of the pattern extends the map it was given and makes the
  pattern accept an expansion of the source. The updates it returns, added to the map, are
  such an assignment; they bind names of the pattern to dimensions of the source only; and a
  failure returns no updates.\<close>

theorem matchDimList_decides:
  assumes "wf_obj dimMap"
  shows "(fst (matchDimList A B dimMap) \<longleftrightarrow> (\<exists>\<sigma>. dim_ext (map_of dimMap) \<sigma> \<and> dim_sol \<sigma> A B))
    \<and> (\<forall>u. matchDimList A B dimMap = (True, u) \<longrightarrow>
         dim_ext (map_of dimMap) (map_of dimMap ++ map_of u) \<and> dim_sol (map_of dimMap ++ map_of u) A B
         \<and> (\<forall>x d. map_of u x = Some d \<longrightarrow> DStr x \<in> base_of ` set A \<and> d \<in> base_of ` set B))
    \<and> (\<forall>u. matchDimList A B dimMap = (False, u) \<longrightarrow> u = [])"
  using dim_search.mdl_iff [OF assms] dim_search.mdl_sound [OF assms] matchDimList_names [of A B dimMap]
    matchDimList_False [of A B dimMap] by fastforce

theorem matchDimList_decides_witness:
  "matchDimList [DStr ''a+'', DStr ''b''] [DInt 3, DInt 3, DStr ''n''] [] = (True, [(''b'', DStr ''n''), (''a'', DInt 3)])
    \<and> dim_sol [''b'' \<mapsto> DStr ''n'', ''a'' \<mapsto> DInt 3] [DStr ''a+'', DStr ''b''] [DInt 3, DInt 3, DStr ''n'']"
proof -
  let ?A = "[DStr ''a+'', DStr ''b'']" and ?B = "[DInt 3, DInt 3, DStr ''n'']"
  let ?u = "[(''b'', DStr ''n''), (''a'', DInt 3)]"
  have run: "matchDimList ?A ?B [] = (True, ?u)" by code_simp
  moreover have "map_of ?u = [''b'' \<mapsto> DStr ''n'', ''a'' \<mapsto> DInt 3]" by auto
  ultimately show ?thesis
    using matchDimList_decides [of "[]" ?A ?B] by (simp del: matchDimList.simps map_of.simps(2))
qed



end
