(* ===== verification/Schema_Match.thy ===== *)
theory Schema_Match
  imports Schema_Load Permutation Dim_Match
begin

text \<open>
  The matcher of \<^verbatim>\<open>src/schema.js\<close>: \<^verbatim>\<open>Schema.prototype.match\<close> and the functions it calls,
  \<^verbatim>\<open>matchNode\<close>, \<^verbatim>\<open>matchLink\<close>, \<^verbatim>\<open>matchTensor\<close>, \<^verbatim>\<open>matchCategory\<close> and \<^verbatim>\<open>matchClass\<close>. A destination
  (\<^verbatim>\<open>this\<close>, \<^verbatim>\<open>self\<close>) is matched with a source; the matcher looks for an arrangement of the source's
  nodes and fields and for maps of dimension, class and node names under which every node of
  the destination accepts its partner. With \<^verbatim>\<open>buildMatching\<close> it returns the destination
  annotated with what was found, otherwise a boolean.

  Each of the four loops over arrangements is a \<open>try_perms\<close> over the iterator of
  \<open>Permutation\<close>, and the loop inside it is a \<open>for_pairs\<close>. A name read beyond the end of
  an array is undefined; used as a property name it is \<^verbatim>\<open>"undefined"\<close> (\<open>key_of\<close>). A name stored as
  the undefined \<^verbatim>\<open>srcName\<close> of a matched node is \<open>None\<close> here, as null is.
\<close>

subsection \<open>Lookups\<close>

definition key_of :: "string option \<Rightarrow> string" where
  "key_of k = (case k of None \<Rightarrow> ''undefined'' | Some s \<Rightarrow> s)"

text \<open>The property name that something inherited becomes when it is used as one.\<close>

definition proto_text :: "string \<Rightarrow> string" where
  "proto_text k =
     (if k = ''__proto__'' then ''[object Object]''
      else ''function '' @ (if k = ''constructor'' then ''Object'' else k) @ ''() { [native code] }'')"

text \<open>The first \<open>n\<close> elements of an array read by index.\<close>

definition pad :: "nat \<Rightarrow> 'a list \<Rightarrow> 'a option list" where
  "pad n xs = map Some (take n xs) @ replicate (n - length xs) None"

text \<open>\<^verbatim>\<open>for (i ...) m[xs[i]] = ys[i]\<close>\<close>

definition put_names :: "string list \<Rightarrow> 'a list \<Rightarrow> 'a obj \<Rightarrow> 'a obj" where
  "put_names xs ys m = fold (\<lambda>(x, y) ob. obj_put x y ob) (zip xs ys) m"

text \<open>\<^verbatim>\<open>let match = names.length === 0; let perms = new Permutation(names); while (perms.hasNext())
  {...}; if (match === false) ...\<close>: the first arrangement for which the body succeeds. With no
  names there is no arrangement, and \<open>dflt\<close> is what the loop leaves.\<close>

definition try_perms :: "string list \<Rightarrow> (string list \<Rightarrow> 'r option res) \<Rightarrow> 'r \<Rightarrow> 'r option res" where
  "try_perms names f dflt =
     bindE (perm_list names) (\<lambda>ps.
     bindE (search f ps) (\<lambda>r.
     Inr (case r of Some x \<Rightarrow> Some x | None \<Rightarrow> if names = [] then Some dflt else None)))"

subsection \<open>Links, tensors, classes, categories\<close>

definition matchLink :: "link \<Rightarrow> link option \<Rightarrow> bool res" where
  "matchLink self source =
     (case source of
        None \<Rightarrow> Inl AssertionError
      | Some src \<Rightarrow>
          Inr (if link_lower self > link_lower src then False
               else (case link_upper self of
                       Inf \<Rightarrow> True
                     | Fin h \<Rightarrow> (case link_upper src of Inf \<Rightarrow> False | Fin h' \<Rightarrow> \<not> h < h'))))"

definition matchTensor :: "field option \<Rightarrow> field option \<Rightarrow> dim obj \<Rightarrow> (bool \<times> dim obj) res" where
  "matchTensor self source dimMap =
     (case source of
        Some (Tensor _ sourceDim _) \<Rightarrow>
          (case self of
             Some (Tensor _ selfDim _) \<Rightarrow> Inr (matchDimList selfDim sourceDim dimMap)
           | _ \<Rightarrow> Inl TypeError)
      | _ \<Rightarrow> Inl AssertionError)"

text \<open>\<^verbatim>\<open>dimMap[k] || null\<close> compared with the dimension of the source; something inherited is neither
  null nor a dimension.\<close>

definition dim_truthy :: "dim \<Rightarrow> bool" where
  "dim_truthy d = (case d of DInt n \<Rightarrow> n \<noteq> 0 | DStr s \<Rightarrow> s \<noteq> [])"

definition matchClass_named :: "string \<Rightarrow> dim \<Rightarrow> dim obj \<Rightarrow> bool \<times> dim obj" where
  "matchClass_named k sourceDim dimMap =
     (case get dimMap k of
        Own d \<Rightarrow> if dim_truthy d then (d = sourceDim, []) else (True, obj_put k sourceDim [])
      | Proto \<Rightarrow> (False, [])
      | Undef \<Rightarrow> (True, obj_put k sourceDim []))"

definition matchClass :: "sclass lookup \<Rightarrow> sclass lookup \<Rightarrow> dim obj \<Rightarrow> (bool \<times> dim obj) res" where
  "matchClass self source dimMap =
     (case source of
        Own src \<Rightarrow>
          (case self of
             Undef \<Rightarrow> Inl TypeError
           | Proto \<Rightarrow> Inr (matchClass_named ''undefined'' (class_dim src) dimMap)
           | Own slf \<Rightarrow>
               Inr (case class_dim slf of
                      DInt n \<Rightarrow> (DInt n = class_dim src, [])
                    | DStr k \<Rightarrow> matchClass_named k (class_dim src) dimMap))
      | _ \<Rightarrow> Inl AssertionError)"

text \<open>\<^verbatim>\<open>self.categoryClass\<close>, which is undefined for anything but a category.\<close>

definition class_key :: "field option \<Rightarrow> string res" where
  "class_key f =
     (case f of
        None \<Rightarrow> Inl TypeError
      | Some (Category _ c) \<Rightarrow> Inr c
      | Some (Tensor _ _ _) \<Rightarrow> Inr ''undefined'')"

definition matchCategory ::
  "field option \<Rightarrow> field option \<Rightarrow> dim obj \<Rightarrow> string obj \<Rightarrow> sclass obj \<Rightarrow> sclass obj \<Rightarrow> (bool \<times> dim obj \<times> string obj) res" where
  "matchCategory self source dimMap classNameMap selfClasses sourceClasses =
     (case source of
        Some (Category _ sourceName) \<Rightarrow>
          bindE (class_key self) (\<lambda>selfName.
            if obj_in selfName classNameMap then
              Inr (map_of classNameMap selfName = Some sourceName, [], [])
            else
              bindE (matchClass (get selfClasses selfName) (get sourceClasses sourceName) dimMap) (\<lambda>(m, dimMapUpdate).
              Inr (if m then (True, dimMapUpdate, obj_put selfName sourceName []) else (False, [], []))))
      | _ \<Rightarrow> Inl AssertionError)"

subsection \<open>Nodes\<close>

definition is_tensor :: "field \<Rightarrow> bool" where
  "is_tensor f = (case f of Tensor _ _ _ \<Rightarrow> True | Category _ _ \<Rightarrow> False)"

definition tensor_names :: "node \<Rightarrow> string list" where
  "tensor_names n = keys (filter (\<lambda>(k, f). is_tensor f) (node_fields n))"

definition category_names :: "node \<Rightarrow> string list" where
  "category_names n = keys (filter (\<lambda>(k, f). \<not> is_tensor f) (node_fields n))"

definition counts_match :: "node \<Rightarrow> node \<Rightarrow> bool" where
  "counts_match self source =
     (length (tensor_names self) = length (tensor_names source) \<and>
      length (category_names self) = length (category_names source) \<and>
      length (node_links self) = length (node_links source))"

definition source_node_name :: "string option obj \<Rightarrow> string \<Rightarrow> string" where
  "source_node_name nodeNameMap nodeName =
     (case get nodeNameMap nodeName of
        Own k \<Rightarrow> key_of k
      | Proto \<Rightarrow> proto_text nodeName
      | Undef \<Rightarrow> ''undefined'')"

fun match_links :: "link obj \<Rightarrow> link obj \<Rightarrow> string option obj \<Rightarrow> bool res" where
  "match_links [] sourceLinks nodeNameMap = Inr True"
| "match_links ((nodeName, link) # ls) sourceLinks nodeNameMap =
     (let sourceNodeName = source_node_name nodeNameMap nodeName
      in if \<not> obj_in sourceNodeName sourceLinks then Inr False
         else bindE (matchLink link (map_of sourceLinks sourceNodeName)) (\<lambda>m.
                if m then match_links ls sourceLinks nodeNameMap else Inr False))"

definition tensor_body :: "node \<Rightarrow> node \<Rightarrow> dim obj \<Rightarrow> string \<Rightarrow> string \<Rightarrow> dim obj \<Rightarrow> dim obj option res" where
  "tensor_body self source dimMap selfName sourceName updates =
     bindE (matchTensor (map_of (node_fields self) selfName) (map_of (node_fields source) sourceName)
              (obj_assign updates dimMap)) (\<lambda>(m, new).
     Inr (if m then Some (obj_assign updates new) else None))"

text \<open>The tensor loop: the updates of the dimension map and the chosen arrangement of the source's
  tensors.\<close>

definition match_tensors :: "node \<Rightarrow> node \<Rightarrow> dim obj \<Rightarrow> (dim obj \<times> string list) option res" where
  "match_tensors self source dimMap =
     try_perms (tensor_names source) (\<lambda>perm.
       bindE (for_pairs (tensor_body self source dimMap) False (zip (tensor_names self) perm) []) (\<lambda>(m, updates).
       Inr (if m then Some (obj_assign [] updates, perm) else None)))
       ([], [])"

definition category_body ::
  "node \<Rightarrow> node \<Rightarrow> dim obj \<Rightarrow> string obj \<Rightarrow> sclass obj \<Rightarrow> sclass obj \<Rightarrow> string \<Rightarrow> string \<Rightarrow>
   dim obj \<times> string obj \<Rightarrow> (dim obj \<times> string obj) option res" where
  "category_body self source dimMap classNameMap selfClasses sourceClasses selfName sourceName st =
     bindE (matchCategory (map_of (node_fields self) selfName) (map_of (node_fields source) sourceName)
              (obj_assign dimMap (fst st)) (obj_assign classNameMap (snd st)) selfClasses sourceClasses) (\<lambda>(m, newDims, newClasses).
     Inr (if m then Some (obj_assign (fst st) newDims, obj_assign (snd st) newClasses) else None))"

definition match_categories ::
  "node \<Rightarrow> node \<Rightarrow> dim obj \<Rightarrow> string obj \<Rightarrow> sclass obj \<Rightarrow> sclass obj \<Rightarrow> dim obj \<Rightarrow>
   ((dim obj \<times> string obj) \<times> string list) option res" where
  "match_categories self source dimMap classNameMap selfClasses sourceClasses dimMapUpdates =
     try_perms (category_names source) (\<lambda>perm.
       bindE (for_pairs (category_body self source dimMap classNameMap selfClasses sourceClasses) False
                (zip (category_names self) perm) (obj_assign [] dimMapUpdates, [])) (\<lambda>(m, st).
       Inr (if m then Some ((obj_assign dimMapUpdates (fst st), obj_assign [] (snd st)), perm) else None)))
       ((dimMapUpdates, []), [])"

text \<open>What a match returns: a boolean, or with \<^verbatim>\<open>buildMatching\<close> null or the value built.\<close>

datatype 'a mres = MBool bool | MNull | MVal 'a

definition no_match :: "bool \<Rightarrow> 'a mres" where
  "no_match buildMatching = (if buildMatching then MNull else MBool False)"

definition is_match :: "bool \<Rightarrow> 'a mres \<Rightarrow> bool" where
  "is_match buildMatching r = (if buildMatching then r \<noteq> MNull else r = MBool True)"

text \<open>A field of the result gets the name, and a tensor also the dimensions, of its partner.\<close>

definition annotate_field :: "node \<Rightarrow> string obj \<Rightarrow> string \<Rightarrow> field \<Rightarrow> field res" where
  "annotate_field source fieldNameMap k f =
     (case f of
        Tensor _ ds _ \<Rightarrow>
          (case map_of (node_fields source) (key_of (map_of fieldNameMap k)) of
             Some (Tensor _ sourceDim _) \<Rightarrow> Inr (Tensor (map_of fieldNameMap k) ds (JArr (map dim_to_js sourceDim)))
           | _ \<Rightarrow> Inl TypeError)
      | Category _ c \<Rightarrow> Inr (Category (map_of fieldNameMap k) c))"

definition build_node :: "node \<Rightarrow> node \<Rightarrow> string obj \<Rightarrow> node res" where
  "build_node self source fieldNameMap =
     bindE (obj_mapE (\<lambda>k l. loadLink (dumpLink l)) (node_links self)) (\<lambda>ls.
     bindE (obj_mapE (\<lambda>k f. loadField (JObj (dumpField f))) (node_fields self)) (\<lambda>fs.
     bindE (obj_mapE (annotate_field source fieldNameMap) fs) (\<lambda>fs'.
     new_Node (JBool (isSingleton self)) (Dict fs') (Dict ls) JNull)))"

definition matchNode_found ::
  "node \<Rightarrow> node \<Rightarrow> dim obj \<Rightarrow> string obj \<Rightarrow> sclass obj \<Rightarrow> sclass obj \<Rightarrow> bool \<Rightarrow>
   (node mres \<times> dim obj \<times> string obj) res" where
  "matchNode_found self source dimMap classNameMap selfClasses sourceClasses buildMatching =
     bindE (match_tensors self source dimMap) (\<lambda>ts.
       case ts of
         None \<Rightarrow> Inr (no_match buildMatching, [], [])
       | Some (dimMapUpdates, tensorPerm) \<Rightarrow>
           bindE (match_categories self source dimMap classNameMap selfClasses sourceClasses dimMapUpdates) (\<lambda>cs.
             case cs of
               None \<Rightarrow> Inr (no_match buildMatching, [], [])
             | Some ((dims, classNames), categoryPerm) \<Rightarrow>
                 if buildMatching then
                   bindE (build_node self source
                            (put_names (category_names self) categoryPerm
                              (put_names (tensor_names self) tensorPerm []))) (\<lambda>n.
                   Inr (MVal n, dims, classNames))
                 else Inr (MBool True, dims, classNames)))"

definition matchNode ::
  "node option \<Rightarrow> node option \<Rightarrow> dim obj \<Rightarrow> string obj \<Rightarrow> string option obj \<Rightarrow> sclass obj \<Rightarrow> sclass obj \<Rightarrow> bool \<Rightarrow>
   (node mres \<times> dim obj \<times> string obj) res" where
  "matchNode selfArg sourceArg dimMap classNameMap nodeNameMap selfClasses sourceClasses buildMatching =
     (case sourceArg of
        None \<Rightarrow> Inl AssertionError
      | Some source \<Rightarrow>
          (case selfArg of
             None \<Rightarrow> Inl TypeError
           | Some self \<Rightarrow>
               if \<not> counts_match self source then Inr (no_match buildMatching, [], [])
               else
                 bindE (match_links (node_links self) (node_links source) nodeNameMap) (\<lambda>m.
                 if m then matchNode_found self source dimMap classNameMap selfClasses sourceClasses buildMatching
                 else Inr (no_match buildMatching, [], []))))"

subsection \<open>Schemas\<close>

definition node_names :: "bool \<Rightarrow> schema \<Rightarrow> string list" where
  "node_names singleton s = keys (filter (\<lambda>(k, n). isSingleton n = singleton) (nodes s))"

definition constraints_ok :: "schema \<Rightarrow> schema \<Rightarrow> bool" where
  "constraints_ok this source =
     (\<not> (cyclic source \<and> \<not> cyclic this) \<and> \<not> (\<not> undirected source \<and> undirected this) \<and> \<not> (fanin source \<and> \<not> fanin this))"

text \<open>The maps the node loops update: dimensions, class names and the matched nodes.\<close>

type_synonym match_maps = "dim obj \<times> string obj \<times> node obj"

text \<open>One iteration of a node loop, for the maps \<open>ds\<close>, \<open>cs\<close> passed on to \<^verbatim>\<open>matchNode\<close>.\<close>

definition node_step ::
  "schema \<Rightarrow> schema \<Rightarrow> bool \<Rightarrow> dim obj \<Rightarrow> string obj \<Rightarrow> string option obj \<Rightarrow> string option \<Rightarrow> string option \<Rightarrow>
   match_maps \<Rightarrow> match_maps option res" where
  "node_step this source buildMatching ds cs nodeNameMap selfName sourceName st =
     (case st of (dimMapUpdates, classNameMapUpdates, nodesIter) \<Rightarrow>
       bindE (matchNode (map_of (nodes this) (key_of selfName)) (map_of (nodes source) (key_of sourceName))
                ds cs nodeNameMap (categoryClasses this) (categoryClasses source) buildMatching) (\<lambda>(r, newDims, newClasses).
       Inr (if is_match buildMatching r then
              Some (obj_assign dimMapUpdates newDims, obj_assign classNameMapUpdates newClasses,
                    case r of MVal n \<Rightarrow> obj_put (key_of selfName) (n\<lparr>node_srcName := sourceName\<rparr>) nodesIter | _ \<Rightarrow> nodesIter)
            else None)))"

text \<open>The singleton loop runs over the source's names and passes the maps found so far (none)
  extended by the updates; the chosen names go into the node name map.\<close>

definition singleton_body ::
  "schema \<Rightarrow> schema \<Rightarrow> bool \<Rightarrow> string option \<Rightarrow> string option \<Rightarrow> match_maps \<Rightarrow> match_maps option res" where
  "singleton_body this source buildMatching selfName sourceName st =
     node_step this source buildMatching (obj_assign [] (fst st)) (obj_assign [] (fst (snd st))) [] selfName sourceName st"

definition match_singletons :: "schema \<Rightarrow> schema \<Rightarrow> bool \<Rightarrow> (match_maps \<times> string option obj) option res" where
  "match_singletons this source buildMatching =
     (let selfNames = node_names True this; sourceNames = node_names True source
      in try_perms sourceNames (\<lambda>perm.
           bindE (for_pairs (singleton_body this source buildMatching) False
                    (zip (pad (length sourceNames) selfNames) (map Some perm)) ([], [], [])) (\<lambda>(m, dims, classNames, ns).
           Inr (if m then Some ((obj_assign [] dims, obj_assign [] classNames, obj_assign [] ns),
                                put_names selfNames (pad (length selfNames) perm) [])
                else None)))
           (([], [], []), []))"

text \<open>The other loop runs over the destination's names, with the node name map of the arrangement,
  and starts from copies of the maps found so far.\<close>

definition nonsingleton_body ::
  "schema \<Rightarrow> schema \<Rightarrow> bool \<Rightarrow> string option obj \<Rightarrow> string option \<Rightarrow> string option \<Rightarrow> match_maps \<Rightarrow> match_maps option res" where
  "nonsingleton_body this source buildMatching nodeNameMapCopy selfName sourceName st =
     node_step this source buildMatching (fst st) (fst (snd st)) nodeNameMapCopy selfName sourceName st"

definition match_nonsingletons ::
  "schema \<Rightarrow> schema \<Rightarrow> bool \<Rightarrow> match_maps \<Rightarrow> string option obj \<Rightarrow> (match_maps \<times> string option obj) option res" where
  "match_nonsingletons this source buildMatching found nodeNameMap =
     (case found of (dimMap, classNameMap, nds) \<Rightarrow>
      let selfNames = node_names False this; sourceNames = node_names False source
      in try_perms sourceNames (\<lambda>perm.
           let nodeNameMapCopy = put_names selfNames (pad (length selfNames) perm) (obj_assign [] nodeNameMap)
           in bindE (for_pairs (nonsingleton_body this source buildMatching nodeNameMapCopy) False
                       (zip (map Some selfNames) (pad (length selfNames) perm))
                       (obj_assign [] dimMap, obj_assign [] classNameMap, [])) (\<lambda>(m, dims, classNames, ns).
              Inr (if m then Some ((obj_assign dimMap dims, obj_assign classNameMap classNames, obj_assign nds ns),
                                   obj_assign nodeNameMap nodeNameMapCopy)
                   else None)))
           (found, nodeNameMap))"

text \<open>\<^verbatim>\<open>new Class(categoryClass.dim, classNameMap[categoryClassName])\<close>: an undefined argument
  takes its default null; something inherited is not a string, for which any object stands.\<close>

definition class_arg :: "string obj \<Rightarrow> string \<Rightarrow> jsval" where
  "class_arg classNameMap k =
     (case get classNameMap k of Own s \<Rightarrow> JStr s | Proto \<Rightarrow> JObj [] | Undef \<Rightarrow> JNull)"

definition build_schema :: "schema \<Rightarrow> match_maps \<Rightarrow> schema res" where
  "build_schema this found =
     (case found of (dimMap, classNameMap, nds) \<Rightarrow>
      bindE (obj_mapE (\<lambda>k c. new_Class (dim_to_js (class_dim c)) (class_arg classNameMap k)) (categoryClasses this)) (\<lambda>classes.
      new_Schema (Dict nds) (Dict classes) (JBool (cyclic this)) (JBool (undirected this)) (JBool (fanin this))
        (JObj (obj_map dim_to_js dimMap))))"

definition match_schema :: "schema \<Rightarrow> schema \<Rightarrow> bool \<Rightarrow> schema mres res" where
  "match_schema this source buildMatching =
     (if node_names False this \<noteq> [] \<and> \<not> constraints_ok this source then Inr (no_match buildMatching)
      else
        bindE (match_singletons this source buildMatching) (\<lambda>ss.
          case ss of
            None \<Rightarrow> Inr (no_match buildMatching)
          | Some (found, nodeNameMap) \<Rightarrow>
              bindE (match_nonsingletons this source buildMatching found nodeNameMap) (\<lambda>ns.
                case ns of
                  None \<Rightarrow> Inr (no_match buildMatching)
                | Some (found', nodeNameMap') \<Rightarrow>
                    if buildMatching then bindE (build_schema this found') (\<lambda>s. Inr (MVal s))
                    else Inr (MBool True))))"

subsection \<open>Specification\<close>

text \<open>The numbers of links that a link admits.\<close>

definition admits :: "link \<Rightarrow> int \<Rightarrow> bool" where
  "admits l n = (link_lower l \<le> n \<and> (case link_upper l of Fin h \<Rightarrow> n \<le> h | Inf \<Rightarrow> True))"

definition link_accepts :: "link \<Rightarrow> link \<Rightarrow> bool" where
  "link_accepts a b = (\<forall>n. admits b n \<longrightarrow> admits a n)"

text \<open>A field of the destination accepts a field of the source under the maps \<open>\<delta>\<close> of dimensions
  and \<open>\<gamma>\<close> of classes.\<close>

definition field_accepts :: "(string \<rightharpoonup> dim) \<Rightarrow> (string \<rightharpoonup> string) \<Rightarrow> field \<Rightarrow> field \<Rightarrow> bool" where
  "field_accepts \<delta> \<gamma> f g =
     (case f of
        Tensor _ as _ \<Rightarrow> (case g of Tensor _ bs _ \<Rightarrow> dim_sol \<delta> as bs | Category _ _ \<Rightarrow> False)
      | Category _ c \<Rightarrow> (case g of Tensor _ _ _ \<Rightarrow> False | Category _ d \<Rightarrow> \<gamma> c = Some d))"

text \<open>A class map is consistent with a dimension map: the dimension of a class stands for the
  dimension of the class it is mapped to.\<close>

definition classes_agree :: "sclass obj \<Rightarrow> sclass obj \<Rightarrow> (string \<rightharpoonup> dim) \<Rightarrow> (string \<rightharpoonup> string) \<Rightarrow> bool" where
  "classes_agree Ca Cb \<delta> \<gamma> =
     (\<forall>c d. \<gamma> c = Some d \<longrightarrow>
        (\<exists>ca cb. map_of Ca c = Some ca \<and> map_of Cb d = Some cb \<and> stands_for \<delta> (class_dim ca) (class_dim cb)))"

text \<open>A node accepts a node through a bijection \<open>\<phi>\<close> of the fields: partners accept each other, and
  the links lead to corresponding nodes (by the node map \<open>\<nu>\<close>) with admissible numbers.\<close>

definition fields_accept ::
  "(string \<rightharpoonup> dim) \<Rightarrow> (string \<rightharpoonup> string) \<Rightarrow> (string \<Rightarrow> string) \<Rightarrow> field obj \<Rightarrow> field obj \<Rightarrow> bool" where
  "fields_accept \<delta> \<gamma> \<phi> fs gs =
     (bij_betw \<phi> (set (keys fs)) (set (keys gs)) \<and>
      (\<forall>(k, f) \<in> set fs. \<exists>g. map_of gs (\<phi> k) = Some g \<and> field_accepts \<delta> \<gamma> f g))"

definition links_accept :: "(string \<Rightarrow> string) \<Rightarrow> link obj \<Rightarrow> link obj \<Rightarrow> bool" where
  "links_accept \<nu> ls ms =
     (length ls = length ms \<and> (\<forall>(n, l) \<in> set ls. \<exists>l'. map_of ms (\<nu> n) = Some l' \<and> link_accepts l l'))"

definition node_accepts ::
  "(string \<rightharpoonup> dim) \<Rightarrow> (string \<rightharpoonup> string) \<Rightarrow> (string \<Rightarrow> string) \<Rightarrow> (string \<Rightarrow> string) \<Rightarrow> node \<Rightarrow> node \<Rightarrow> bool" where
  "node_accepts \<delta> \<gamma> \<nu> \<phi> a b =
     (fields_accept \<delta> \<gamma> \<phi> (node_fields a) (node_fields b) \<and> links_accept \<nu> (node_links a) (node_links b))"

subsection \<open>Links and classes\<close>

lemma matchLink_sound: "wf_link b \<Longrightarrow> matchLink a (Some b) = Inr True \<Longrightarrow> link_accepts a b"
  by (auto simp: matchLink_def link_accepts_def admits_def wf_link_def split: if_splits bound.splits)

lemma matchLink_complete:
  assumes "wf_link b" and "link_accepts a b"
  shows "matchLink a (Some b) = Inr True"
proof -
  have lo: "link_lower a \<le> link_lower b"
    using assms by (auto simp: link_accepts_def admits_def wf_link_def split: bound.splits)
  show ?thesis
  proof (cases "link_upper a")
    case Inf
    with lo show ?thesis by (simp add: matchLink_def)
  next
    case (Fin h)
    show ?thesis
    proof (cases "link_upper b")
      case Inf
      then have "admits b (max (link_lower b) (h + 1))" by (simp add: admits_def)
      with assms(2) have "admits a (max (link_lower b) (h + 1))" by (simp add: link_accepts_def)
      with Fin show ?thesis by (simp add: admits_def)
    next
      case b: (Fin h')
      with assms have "admits a h'" by (auto simp: link_accepts_def admits_def wf_link_def)
      with lo b Fin show ?thesis by (auto simp: matchLink_def admits_def)
    qed
  qed
qed

text \<open>An update is consistent with a map when it keeps the map's bindings.\<close>

definition keeps :: "('k \<rightharpoonup> 'v) \<Rightarrow> ('k \<rightharpoonup> 'v) \<Rightarrow> bool" where
  "keeps m u = (m \<subseteq>\<^sub>m m ++ u)"

lemma keeps_empty [simp]: "keeps m Map.empty"
  by (simp add: keeps_def)

lemma keeps_commute: "keeps m u \<Longrightarrow> u ++ m = m ++ u"
proof
  fix k
  assume "keeps m u"
  then show "(u ++ m) k = (m ++ u) k"
    by (cases "m k") (force simp: keeps_def map_le_def map_add_def dom_def split: option.split)+
qed

lemma keeps_trans:
  assumes "keeps m u" and "keeps (m ++ u) v"
  shows "keeps m (u ++ v)"
  using assms unfolding keeps_def map_add_assoc by (rule map_le_trans)

lemma keeps_le: "keeps m u \<Longrightarrow> m \<subseteq>\<^sub>m m ++ u"
  by (simp add: keeps_def)

lemma keeps_put: "m k = None \<Longrightarrow> keeps m [k \<mapsto> v]"
  by (auto simp: keeps_def map_le_def)

definition truthy_map :: "(string \<rightharpoonup> dim) \<Rightarrow> bool" where
  "truthy_map \<delta> = (\<forall>x d. \<delta> x = Some d \<longrightarrow> dim_truthy d)"

lemma truthy_map_add: "truthy_map a \<Longrightarrow> truthy_map b \<Longrightarrow> truthy_map (a ++ b)"
  by (auto simp: truthy_map_def map_add_def split: option.splits)

lemma matchClass_named_sound:
  assumes "matchClass_named k d dimMap = (True, u)" and "truthy_map (map_of dimMap)" and "dim_truthy d"
  shows "wf_obj u \<and> keeps (map_of dimMap) (map_of u) \<and> truthy_map (map_of u) \<and> (map_of dimMap ++ map_of u) k = Some d"
  using assms
  by (auto simp: matchClass_named_def get_def truthy_map_def keeps_put split: option.splits if_splits)

lemma matchClass_sound:
  assumes "matchClass (Own a) (Own b) dimMap = Inr (True, u)" and "truthy_map (map_of dimMap)" and "dim_truthy (class_dim b)"
  shows "wf_obj u \<and> keeps (map_of dimMap) (map_of u) \<and> truthy_map (map_of u)
    \<and> stands_for (map_of dimMap ++ map_of u) (class_dim a) (class_dim b)"
  using assms matchClass_named_sound [OF _ assms(2,3)]
  by (auto simp: matchClass_def stands_for_def truthy_map_def split: dim.splits)

lemma classes_agree_mono: "classes_agree Ca Cb \<delta> \<gamma> \<Longrightarrow> \<delta> \<subseteq>\<^sub>m \<delta>' \<Longrightarrow> classes_agree Ca Cb \<delta>' \<gamma>"
  unfolding classes_agree_def by (meson stands_for_mono)

lemma classes_agree_put:
  "classes_agree Ca Cb \<delta> \<gamma> \<Longrightarrow> map_of Ca c = Some ca \<Longrightarrow> map_of Cb d = Some cb \<Longrightarrow>
   stands_for \<delta> (class_dim ca) (class_dim cb) \<Longrightarrow> classes_agree Ca Cb \<delta> (\<gamma>(c \<mapsto> d))"
  by (simp add: classes_agree_def)

definition truthy_classes :: "sclass obj \<Rightarrow> bool" where
  "truthy_classes Cb = (\<forall>c cb. map_of Cb c = Some cb \<longrightarrow> dim_truthy (class_dim cb))"

lemma matchCategory_sound:
  assumes m: "matchCategory (Some (Category nm c)) (Some g) ds cs Ca Cb = Inr (True, u, v)"
    and c: "c \<in> set (keys Ca)" and T: "truthy_map (map_of ds)" "truthy_classes Cb"
    and agree: "classes_agree Ca Cb (map_of ds) (map_of cs)"
  shows "wf_obj u \<and> wf_obj v \<and> keeps (map_of ds) (map_of u) \<and> keeps (map_of cs) (map_of v) \<and> truthy_map (map_of u)
    \<and> classes_agree Ca Cb (map_of ds ++ map_of u) (map_of cs ++ map_of v)
    \<and> (\<exists>nm' d. g = Category nm' d \<and> (map_of cs ++ map_of v) c = Some d)"
proof -
  obtain nm' d where g: "g = Category nm' d"
    using m by (cases g) (auto simp: matchCategory_def)
  obtain ca where ca: "map_of Ca c = Some ca" using c by (auto simp: in_keys_iff)
  show ?thesis
  proof (cases "obj_in c cs")
    case True
    with m have "map_of cs c = Some d" "u = []" "v = []" by (auto simp: matchCategory_def g class_key_def)
    then show ?thesis using agree g by (simp add: truthy_map_def)
  next
    case False
    then have none: "map_of cs c = None" by (simp add: obj_in_def map_of_eq_None_keys)
    from m False obtain cb where cb: "map_of Cb d = Some cb" and mc: "matchClass (Own ca) (Own cb) ds = Inr (True, u)"
      and v: "v = obj_put c d []"
      by (auto simp: matchCategory_def g class_key_def bindE_eq_Inr get_def ca matchClass_def split: if_splits option.splits lookup.splits)
    from T cb have "dim_truthy (class_dim cb)" by (auto simp: truthy_classes_def)
    from matchClass_sound [OF mc T(1) this] have wfu: "wf_obj u" and ku: "keeps (map_of ds) (map_of u)"
      and tu: "truthy_map (map_of u)" and sf: "stands_for (map_of ds ++ map_of u) (class_dim ca) (class_dim cb)" by auto
    have "classes_agree Ca Cb (map_of ds ++ map_of u) ((map_of cs)(c \<mapsto> d))"
      by (rule classes_agree_put [OF classes_agree_mono [OF agree keeps_le [OF ku]] ca cb sf])
    with wfu ku tu none show ?thesis by (simp add: v g keeps_put)
  qed
qed

subsection \<open>The loops inside a node\<close>

definition truthy_node :: "node \<Rightarrow> bool" where
  "truthy_node b = (\<forall>k nm bs sd. map_of (node_fields b) k = Some (Tensor nm bs sd) \<longrightarrow> (\<forall>d \<in> set bs. dim_truthy (base_of d)))"

definition declared_classes :: "sclass obj \<Rightarrow> node \<Rightarrow> bool" where
  "declared_classes Ca a = (\<forall>k nm c. map_of (node_fields a) k = Some (Category nm c) \<longrightarrow> c \<in> set (keys Ca))"

text \<open>An arrangement found by \<open>try_perms\<close> is an arrangement of the names for which the body
  succeeded.\<close>

lemma try_perms_Some:
  assumes "try_perms names f dflt = Inr (Some r)"
  shows "names = [] \<and> r = dflt \<or> (\<exists>perm. names \<noteq> [] \<and> mset perm = mset names \<and> f perm = Inr (Some r))"
proof -
  obtain ps where ps: "perm_list names = Inr ps" using heap_perms.perms_total by blast
  show ?thesis
  proof (cases "names = []")
    case True
    then show ?thesis using assms by (simp add: try_perms_def)
  next
    case False
    with assms ps have "search f ps = Inr (Some r)"
      by (auto simp: try_perms_def bindE_eq_Inr split: option.splits)
    from search_Some [OF this] show ?thesis using False heap_perms.perms_mem [OF ps] by blast
  qed
qed

definition tensor_inv :: "node \<Rightarrow> dim obj \<Rightarrow> dim obj \<Rightarrow> bool" where
  "tensor_inv source dimMap u =
     (truthy_node source \<and> wf_obj dimMap \<and> truthy_map (map_of dimMap) \<and>
      wf_obj u \<and> keeps (map_of dimMap) (map_of u) \<and> truthy_map (map_of u))"

definition tensor_sat :: "node \<Rightarrow> node \<Rightarrow> dim obj \<Rightarrow> dim obj \<Rightarrow> string \<Rightarrow> string \<Rightarrow> bool" where
  "tensor_sat self source dimMap u k k' =
     (\<exists>nm as sd nm' bs sd'. map_of (node_fields self) k = Some (Tensor nm as sd) \<and>
        map_of (node_fields source) k' = Some (Tensor nm' bs sd') \<and> dim_sol (map_of dimMap ++ map_of u) as bs)"

lemma tensor_body_sound:
  assumes inv: "tensor_inv source dimMap u" and body: "tensor_body self source dimMap k k' u = Inr (Some u')"
  shows "tensor_inv source dimMap u' \<and> map_of dimMap ++ map_of u \<subseteq>\<^sub>m map_of dimMap ++ map_of u'
    \<and> tensor_sat self source dimMap u' k k'"
proof -
  have wf: "wf_obj dimMap" "wf_obj u" and keep: "keeps (map_of dimMap) (map_of u)" and ty: "truthy_map (map_of u)"
    using inv by (auto simp: tensor_inv_def)
  let ?m = "obj_assign u dimMap"
  have m: "map_of ?m = map_of dimMap ++ map_of u" using wf keeps_commute [OF keep] by simp
  from body obtain nm as sd nm' bs sd' new where a: "map_of (node_fields self) k = Some (Tensor nm as sd)"
    and b: "map_of (node_fields source) k' = Some (Tensor nm' bs sd')"
    and run: "matchDimList as bs ?m = (True, new)" and u': "u' = obj_assign u new"
    by (auto simp: tensor_body_def bindE_eq_Inr matchTensor_def split: option.splits field.splits if_splits)
  have "wf_obj ?m" using wf by simp
  from dim_search.mdl_sound [OF this run] have wfn: "wf_obj new"
    and ext: "dim_ext (map_of ?m) (map_of ?m ++ map_of new)" and sol: "dim_sol (map_of ?m ++ map_of new) as bs" by auto
  have k1: "keeps (map_of dimMap ++ map_of u) (map_of new)" using ext by (simp add: keeps_def dim_ext_def m)
  have eq: "map_of dimMap ++ map_of u' = (map_of dimMap ++ map_of u) ++ map_of new" using wfn by (simp add: u')
  have "truthy_map (map_of new)"
    using matchDimList_names [of as bs ?m] run inv b by (fastforce simp: truthy_map_def tensor_inv_def truthy_node_def)
  then have "tensor_inv source dimMap u'"
    using inv wfn k1 ty keeps_trans [OF keep k1] by (simp add: tensor_inv_def u' truthy_map_add)
  moreover have "tensor_sat self source dimMap u' k k'"
    using a b sol unfolding tensor_sat_def eq m by blast
  ultimately show ?thesis unfolding eq using keeps_le [OF k1] by simp
qed

interpretation tensor_loop: incremental_matcher
  "\<lambda>u u'. map_of dimMap ++ map_of u \<subseteq>\<^sub>m map_of dimMap ++ map_of u'"
  "tensor_body self source dimMap" "tensor_sat self source dimMap" "tensor_inv source dimMap" "\<lambda>_ _. True"
  for self source dimMap
proof
  fix u u' a b
  assume "map_of dimMap ++ map_of u \<subseteq>\<^sub>m map_of dimMap ++ map_of u'" "tensor_sat self source dimMap u a b"
  then show "tensor_sat self source dimMap u' a b" by (auto simp: tensor_sat_def dest: dim_sol_mono)
qed (auto dest: tensor_body_sound intro: map_le_trans)

text \<open>The state of the category loop, on top of the maps the node was given.\<close>

definition category_env :: "dim obj \<Rightarrow> string obj \<Rightarrow> dim obj \<times> string obj \<Rightarrow> (string \<rightharpoonup> dim) \<times> (string \<rightharpoonup> string)" where
  "category_env dimMap classNameMap st = (map_of dimMap ++ map_of (fst st), map_of classNameMap ++ map_of (snd st))"

definition env_le :: "(string \<rightharpoonup> dim) \<times> (string \<rightharpoonup> string) \<Rightarrow> (string \<rightharpoonup> dim) \<times> (string \<rightharpoonup> string) \<Rightarrow> bool" where
  "env_le e e' = (fst e \<subseteq>\<^sub>m fst e' \<and> snd e \<subseteq>\<^sub>m snd e')"

definition env_ok :: "sclass obj \<Rightarrow> sclass obj \<Rightarrow> (string \<rightharpoonup> dim) \<times> (string \<rightharpoonup> string) \<Rightarrow> bool" where
  "env_ok Ca Cb e = (truthy_map (fst e) \<and> classes_agree Ca Cb (fst e) (snd e))"

definition category_inv ::
  "node \<Rightarrow> dim obj \<Rightarrow> string obj \<Rightarrow> sclass obj \<Rightarrow> sclass obj \<Rightarrow> dim obj \<times> string obj \<Rightarrow> bool" where
  "category_inv self dimMap classNameMap Ca Cb st =
     (declared_classes Ca self \<and> truthy_classes Cb \<and> wf_obj dimMap \<and> wf_obj classNameMap \<and>
      wf_obj (fst st) \<and> wf_obj (snd st) \<and>
      keeps (map_of dimMap) (map_of (fst st)) \<and> keeps (map_of classNameMap) (map_of (snd st)) \<and>
      env_ok Ca Cb (category_env dimMap classNameMap st))"

definition category_sat :: "node \<Rightarrow> node \<Rightarrow> string obj \<Rightarrow> dim obj \<times> string obj \<Rightarrow> string \<Rightarrow> string \<Rightarrow> bool" where
  "category_sat self source classNameMap st k k' =
     (\<exists>nm c nm' d. map_of (node_fields self) k = Some (Category nm c) \<and>
        map_of (node_fields source) k' = Some (Category nm' d) \<and> (map_of classNameMap ++ map_of (snd st)) c = Some d)"

lemma map_le_Some: "m \<subseteq>\<^sub>m m' \<Longrightarrow> m k = Some v \<Longrightarrow> m' k = Some v"
  by (force simp: map_le_def dom_def)

lemma category_body_sound:
  assumes cand: "map_of (node_fields self) k = Some (Category nm c)"
    and inv: "category_inv self dimMap classNameMap Ca Cb st"
    and body: "category_body self source dimMap classNameMap Ca Cb k k' st = Inr (Some st')"
  shows "category_inv self dimMap classNameMap Ca Cb st'
    \<and> env_le (category_env dimMap classNameMap st) (category_env dimMap classNameMap st')
    \<and> category_sat self source classNameMap st' k k'"
proof -
  obtain u v where st: "st = (u, v)" by (cases st)
  have wf: "wf_obj u" "wf_obj v" and keep: "keeps (map_of dimMap) (map_of u)" "keeps (map_of classNameMap) (map_of v)"
    and T: "truthy_map (map_of dimMap ++ map_of u)" "truthy_classes Cb"
    and agree: "classes_agree Ca Cb (map_of dimMap ++ map_of u) (map_of classNameMap ++ map_of v)"
    using inv by (auto simp: category_inv_def st env_ok_def category_env_def)
  have c: "c \<in> set (keys Ca)" using inv cand by (auto simp: category_inv_def declared_classes_def)
  let ?ds = "obj_assign dimMap u" and ?cs = "obj_assign classNameMap v"
  have maps: "map_of ?ds = map_of dimMap ++ map_of u" "map_of ?cs = map_of classNameMap ++ map_of v" using wf by simp_all
  from body obtain g u1 v1 where g: "map_of (node_fields source) k' = Some g"
    and run: "matchCategory (Some (Category nm c)) (Some g) ?ds ?cs Ca Cb = Inr (True, u1, v1)"
    and st': "st' = (obj_assign u u1, obj_assign v v1)"
    by (cases "map_of (node_fields source) k'")
      (auto simp: category_body_def st cand bindE_eq_Inr matchCategory_def split: if_splits)
  from matchCategory_sound [OF run c] T agree maps
  have wf1: "wf_obj u1" "wf_obj v1"
    and k1: "keeps (map_of dimMap ++ map_of u) (map_of u1)" "keeps (map_of classNameMap ++ map_of v) (map_of v1)"
    and T1: "truthy_map (map_of u1)"
    and agree1: "classes_agree Ca Cb ((map_of dimMap ++ map_of u) ++ map_of u1) ((map_of classNameMap ++ map_of v) ++ map_of v1)"
    and sat: "\<exists>nm' d. g = Category nm' d \<and> ((map_of classNameMap ++ map_of v) ++ map_of v1) c = Some d"
    by auto
  have eq: "map_of dimMap ++ map_of (fst st') = (map_of dimMap ++ map_of u) ++ map_of u1"
    "map_of classNameMap ++ map_of (snd st') = (map_of classNameMap ++ map_of v) ++ map_of v1"
    using wf1 by (simp_all add: st')
  have "category_inv self dimMap classNameMap Ca Cb st'"
    using inv wf wf1 keeps_trans [OF keep(1) k1(1)] keeps_trans [OF keep(2) k1(2)] agree1 truthy_map_add [OF T(1) T1]
    by (simp add: category_inv_def env_ok_def category_env_def st')
  moreover have "category_sat self source classNameMap st' k k'"
    using cand g sat unfolding category_sat_def eq by auto
  ultimately show ?thesis
    using keeps_le [OF k1(1)] keeps_le [OF k1(2)] by (simp add: env_le_def category_env_def eq st)
qed

interpretation category_loop: incremental_matcher
  "\<lambda>st st'. env_le (category_env dimMap classNameMap st) (category_env dimMap classNameMap st')"
  "category_body self source dimMap classNameMap Ca Cb" "category_sat self source classNameMap"
  "category_inv self dimMap classNameMap Ca Cb"
  "\<lambda>k k'. \<exists>nm c. map_of (node_fields self) k = Some (Category nm c)"
  for self source dimMap classNameMap Ca Cb
proof
  fix st st' a b
  assume "env_le (category_env dimMap classNameMap st) (category_env dimMap classNameMap st')"
    "category_sat self source classNameMap st a b"
  then show "category_sat self source classNameMap st' a b"
    unfolding category_sat_def env_le_def category_env_def snd_conv by (meson map_le_Some)
next
  fix st st' a b
  assume "\<exists>nm c. map_of (node_fields self) a = Some (Category nm c)" "category_inv self dimMap classNameMap Ca Cb st"
    "category_body self source dimMap classNameMap Ca Cb a b st = Inr (Some st')"
  then show "category_inv self dimMap classNameMap Ca Cb st'
      \<and> env_le (category_env dimMap classNameMap st) (category_env dimMap classNameMap st')
      \<and> category_sat self source classNameMap st' a b"
    using category_body_sound by blast
qed (auto simp: env_le_def intro: map_le_trans)

subsection \<open>A node\<close>

lemma put_names_assign: "put_names xs ys m = obj_assign m (zip xs ys)"
  by (simp add: put_names_def obj_assign_def)

lemma wf_obj_zip: "distinct xs \<Longrightarrow> wf_obj (zip xs ys)"
  unfolding wf_obj_def keys_def
  by (induction xs arbitrary: ys) (auto simp: zip_Cons1 dest: set_zip_leftD split: list.splits)

lemma updates_absorb:
  assumes "m ++ u \<subseteq>\<^sub>m m ++ v"
  shows "m ++ (u ++ v) = m ++ v"
proof
  fix k
  show "(m ++ (u ++ v)) k = (m ++ v) k"
  proof (cases "v k")
    case None
    then show ?thesis
    proof (cases "u k")
      case (Some x)
      then have "(m ++ v) k = Some x" by (intro map_le_Some [OF assms]) simp
      with None Some show ?thesis by (simp add: map_add_def)
    qed (simp add: map_add_def None)
  qed (simp add: map_add_def)
qed

lemma bij_zip:
  assumes "distinct xs" "distinct ys" "length xs = length ys"
  shows "bij_betw (\<lambda>x. key_of (map_of (zip xs ys) x)) (set xs) (set ys)"
proof (rule bij_betw_imageI)
  let ?f = "\<lambda>x. key_of (map_of (zip xs ys) x)"
  have nth: "?f (xs ! i) = ys ! i" if "i < length xs" for i
    using map_of_zip_nth [OF assms(3,1)] that assms(3) by (simp add: key_of_def)
  show "inj_on ?f (set xs)"
    using nth assms(2,3) by (auto simp: inj_on_def in_set_conv_nth nth_eq_iff_index_eq)
  show "?f ` set xs = set ys"
  proof
    show "?f ` set xs \<subseteq> set ys" using nth assms(3) by (auto simp: in_set_conv_nth [of _ xs])
    show "set ys \<subseteq> ?f ` set xs"
    proof
      fix y assume "y \<in> set ys"
      then obtain i where "i < length ys" "y = ys ! i" by (auto simp: in_set_conv_nth)
      then show "y \<in> ?f ` set xs" using nth [of i] assms(3) by (metis image_eqI nth_mem)
    qed
  qed
qed

text \<open>Objects have each property once.\<close>

definition proper_node :: "node \<Rightarrow> bool" where
  "proper_node n = (wf_obj (node_fields n) \<and> wf_obj (node_links n))"

lemma map_of_wf_obj: "wf_obj ob \<Longrightarrow> (k, v) \<in> set ob \<longleftrightarrow> map_of ob k = Some v"
  by (simp add: wf_obj_def keys_def)

lemma keys_filter:
  "wf_obj ob \<Longrightarrow> distinct (keys (filter (\<lambda>(k, v). P v) ob))
    \<and> set (keys (filter (\<lambda>(k, v). P v) ob)) = {k. \<exists>v. map_of ob k = Some v \<and> P v}"
  by (auto simp: map_of_wf_obj [symmetric] keys_def wf_obj_def distinct_map_filter) force

lemma tensor_names_props:
  assumes "wf_obj (node_fields n)"
  shows "distinct (tensor_names n)" and "distinct (category_names n)"
    and "k \<in> set (tensor_names n) \<longleftrightarrow> (\<exists>nm ds sd. map_of (node_fields n) k = Some (Tensor nm ds sd))"
    and "k \<in> set (category_names n) \<longleftrightarrow> (\<exists>nm c. map_of (node_fields n) k = Some (Category nm c))"
    and "set (tensor_names n) \<inter> set (category_names n) = {}"
    and "set (tensor_names n) \<union> set (category_names n) = set (keys (node_fields n))"
proof -
  note f = keys_filter [OF assms, of is_tensor] keys_filter [OF assms, of "\<lambda>f. \<not> is_tensor f"]
  have t: "is_tensor f \<longleftrightarrow> (\<exists>nm ds sd. f = Tensor nm ds sd)" and c: "\<not> is_tensor f \<longleftrightarrow> (\<exists>nm c. f = Category nm c)" for f
    by (cases f; simp add: is_tensor_def)+
  show "distinct (tensor_names n)" "distinct (category_names n)"
    using f by (simp_all add: tensor_names_def category_names_def)
  show "k \<in> set (tensor_names n) \<longleftrightarrow> (\<exists>nm ds sd. map_of (node_fields n) k = Some (Tensor nm ds sd))"
    using f(1) t by (auto simp: tensor_names_def)
  show "k \<in> set (category_names n) \<longleftrightarrow> (\<exists>nm c. map_of (node_fields n) k = Some (Category nm c))"
    using f(2) c by (auto simp: category_names_def)
  show "set (tensor_names n) \<inter> set (category_names n) = {}"
    using f by (auto simp: tensor_names_def category_names_def)
  show "set (tensor_names n) \<union> set (category_names n) = set (keys (node_fields n))"
    using f by (auto simp: tensor_names_def category_names_def in_keys_iff)
qed

lemma match_tensors_sound:
  assumes run: "match_tensors self source dimMap = Inr (Some (u, perm))"
    and len: "length (tensor_names self) = length (tensor_names source)"
    and inv: "tensor_inv source dimMap []"
  shows "mset perm = mset (tensor_names source) \<and> tensor_inv source dimMap u
    \<and> (\<forall>(k, k') \<in> set (zip (tensor_names self) perm). tensor_sat self source dimMap u k k')"
proof -
  from try_perms_Some [OF run [unfolded match_tensors_def]]
  consider "tensor_names source = []" "u = []" "perm = []"
    | u1 where "mset perm = mset (tensor_names source)" "u = obj_assign [] u1"
        "for_pairs (tensor_body self source dimMap) False (zip (tensor_names self) perm) [] = Inr (True, u1)"
    by (fastforce simp: bindE_eq_Inr split: if_splits)
  then show ?thesis
  proof cases
    case 1
    then show ?thesis using inv len by simp
  next
    case 2
    from tensor_loop.for_pairs_sound [OF 2(3) inv] have "tensor_inv source dimMap u1"
      and "\<forall>(k, k') \<in> set (zip (tensor_names self) perm). tensor_sat self source dimMap u1 k k'" by auto
    then show ?thesis using 2 by (auto simp: tensor_inv_def tensor_sat_def)
  qed
qed

lemma match_categories_sound:
  assumes run: "match_categories self source dimMap classNameMap Ca Cb u = Inr (Some ((d, c), perm))"
    and len: "length (category_names self) = length (category_names source)" and wf: "wf_obj (node_fields self)"
    and inv: "category_inv self dimMap classNameMap Ca Cb (u, [])"
  shows "mset perm = mset (category_names source) \<and> category_inv self dimMap classNameMap Ca Cb (d, c)
    \<and> env_le (category_env dimMap classNameMap (u, [])) (category_env dimMap classNameMap (d, c))
    \<and> (\<forall>(k, k') \<in> set (zip (category_names self) perm). category_sat self source classNameMap (d, c) k k')"
proof -
  from try_perms_Some [OF run [unfolded match_categories_def]]
  consider "category_names source = []" "d = u" "c = []" "perm = []"
    | u1 v1 where "mset perm = mset (category_names source)" "d = obj_assign u u1" "c = obj_assign [] v1"
        "for_pairs (category_body self source dimMap classNameMap Ca Cb) False (zip (category_names self) perm) (obj_assign [] u, []) = Inr (True, (u1, v1))"
    by (fastforce simp: bindE_eq_Inr split: if_splits)
  then show ?thesis
  proof cases
    case 1
    then show ?thesis using inv len by (simp add: env_le_def)
  next
    case 2
    have wfu: "wf_obj u" using inv by (simp add: category_inv_def)
    have cand: "\<forall>(k, k') \<in> set (zip (category_names self) perm). \<exists>nm c. map_of (node_fields self) k = Some (Category nm c)"
      using tensor_names_props(4) [OF wf] by (auto dest: set_zip_leftD)
    have inv0: "category_inv self dimMap classNameMap Ca Cb (obj_assign [] u, [])"
      using inv wfu by (simp add: category_inv_def category_env_def)
    from category_loop.for_pairs_sound [OF 2(4) inv0 cand]
    have inv1: "category_inv self dimMap classNameMap Ca Cb (u1, v1)"
      and le: "env_le (category_env dimMap classNameMap (obj_assign [] u, [])) (category_env dimMap classNameMap (u1, v1))"
      and sat: "\<forall>(k, k') \<in> set (zip (category_names self) perm). category_sat self source classNameMap (u1, v1) k k'" by auto
    have "map_of dimMap ++ map_of u \<subseteq>\<^sub>m map_of dimMap ++ map_of u1"
      using le wfu by (simp add: env_le_def category_env_def)
    then have d: "map_of dimMap ++ map_of d = map_of dimMap ++ map_of u1"
      using updates_absorb inv1 2(2) by (simp add: category_inv_def)
    have c: "map_of c = map_of v1" and wfc: "wf_obj c" "wf_obj d"
      using 2 inv1 wfu by (auto simp: category_inv_def)
    have env: "category_env dimMap classNameMap (d, c) = category_env dimMap classNameMap (u1, v1)"
      by (simp add: category_env_def d c)
    have "category_inv self dimMap classNameMap Ca Cb (d, c)"
      using inv1 wfc unfolding category_inv_def env keeps_def by (simp add: d c)
    then show ?thesis using 2(1) le sat wfu unfolding env by (auto simp: category_env_def category_sat_def c)
  qed
qed

lemma match_links_sound:
  assumes "match_links ls sl nm = Inr True" and "\<forall>(k, l) \<in> set sl. wf_link l"
  shows "\<forall>(n, l) \<in> set ls. \<exists>l'. map_of sl (source_node_name nm n) = Some l' \<and> link_accepts l l'"
  using assms(1)
proof (induction ls)
  case (Cons nl ls)
  obtain n l where nl: "nl = (n, l)" by (cases nl)
  let ?s = "source_node_name nm n"
  from Cons.prems obtain l' where l': "map_of sl ?s = Some l'" and m: "matchLink l (Some l') = Inr True"
    and rest: "match_links ls sl nm = Inr True"
    by (cases "map_of sl ?s") (auto simp: nl Let_def bindE_eq_Inr matchLink_def [of _ None] split: if_splits)
  have "wf_link l'" using assms(2) map_of_SomeD [OF l'] by auto
  with Cons.IH [OF rest] l' matchLink_sound [OF _ m] show ?case by (auto simp: nl)
qed simp

text \<open>The pairs of the two loops make one bijection of the fields.\<close>

lemma fields_accept_zip:
  assumes wf: "wf_obj (node_fields a)" "wf_obj (node_fields b)"
    and tp: "mset tp = mset (tensor_names b)" "length (tensor_names a) = length tp"
    and cp: "mset cp = mset (category_names b)" "length (category_names a) = length cp"
    and fm: "fm = put_names (category_names a) cp (put_names (tensor_names a) tp [])"
    and sat: "\<And>k k' f g. (k, k') \<in> set (zip (tensor_names a) tp) \<or> (k, k') \<in> set (zip (category_names a) cp) \<Longrightarrow>
        \<exists>f g. map_of (node_fields a) k = Some f \<and> map_of (node_fields b) k' = Some g \<and> field_accepts \<delta> \<gamma> f g"
  shows "fields_accept \<delta> \<gamma> (\<lambda>k. key_of (map_of fm k)) (node_fields a) (node_fields b)
    \<and> dom (map_of fm) = set (keys (node_fields a))"
proof -
  let ?xs = "tensor_names a @ category_names a" and ?ys = "tp @ cp"
  note A = tensor_names_props [OF wf(1)] and B = tensor_names_props [OF wf(2)]
  have dx: "distinct ?xs" and sx: "set ?xs = set (keys (node_fields a))" using A by auto
  have sets: "set tp = set (tensor_names b)" "set cp = set (category_names b)"
    using tp(1) cp(1) by (auto dest: mset_eq_setD)
  have "distinct tp" "distinct cp" using tp(1) cp(1) B(1,2) by (metis distinct_count_atmost_1 set_mset_mset)+
  then have dy: "distinct ?ys" and sy: "set ?ys = set (keys (node_fields b))" using B(5,6) sets by auto
  have len: "length ?xs = length ?ys" using tp(2) cp(2) by simp
  have z: "zip ?xs ?ys = zip (tensor_names a) tp @ zip (category_names a) cp" using tp(2) by simp
  have wfz: "wf_obj (zip ?xs ?ys)" using wf_obj_zip [OF dx] .
  have "map_of fm = map_of (zip (tensor_names a) tp) ++ map_of (zip (category_names a) cp)"
    using A(1,2) by (simp add: fm put_names_assign wf_obj_zip)
  also have "\<dots> = map_of (zip ?xs ?ys)"
    using A(5) tp(2) cp(2) unfolding z map_of_append by (intro map_add_comm) auto
  finally have m: "map_of fm = map_of (zip ?xs ?ys)" .
  have "\<exists>g. map_of (node_fields b) (key_of (map_of fm k)) = Some g \<and> field_accepts \<delta> \<gamma> f g"
    if "(k, f) \<in> set (node_fields a)" for k f
  proof -
    have k: "map_of (node_fields a) k = Some f" using that map_of_wf_obj [OF wf(1)] by simp
    then have "k \<in> set ?xs" using sx by (auto simp: in_keys_iff)
    then obtain k' where kk: "map_of (zip ?xs ?ys) k = Some k'" using len by (metis map_of_zip_is_Some)
    then have "(k, k') \<in> set (zip ?xs ?ys)" using wfz by (simp add: map_of_wf_obj)
    with sat [of k k'] k show ?thesis unfolding z by (auto simp: m kk key_of_def)
  qed
  moreover have "dom (map_of fm) = set ?xs" using len by (simp add: m)
  ultimately show ?thesis
    using bij_zip [OF dx dy len] unfolding fields_accept_def m sx sy by auto
qed

lemma tensor_sat_accepts:
  assumes "tensor_sat a b ds u k k'" and "map_of ds ++ map_of u \<subseteq>\<^sub>m \<delta>"
  shows "\<exists>f g. map_of (node_fields a) k = Some f \<and> map_of (node_fields b) k' = Some g \<and> field_accepts \<delta> \<gamma> f g"
  using assms dim_sol_mono [OF _ assms(2)] by (auto simp: tensor_sat_def field_accepts_def)

lemma category_sat_accepts:
  assumes "category_sat a b cs (nd, nc) k k'"
  shows "\<exists>f g. map_of (node_fields a) k = Some f \<and> map_of (node_fields b) k' = Some g
    \<and> field_accepts \<delta> (map_of cs ++ map_of nc) f g"
proof -
  obtain nm c nm' d where "map_of (node_fields a) k = Some (Category nm c)"
    "map_of (node_fields b) k' = Some (Category nm' d)" "(map_of cs ++ map_of nc) c = Some d"
    using assms unfolding category_sat_def snd_conv by (elim exE conjE) (rule that)
  then show ?thesis
    by (intro exI [of _ "Category nm c"] exI [of _ "Category nm' d"] conjI) (simp_all only: field_accepts_def field.case)
qed

lemma matchNode_found_fields:
  assumes mt: "match_tensors a b ds = Inr (Some (u, tp))"
    and mc: "match_categories a b ds cs Ca Cb u = Inr (Some ((nd, nc), cp))"
    and fm: "fm = put_names (category_names a) cp (put_names (tensor_names a) tp [])"
    and counts: "counts_match a b" and wf: "proper_node a" "proper_node b" "wf_obj ds" "wf_obj cs"
    and const: "truthy_node b" "declared_classes Ca a" "truthy_classes Cb"
    and ok: "env_ok Ca Cb (map_of ds, map_of cs)"
  shows "wf_obj nd \<and> wf_obj nc \<and> keeps (map_of ds) (map_of nd) \<and> keeps (map_of cs) (map_of nc)
    \<and> env_ok Ca Cb (map_of ds ++ map_of nd, map_of cs ++ map_of nc)
    \<and> fields_accept (map_of ds ++ map_of nd) (map_of cs ++ map_of nc) (\<lambda>k. key_of (map_of fm k)) (node_fields a) (node_fields b)
    \<and> dom (map_of fm) = set (keys (node_fields a))"
proof -
  have len: "length (tensor_names a) = length (tensor_names b)" "length (category_names a) = length (category_names b)"
    using counts by (auto simp: counts_match_def)
  have inv0: "tensor_inv b ds []" using const wf ok by (simp add: tensor_inv_def env_ok_def truthy_map_def)
  from match_tensors_sound [OF mt len(1) inv0] have tp: "mset tp = mset (tensor_names b)"
    and inv1: "tensor_inv b ds u"
    and tsat: "\<And>k k'. (k, k') \<in> set (zip (tensor_names a) tp) \<Longrightarrow> tensor_sat a b ds u k k'" by auto
  have u: "wf_obj u" "keeps (map_of ds) (map_of u)" "truthy_map (map_of u)" using inv1 by (auto simp: tensor_inv_def)
  have cinv0: "category_inv a ds cs Ca Cb (u, [])"
    using const wf u ok classes_agree_mono [OF _ keeps_le [OF u(2)]]
    by (auto simp: category_inv_def env_ok_def category_env_def truthy_map_add)
  have wfa: "wf_obj (node_fields a)" and wfb: "wf_obj (node_fields b)" using wf by (auto simp: proper_node_def)
  from match_categories_sound [OF mc len(2) wfa cinv0] have cp: "mset cp = mset (category_names b)"
    and cinv: "category_inv a ds cs Ca Cb (nd, nc)"
    and le: "env_le (category_env ds cs (u, [])) (category_env ds cs (nd, nc))"
    and csat: "\<And>k k'. (k, k') \<in> set (zip (category_names a) cp) \<Longrightarrow> category_sat a b cs (nd, nc) k k'" by auto
  let ?\<delta> = "map_of ds ++ map_of nd" and ?\<gamma> = "map_of cs ++ map_of nc"
  have "map_of ds ++ map_of u \<subseteq>\<^sub>m ?\<delta>" using le by (simp add: env_le_def category_env_def)
  then have sat: "\<exists>f g. map_of (node_fields a) k = Some f \<and> map_of (node_fields b) k' = Some g \<and> field_accepts ?\<delta> ?\<gamma> f g"
    if "(k, k') \<in> set (zip (tensor_names a) tp) \<or> (k, k') \<in> set (zip (category_names a) cp)" for k k'
    using that tensor_sat_accepts [OF tsat] category_sat_accepts [OF csat] by auto
  have lens: "length (tensor_names a) = length tp" "length (category_names a) = length cp"
    using len tp cp by (metis size_mset)+
  have "fields_accept ?\<delta> ?\<gamma> (\<lambda>k. key_of (map_of fm k)) (node_fields a) (node_fields b) \<and> dom (map_of fm) = set (keys (node_fields a))"
    by (rule fields_accept_zip [OF wfa wfb tp lens(1) cp lens(2) fm]) (rule sat)
  with cinv show ?thesis by (simp add: category_inv_def category_env_def)
qed

lemma matchNode_found_sound:
  assumes run: "matchNode_found a b ds cs Ca Cb build = Inr (r, nd, nc)" and r: "is_match build r"
    and counts: "counts_match a b" and wf: "proper_node a" "proper_node b" "wf_obj ds" "wf_obj cs"
    and const: "truthy_node b" "declared_classes Ca a" "truthy_classes Cb"
    and ok: "env_ok Ca Cb (map_of ds, map_of cs)"
  shows "wf_obj nd \<and> wf_obj nc \<and> keeps (map_of ds) (map_of nd) \<and> keeps (map_of cs) (map_of nc)
    \<and> env_ok Ca Cb (map_of ds ++ map_of nd, map_of cs ++ map_of nc)
    \<and> (\<exists>fm. fields_accept (map_of ds ++ map_of nd) (map_of cs ++ map_of nc) (\<lambda>k. key_of (map_of fm k)) (node_fields a) (node_fields b)
         \<and> dom (map_of fm) = set (keys (node_fields a)) \<and> (\<forall>n. r = MVal n \<longrightarrow> build_node a b fm = Inr n))"
proof -
  have nm: "\<not> is_match build (no_match build)" by (simp add: is_match_def no_match_def)
  from run r nm obtain u tp where mt: "match_tensors a b ds = Inr (Some (u, tp))"
    by (auto simp: matchNode_found_def bindE_eq_Inr split: option.splits)
  from run r nm mt obtain d c cp where mc: "match_categories a b ds cs Ca Cb u = Inr (Some ((d, c), cp))"
    by (auto simp: matchNode_found_def bindE_eq_Inr split: option.splits)
  from run mt mc have "d = nd" "c = nc" "\<forall>n. r = MVal n \<longrightarrow>
      build_node a b (put_names (category_names a) cp (put_names (tensor_names a) tp [])) = Inr n"
    by (auto simp: matchNode_found_def bindE_eq_Inr split: if_splits)
  then show ?thesis using matchNode_found_fields [OF mt _ refl counts wf const ok] mc by blast
qed

lemma matchNode_sound:
  assumes run: "matchNode (Some a) (Some b) ds cs nm Ca Cb build = Inr (r, nd, nc)" and r: "is_match build r"
    and wf: "proper_node a" "proper_node b" "wf_obj ds" "wf_obj cs" "\<forall>(k, l) \<in> set (node_links b). wf_link l"
    and const: "truthy_node b" "declared_classes Ca a" "truthy_classes Cb"
    and ok: "env_ok Ca Cb (map_of ds, map_of cs)"
  shows "wf_obj nd \<and> wf_obj nc \<and> keeps (map_of ds) (map_of nd) \<and> keeps (map_of cs) (map_of nc)
    \<and> env_ok Ca Cb (map_of ds ++ map_of nd, map_of cs ++ map_of nc)
    \<and> (\<exists>fm. node_accepts (map_of ds ++ map_of nd) (map_of cs ++ map_of nc) (source_node_name nm) (\<lambda>k. key_of (map_of fm k)) a b
         \<and> dom (map_of fm) = set (keys (node_fields a)) \<and> (\<forall>n. r = MVal n \<longrightarrow> build_node a b fm = Inr n))"
proof -
  have nm: "\<not> is_match build (no_match build)" by (simp add: is_match_def no_match_def)
  from run r nm have counts: "counts_match a b" and ml: "match_links (node_links a) (node_links b) nm = Inr True"
    and found: "matchNode_found a b ds cs Ca Cb build = Inr (r, nd, nc)"
    by (auto simp: matchNode_def bindE_eq_Inr split: if_splits)
  from match_links_sound [OF ml wf(5)] counts have "links_accept (source_node_name nm) (node_links a) (node_links b)"
    by (simp add: links_accept_def counts_match_def)
  with matchNode_found_sound [OF found r counts wf(1-4) const ok] show ?thesis
    by (auto simp: node_accepts_def)
qed

subsection \<open>The loops over nodes\<close>

lemma base_of_truthy: "wf_dim d \<Longrightarrow> dim_truthy (base_of d)"
proof (cases d)
  case (DStr s)
  assume "wf_dim d"
  then have "name_format s \<or> ends_wild s \<and> name_format (butlast s)" by (simp add: DStr wf_dim_def dim_format_def)
  then show ?thesis
    using name_not_wild [of s] by (auto simp: DStr base_of_def dim_truthy_def name_format_def split: list.splits)
qed (simp add: wf_dim_def dim_truthy_def)

lemma wf_node_truthy: "wf_node b \<Longrightarrow> truthy_node b"
  by (fastforce simp: truthy_node_def wf_node_def wf_field_def list_all_iff intro: base_of_truthy dest: map_of_SomeD)

lemma wf_classes_truthy:
  assumes "\<forall>(k, c) \<in> set Cb. wf_class c"
  shows "truthy_classes Cb"
  unfolding truthy_classes_def
proof (intro allI impI)
  fix c cb assume "map_of Cb c = Some cb"
  then have "wf_class cb" using assms by (auto dest: map_of_SomeD)
  then show "dim_truthy (class_dim cb)"
    by (auto simp: wf_class_def dim_truthy_def name_format_def split: dim.splits)
qed

definition proper_schema :: "schema \<Rightarrow> bool" where
  "proper_schema s = (wf_obj (nodes s) \<and> wf_obj (categoryClasses s) \<and> (\<forall>(k, n) \<in> set (nodes s). proper_node n))"

text \<open>What the lemmas on the node loops need of the two schemas: properties occur once, the
  destination's categories use classes it declares, and the source is well formed.\<close>

definition matchable :: "schema \<Rightarrow> schema \<Rightarrow> bool" where
  "matchable this source =
     (proper_schema this \<and> proper_schema source \<and>
      (\<forall>(k, n) \<in> set (nodes this). declared_classes (categoryClasses this) n) \<and>
      (\<forall>(k, n) \<in> set (nodes source). wf_node n) \<and> (\<forall>(k, c) \<in> set (categoryClasses source). wf_class c))"

definition maps_env :: "match_maps \<Rightarrow> (string \<rightharpoonup> dim) \<times> (string \<rightharpoonup> string)" where
  "maps_env st = (map_of (fst st), map_of (fst (snd st)))"

definition maps_inv :: "schema \<Rightarrow> schema \<Rightarrow> match_maps \<Rightarrow> bool" where
  "maps_inv this source st =
     (matchable this source \<and> wf_obj (fst st) \<and> wf_obj (fst (snd st)) \<and> wf_obj (snd (snd st)) \<and>
      env_ok (categoryClasses this) (categoryClasses source) (maps_env st))"

text \<open>The partner of a node, and when the result is built, what is recorded for it.\<close>

definition node_good ::
  "schema \<Rightarrow> schema \<Rightarrow> string option obj \<Rightarrow> bool \<Rightarrow> match_maps \<Rightarrow> string option \<Rightarrow> string option \<Rightarrow> node option \<Rightarrow> bool" where
  "node_good this source nm build st k k' r =
     (\<exists>a b fm. map_of (nodes this) (key_of k) = Some a \<and> map_of (nodes source) (key_of k') = Some b \<and>
        node_accepts (fst (maps_env st)) (snd (maps_env st)) (source_node_name nm) (\<lambda>x. key_of (map_of fm x)) a b \<and>
        dom (map_of fm) = set (keys (node_fields a)) \<and>
        (build \<longrightarrow> (\<exists>n. build_node a b fm = Inr n \<and> r = Some (n\<lparr>node_srcName := k'\<rparr>))))"

definition node_record :: "match_maps \<Rightarrow> string option \<Rightarrow> node option" where
  "node_record st k = map_of (snd (snd st)) (key_of k)"

lemma field_accepts_mono:
  assumes "field_accepts \<delta> \<gamma> f g" and "\<delta> \<subseteq>\<^sub>m \<delta>'" and "\<gamma> \<subseteq>\<^sub>m \<gamma>'"
  shows "field_accepts \<delta>' \<gamma>' f g"
  using assms by (auto simp: field_accepts_def intro: dim_sol_mono map_le_Some split: field.splits)

lemma node_accepts_mono:
  "node_accepts \<delta> \<gamma> \<nu> \<phi> a b \<Longrightarrow> \<delta> \<subseteq>\<^sub>m \<delta>' \<Longrightarrow> \<gamma> \<subseteq>\<^sub>m \<gamma>' \<Longrightarrow> node_accepts \<delta>' \<gamma>' \<nu> \<phi> a b"
  unfolding node_accepts_def fields_accept_def by (fastforce dest: field_accepts_mono)

lemma node_good_mono:
  "env_le (maps_env st) (maps_env st') \<Longrightarrow> node_good this source nm build st k k' r \<Longrightarrow> node_good this source nm build st' k k' r"
  unfolding node_good_def env_le_def
  by (elim exE conjE, intro exI conjI) (assumption | erule (2) node_accepts_mono)+

lemma node_step_sound:
  assumes inv: "maps_inv this source st" and maps: "wf_obj ds" "wf_obj cs" "(map_of ds, map_of cs) = maps_env st"
    and step: "node_step this source build ds cs nm k k' st = Inr (Some st')"
  shows "maps_inv this source st' \<and> env_le (maps_env st) (maps_env st')
    \<and> node_good this source nm build st' k k' (node_record st' k)"
proof -
  let ?Ca = "categoryClasses this" and ?Cb = "categoryClasses source"
  obtain d c ns where st: "st = (d, c, ns)" by (cases st)
  have eq: "map_of ds = map_of d" "map_of cs = map_of c" using maps(3) by (auto simp: maps_env_def st)
  from step obtain a b r nd nc where a: "map_of (nodes this) (key_of k) = Some a"
    and b: "map_of (nodes source) (key_of k') = Some b"
    and run: "matchNode (Some a) (Some b) ds cs nm ?Ca ?Cb build = Inr (r, nd, nc)" and r: "is_match build r"
    and st': "st' = (obj_assign d nd, obj_assign c nc,
      case r of MVal n \<Rightarrow> obj_put (key_of k) (n\<lparr>node_srcName := k'\<rparr>) ns | _ \<Rightarrow> ns)"
    by (cases "map_of (nodes this) (key_of k)"; cases "map_of (nodes source) (key_of k')")
      (auto simp: node_step_def st bindE_eq_Inr matchNode_def [of None] matchNode_def [of _ None] split: if_splits)
  from inv have M: "matchable this source" and wfs: "wf_obj d" "wf_obj c" "wf_obj ns"
    and ok: "env_ok ?Ca ?Cb (map_of ds, map_of cs)"
    using maps(3) by (auto simp: maps_inv_def st)
  have A: "(key_of k, a) \<in> set (nodes this)" and B: "(key_of k', b) \<in> set (nodes source)"
    using a b by (auto dest: map_of_SomeD)
  have pa: "proper_node a" "declared_classes ?Ca a" using M A by (auto simp: matchable_def proper_schema_def)
  have pb: "proper_node b" "wf_node b" and wc: "\<forall>(k, c) \<in> set ?Cb. wf_class c"
    using M B by (auto simp: matchable_def proper_schema_def)
  have wl: "\<forall>(k, l) \<in> set (node_links b). wf_link l" using pb(2) by (simp add: wf_node_def)
  from matchNode_sound [OF run r pa(1) pb(1) maps(1,2) wl wf_node_truthy [OF pb(2)] pa(2) wf_classes_truthy [OF wc] ok]
  obtain fm where wf': "wf_obj nd" "wf_obj nc"
    and keep: "keeps (map_of d) (map_of nd)" "keeps (map_of c) (map_of nc)"
    and ok': "env_ok ?Ca ?Cb (map_of d ++ map_of nd, map_of c ++ map_of nc)"
    and acc: "node_accepts (map_of d ++ map_of nd) (map_of c ++ map_of nc) (source_node_name nm) (\<lambda>x. key_of (map_of fm x)) a b"
    and fm: "dom (map_of fm) = set (keys (node_fields a))" "\<forall>n. r = MVal n \<longrightarrow> build_node a b fm = Inr n"
    unfolding eq by blast
  have env': "maps_env st' = (map_of d ++ map_of nd, map_of c ++ map_of nc)" using wf' by (simp add: maps_env_def st')
  have "maps_inv this source st'"
    using M wfs ok' unfolding maps_inv_def env' by (auto simp: st' split: mres.splits)
  moreover have "env_le (maps_env st) (maps_env st')"
    using keeps_le [OF keep(1)] keeps_le [OF keep(2)] unfolding env' by (simp add: env_le_def maps_env_def st)
  moreover have "build \<longrightarrow> (\<exists>n. build_node a b fm = Inr n \<and> node_record st' k = Some (n\<lparr>node_srcName := k'\<rparr>))"
  proof
    assume build
    then obtain n where "r = MVal n"
      using run r by (cases r) (auto simp: matchNode_def matchNode_found_def bindE_eq_Inr no_match_def is_match_def
          split: if_splits option.splits)
    then show "\<exists>n. build_node a b fm = Inr n \<and> node_record st' k = Some (n\<lparr>node_srcName := k'\<rparr>)"
      using fm(2) by (simp add: node_record_def st')
  qed
  then have "node_good this source nm build st' k k' (node_record st' k)"
    using a b acc fm(1) unfolding node_good_def env' fst_conv snd_conv by blast
  ultimately show ?thesis by blast
qed

lemma node_step_frame:
  "k \<noteq> None \<Longrightarrow> j \<noteq> None \<Longrightarrow> j \<noteq> k \<Longrightarrow> node_step this source build ds cs nm k k' st = Inr (Some st') \<Longrightarrow>
   node_record st' j = node_record st j"
  by (cases st) (auto simp: node_step_def bindE_eq_Inr node_record_def key_of_def split: if_splits mres.splits)

interpretation singleton_loop: recording_matcher
  "\<lambda>st st'. env_le (maps_env st) (maps_env st')" "singleton_body this source build"
  "\<lambda>st k k'. \<exists>r. node_good this source [] build st k k' r" "maps_inv this source" "\<lambda>k k'. k \<noteq> None"
  node_record "node_good this source [] build"
  for this source build
proof
  fix st st' k k'
  assume inv: "maps_inv this source st" and step: "singleton_body this source build k k' st = Inr (Some st')"
  have wf: "wf_obj (fst st)" "wf_obj (fst (snd st))" using inv by (auto simp: maps_inv_def)
  note sound = node_step_sound [OF inv _ _ _ step [unfolded singleton_body_def]]
  show "maps_inv this source st' \<and> env_le (maps_env st) (maps_env st') \<and> (\<exists>r. node_good this source [] build st' k k' r)"
    and "node_good this source [] build st' k k' (node_record st' k)"
    using sound wf by (auto simp: maps_env_def)
qed (auto simp: env_le_def singleton_body_def intro: map_le_trans node_step_frame dest: node_good_mono [unfolded env_le_def, rotated])

interpretation nonsingleton_loop: recording_matcher
  "\<lambda>st st'. env_le (maps_env st) (maps_env st')" "nonsingleton_body this source build nm"
  "\<lambda>st k k'. \<exists>r. node_good this source nm build st k k' r" "maps_inv this source" "\<lambda>k k'. k \<noteq> None"
  node_record "node_good this source nm build"
  for this source build nm
proof
  fix st st' k k'
  assume inv: "maps_inv this source st" and step: "nonsingleton_body this source build nm k k' st = Inr (Some st')"
  have wf: "wf_obj (fst st)" "wf_obj (fst (snd st))" using inv by (auto simp: maps_inv_def)
  note sound = node_step_sound [OF inv _ _ _ step [unfolded nonsingleton_body_def]]
  show "maps_inv this source st' \<and> env_le (maps_env st) (maps_env st') \<and> (\<exists>r. node_good this source nm build st' k k' r)"
    and "node_good this source nm build st' k k' (node_record st' k)"
    using sound wf by (auto simp: maps_env_def)
qed (auto simp: env_le_def nonsingleton_body_def intro: map_le_trans node_step_frame dest: node_good_mono [unfolded env_le_def, rotated])

lemma pad_exact [simp]: "length xs = n \<Longrightarrow> pad n xs = map Some xs"
  by (simp add: pad_def)

text \<open>What a loop over the pairs of names leaves: a good record for each destination name, the
  records of other names as they were.\<close>

definition names_good ::
  "schema \<Rightarrow> schema \<Rightarrow> string option obj \<Rightarrow> bool \<Rightarrow> string list \<Rightarrow> string list \<Rightarrow> match_maps \<Rightarrow> bool" where
  "names_good this source nm build xs ys st =
     (\<forall>(k, k') \<in> set (zip xs ys). node_good this source nm build st (Some k) (Some k') (node_record st (Some k)))"

lemma names_good_cong:
  "maps_env st = maps_env st' \<Longrightarrow> (\<And>k. k \<in> set xs \<Longrightarrow> node_record st (Some k) = node_record st' (Some k)) \<Longrightarrow>
   names_good this source nm build xs ys st = names_good this source nm build xs ys st'"
  unfolding names_good_def node_good_def by (fastforce dest: set_zip_leftD)

lemma zip_Some: "set (zip (map Some xs) (map Some ys)) = (\<lambda>(k, k'). (Some k, Some k')) ` set (zip xs ys)"
  by (simp add: zip_map_map)

lemma fst_zip_Some: "length xs = length ys \<Longrightarrow> map fst (zip (map Some xs) (map Some ys)) = map Some xs"
  by simp

lemma match_singletons_sound:
  assumes run: "match_singletons this source build = Inr (Some (found, nm))"
    and len: "length (node_names True this) = length (node_names True source)"
    and dist: "distinct (node_names True this)" and M: "matchable this source"
  shows "\<exists>perm. mset perm = mset (node_names True source) \<and> nm = put_names (node_names True this) (map Some perm) []
    \<and> maps_inv this source found \<and> names_good this source [] build (node_names True this) perm found
    \<and> (\<forall>k. k \<notin> set (node_names True this) \<longrightarrow> node_record found (Some k) = None)"
proof -
  let ?xs = "node_names True this" and ?ys = "node_names True source"
  have inv0: "maps_inv this source ([], [], [])"
    using M by (simp add: maps_inv_def maps_env_def env_ok_def truthy_map_def classes_agree_def)
  from try_perms_Some [OF run [unfolded match_singletons_def Let_def]]
  consider "?ys = []" "found = ([], [], [])" "nm = []"
    | perm d c ns where "mset perm = mset ?ys" "found = (obj_assign [] d, obj_assign [] c, obj_assign [] ns)"
        "nm = put_names ?xs (pad (length ?xs) perm) []"
        "for_pairs (singleton_body this source build) False (zip (pad (length ?ys) ?xs) (map Some perm)) ([], [], []) = Inr (True, d, c, ns)"
    by (fastforce simp: bindE_eq_Inr split: if_splits)
  then show ?thesis
  proof cases
    case 1
    then show ?thesis using inv0 len
      by (intro exI [of _ "[]"]) (auto simp: put_names_def names_good_def node_record_def)
  next
    case 2
    have lp: "length perm = length ?xs" using 2(1) len by (metis size_mset)
    have ps: "zip (pad (length ?ys) ?xs) (map Some perm) = zip (map Some ?xs) (map Some perm)" using len by simp
    have cand: "\<forall>(a, b) \<in> set (zip (map Some ?xs) (map Some perm)). a \<noteq> None" by (auto simp: zip_Some)
    have df: "distinct (map fst (zip (map Some ?xs) (map Some perm)))" using dist lp by (simp add: distinct_map)
    note loop = 2(4) [unfolded ps]
    from singleton_loop.for_pairs_sound [OF loop inv0 cand] have inv: "maps_inv this source (d, c, ns)" by blast
    then have wf: "wf_obj d" "wf_obj c" "wf_obj ns" by (auto simp: maps_inv_def)
    have same: "maps_env found = maps_env (d, c, ns)" "node_record found = node_record (d, c, ns)"
      using wf by (auto simp: 2(2) maps_env_def node_record_def)
    have "names_good this source [] build ?xs perm (d, c, ns)"
      using singleton_loop.for_pairs_good [OF loop inv0 cand df] by (fastforce simp: names_good_def zip_Some)
    then have good: "names_good this source [] build ?xs perm found"
      using names_good_cong [OF same(1)] same(2) by simp
    have "node_record found (Some k) = None" if "k \<notin> set ?xs" for k
    proof -
      have "Some k \<notin> fst ` set (zip (map Some ?xs) (map Some perm))" using that by (auto simp: zip_Some dest: set_zip_leftD)
      from singleton_loop.for_pairs_frame [OF loop cand _ this] show ?thesis unfolding same by (simp add: node_record_def)
    qed
    moreover have "maps_inv this source found"
      using inv wf unfolding maps_inv_def same by (simp add: 2(2))
    ultimately show ?thesis using 2(1,3) good lp by auto
  qed
qed

lemma match_nonsingletons_sound:
  assumes run: "match_nonsingletons this source build found nm = Inr (Some (found', nm'))"
    and len: "length (node_names False this) = length (node_names False source)"
    and dist: "distinct (node_names False this)" and inv: "maps_inv this source found"
    and fresh: "\<forall>k \<in> set (node_names False this). node_record found (Some k) = None"
  shows "\<exists>perm. mset perm = mset (node_names False source) \<and> maps_inv this source found'
    \<and> env_le (maps_env found) (maps_env found')
    \<and> names_good this source (put_names (node_names False this) (map Some perm) (obj_assign [] nm)) build (node_names False this) perm found'
    \<and> (\<forall>k. k \<notin> set (node_names False this) \<longrightarrow> node_record found' (Some k) = node_record found (Some k))"
proof -
  let ?xs = "node_names False this" and ?ys = "node_names False source"
  obtain d0 c0 n0 where found: "found = (d0, c0, n0)" by (cases found)
  have wf0: "wf_obj d0" "wf_obj c0" "wf_obj n0" using inv by (auto simp: found maps_inv_def)
  let ?st0 = "(obj_assign [] d0, obj_assign [] c0, [])"
  have inv0: "maps_inv this source ?st0" using inv wf0 by (simp add: maps_inv_def maps_env_def found)
  from try_perms_Some [OF run [unfolded match_nonsingletons_def Let_def found prod.case]]
  consider "?ys = []" "found' = found"
    | perm d c ns where "mset perm = mset ?ys" "found' = (obj_assign d0 d, obj_assign c0 c, obj_assign n0 ns)"
        "for_pairs (nonsingleton_body this source build (put_names ?xs (pad (length ?xs) perm) (obj_assign [] nm))) False
          (zip (map Some ?xs) (pad (length ?xs) perm)) ?st0 = Inr (True, d, c, ns)"
    by (fastforce simp: bindE_eq_Inr found split: if_splits)
  then show ?thesis
  proof cases
    case 1
    then show ?thesis using inv len
      by (intro exI [of _ "[]"]) (auto simp: names_good_def env_le_def)
  next
    case 2
    have lp: "length perm = length ?xs" using 2(1) len by (metis size_mset)
    let ?nm = "put_names ?xs (map Some perm) (obj_assign [] nm)"
    have cand: "\<forall>(a, b) \<in> set (zip (map Some ?xs) (map Some perm)). a \<noteq> None" by (auto simp: zip_Some)
    have df: "distinct (map fst (zip (map Some ?xs) (map Some perm)))" using dist lp by (simp add: distinct_map)
    note loop = 2(3) [unfolded pad_exact [OF lp]]
    from nonsingleton_loop.for_pairs_sound [OF loop inv0 cand] have inv1: "maps_inv this source (d, c, ns)"
      and le: "env_le (maps_env ?st0) (maps_env (d, c, ns))" by auto
    then have wf: "wf_obj d" "wf_obj c" "wf_obj ns" by (auto simp: maps_inv_def)
    have le': "env_le (maps_env found) (maps_env (d, c, ns))" using le wf0 by (simp add: maps_env_def found)
    have same: "maps_env found' = maps_env (d, c, ns)"
      using le' wf by (simp add: 2(2) maps_env_def found env_le_def map_add_subsumed1)
    have frame: "node_record (d, c, ns) (Some k) = None" if "k \<notin> set ?xs" for k
    proof -
      have "Some k \<notin> fst ` set (zip (map Some ?xs) (map Some perm))" using that by (auto simp: zip_Some dest: set_zip_leftD)
      from nonsingleton_loop.for_pairs_frame [OF loop cand _ this] show ?thesis by (simp add: node_record_def)
    qed
    have rec: "node_record found' (Some k) = (case node_record (d, c, ns) (Some k) of None \<Rightarrow> node_record found (Some k) | Some n \<Rightarrow> Some n)" for k
      using wf by (simp add: node_record_def 2(2) found map_add_def split: option.split)
    have r: "node_record found' (Some k) = node_record (d, c, ns) (Some k)" if "k \<in> set ?xs" for k
      using fresh that by (simp add: rec split: option.split)
    have "names_good this source ?nm build ?xs perm (d, c, ns)"
      using nonsingleton_loop.for_pairs_good [OF loop inv0 cand df] by (fastforce simp: names_good_def zip_Some)
    then have "names_good this source ?nm build ?xs perm found'"
      using names_good_cong [OF same r] by blast
    moreover have "maps_inv this source found'"
      using inv1 wf wf0 unfolding maps_inv_def same by (simp add: 2(2))
    ultimately show ?thesis using 2(1) le' frame unfolding same by (auto simp: rec)
  qed
qed

subsection \<open>Properties\<close>

text \<open>C7. A link of the destination matches a link of the source exactly when every number of links
  that the source admits is admitted by the destination; a missing source link fails the
  assertion.\<close>

theorem matchLink_containment:
  assumes "wf_link b"
  shows "(matchLink a (Some b) = Inr True \<longleftrightarrow> (\<forall>n. admits b n \<longrightarrow> admits a n))
    \<and> (matchLink a (Some b) = Inr False \<longleftrightarrow> (\<exists>n. admits b n \<and> \<not> admits a n)) \<and> matchLink a None = Inl AssertionError"
proof -
  have t: "matchLink a (Some b) = Inr True \<longleftrightarrow> (\<forall>n. admits b n \<longrightarrow> admits a n)"
    using matchLink_sound [OF assms] matchLink_complete [OF assms] unfolding link_accepts_def [symmetric] by blast
  moreover obtain r where "matchLink a (Some b) = Inr r" by (simp add: matchLink_def)
  ultimately show ?thesis by (cases r) (auto simp: matchLink_def [of _ None])
qed

theorem matchLink_containment_witness:
  "matchLink \<lparr>link_lower = 1, link_upper = Fin 4\<rparr> (Some \<lparr>link_lower = 0, link_upper = Fin 3\<rparr>) = Inr False
    \<and> (\<exists>n. admits \<lparr>link_lower = 0, link_upper = Fin 3\<rparr> n \<and> \<not> admits \<lparr>link_lower = 1, link_upper = Fin 4\<rparr> n)"
proof -
  let ?a = "\<lparr>link_lower = 1, link_upper = Fin 4\<rparr>" and ?b = "\<lparr>link_lower = 0, link_upper = Fin 3\<rparr>"
  have wf: "wf_link ?b" by code_simp
  have "matchLink ?a (Some ?b) = Inr False" by code_simp
  then show ?thesis using matchLink_containment [OF wf, of ?a] by blast
qed

end
