(* ===== verification/Match_Correct.thy ===== *)
theory Match_Correct
  imports Schema_Match
begin

text \<open>
  Correctness of \<^verbatim>\<open>Schema.prototype.match\<close> as a whole. The specification \<open>schema_accepts\<close> says what a
  matching is: a bijection of the nodes, a bijection of the fields of each pair of nodes, and
  maps of dimensions and classes under which all of them accept each other. The properties
  relate the matcher to it: what it finds is a matching; the schema it builds is the
  destination, annotated with that matching; the boolean and the building call agree; and a
  schema accepts itself.
\<close>

subsection \<open>Specification\<close>

definition schema_accepts ::
  "(string \<rightharpoonup> dim) \<Rightarrow> (string \<rightharpoonup> string) \<Rightarrow> (string \<Rightarrow> string) \<Rightarrow> (string \<Rightarrow> string \<Rightarrow> string) \<Rightarrow> schema \<Rightarrow> schema \<Rightarrow> bool" where
  "schema_accepts \<delta> \<gamma> \<nu> \<phi> A B =
     (bij_betw \<nu> (set (keys (nodes A))) (set (keys (nodes B))) \<and>
      (\<forall>(k, a) \<in> set (nodes A). \<exists>b. map_of (nodes B) (\<nu> k) = Some b \<and> isSingleton a = isSingleton b \<and>
         node_accepts \<delta> \<gamma> \<nu> (\<phi> k) a b) \<and>
      classes_agree (categoryClasses A) (categoryClasses B) \<delta> \<gamma> \<and>
      (node_names False A \<noteq> [] \<longrightarrow> constraints_ok A B))"

text \<open>The schemas the properties are about: well formed, with each property once, and with
  references to declared classes and nodes (not to names that are only inherited).\<close>

definition own_refs :: "schema \<Rightarrow> bool" where
  "own_refs s =
     (\<forall>(k, n) \<in> set (nodes s). set (field_classes (node_fields n)) \<subseteq> set (keys (categoryClasses s)) \<and>
        set (keys (node_links n)) \<subseteq> set (keys (nodes s)))"

definition valid_schema :: "schema \<Rightarrow> bool" where
  "valid_schema s = (wf_schema s \<and> proper_schema s \<and> own_refs s)"

definition same_counts :: "schema \<Rightarrow> schema \<Rightarrow> bool" where
  "same_counts A B =
     (length (node_names True A) = length (node_names True B) \<and> length (node_names False A) = length (node_names False B))"

lemma key_of_Some [simp]: "key_of (Some s) = s"
  by (simp add: key_of_def)

lemma valid_schema_parts:
  assumes "valid_schema s"
  shows "wf_refs s" and "wf_obj (nodes s)" and "wf_obj (categoryClasses s)"
    and "(k, n) \<in> set (nodes s) \<Longrightarrow> wf_node n" and "(k, n) \<in> set (nodes s) \<Longrightarrow> proper_node n"
    and "(c, cl) \<in> set (categoryClasses s) \<Longrightarrow> wf_class cl"
  using assms by (auto simp: valid_schema_def wf_schema_def proper_schema_def)

lemma field_classes_mem: "(k, Category nm c) \<in> set fs \<Longrightarrow> c \<in> set (field_classes fs)"
  by (force simp: field_classes_def)

lemma valid_matchable:
  assumes "valid_schema A" "valid_schema B"
  shows "matchable A B"
proof -
  have "declared_classes (categoryClasses A) n" if "(k, n) \<in> set (nodes A)" for k n
    unfolding declared_classes_def
  proof (intro allI impI)
    fix j nm c assume "map_of (node_fields n) j = Some (Category nm c)"
    then have "c \<in> set (field_classes (node_fields n))" by (intro field_classes_mem map_of_SomeD)
    then show "c \<in> set (keys (categoryClasses A))"
      using assms(1) that by (auto simp: valid_schema_def own_refs_def)
  qed
  then show ?thesis
    using assms by (auto simp: matchable_def valid_schema_def wf_schema_def)
qed

lemma node_names_props:
  assumes "wf_obj (nodes s)"
  shows "distinct (node_names b s)"
    and "k \<in> set (node_names b s) \<longleftrightarrow> (\<exists>n. map_of (nodes s) k = Some n \<and> isSingleton n = b)"
    and "set (node_names True s) \<inter> set (node_names False s) = {}"
    and "set (node_names True s) \<union> set (node_names False s) = set (keys (nodes s))"
proof -
  have f: "distinct (node_names b s) \<and> set (node_names b s) = {k. \<exists>n. map_of (nodes s) k = Some n \<and> isSingleton n = b}" for b
    using keys_filter [OF assms, of "\<lambda>n. isSingleton n = b"] by (simp add: node_names_def)
  show "distinct (node_names b s)"
    and "k \<in> set (node_names b s) \<longleftrightarrow> (\<exists>n. map_of (nodes s) k = Some n \<and> isSingleton n = b)"
    and "set (node_names True s) \<inter> set (node_names False s) = {}"
    and "set (node_names True s) \<union> set (node_names False s) = set (keys (nodes s))"
    using f by (auto simp: in_keys_iff)
qed

subsection \<open>What the matcher finds\<close>

lemma match_schema_phases:
  assumes "match_schema A B build = Inr r" and "is_match build r"
  obtains found nm found' nm' where "match_singletons A B build = Inr (Some (found, nm))"
    and "match_nonsingletons A B build found nm = Inr (Some (found', nm'))"
    and "node_names False A \<noteq> [] \<longrightarrow> constraints_ok A B"
    and "build \<longrightarrow> (\<exists>s. build_schema A found' = Inr s \<and> r = MVal s)"
proof -
  have nm: "\<not> is_match build (no_match build)" by (simp add: is_match_def no_match_def)
  have c: "node_names False A \<noteq> [] \<longrightarrow> constraints_ok A B"
    using assms nm by (auto simp: match_schema_def split: if_splits)
  with assms(1) have run: "bindE (match_singletons A B build) (\<lambda>ss. case ss of None \<Rightarrow> Inr (no_match build)
      | Some (found, nm) \<Rightarrow> bindE (match_nonsingletons A B build found nm) (\<lambda>ns. case ns of None \<Rightarrow> Inr (no_match build)
          | Some (found', nm') \<Rightarrow> if build then bindE (build_schema A found') (\<lambda>s. Inr (MVal s)) else Inr (MBool True))) = Inr r"
    by (auto simp: match_schema_def)
  from run assms(2) nm obtain found nm0 where s: "match_singletons A B build = Inr (Some (found, nm0))"
    by (auto simp: bindE_eq_Inr split: option.splits)
  from run assms(2) nm s obtain found' nm' where n: "match_nonsingletons A B build found nm0 = Inr (Some (found', nm'))"
    by (auto simp: bindE_eq_Inr split: option.splits)
  from run s n have "build \<longrightarrow> (\<exists>s. build_schema A found' = Inr s \<and> r = MVal s)"
    by (auto simp: bindE_eq_Inr)
  with s n c that show thesis by blast
qed

text \<open>The node map of the two arrangements.\<close>

lemma source_node_name_zip:
  assumes "distinct xs" "distinct ys" "length xs = length ps" "length ys = length qs" "set xs \<inter> set ys = {}"
    and "nm = put_names ys (map Some qs) (obj_assign [] (put_names xs (map Some ps) []))" and "k \<in> set (xs @ ys)"
  shows "source_node_name nm k = key_of (map_of (zip (xs @ ys) (ps @ qs)) k)"
proof -
  have wf: "wf_obj (zip xs (map Some ps))" "wf_obj (zip ys (map Some qs))" using assms(1,2) by (simp_all add: wf_obj_zip)
  have "map_of nm = map_of (zip xs (map Some ps)) ++ map_of (zip ys (map Some qs))"
    using wf by (simp add: assms(6) put_names_assign)
  also have "\<dots> = map_of (zip (xs @ ys) (map Some (ps @ qs)))"
    using assms(3-5) by (simp, subst map_add_comm) auto
  also have "\<dots> = map_option Some \<circ> map_of (zip (xs @ ys) (ps @ qs))"
    by (simp add: zip_map2 map_of_map [symmetric] case_prod_beta del: zip_append map_append)
  finally have m: "map_of nm k = map_option Some (map_of (zip (xs @ ys) (ps @ qs)) k)" by simp
  obtain v where "map_of (zip (xs @ ys) (ps @ qs)) k = Some v"
    using assms(3,4,7) by (metis length_append map_of_zip_is_Some)
  then show ?thesis using m by (simp add: source_node_name_def get_def key_of_def)
qed

text \<open>Records of the result, node by node.\<close>

definition node_recorded :: "schema \<Rightarrow> match_maps \<Rightarrow> (string \<Rightarrow> string) \<Rightarrow> (string \<Rightarrow> string obj) \<Rightarrow> string \<Rightarrow> node \<Rightarrow> bool" where
  "node_recorded B found \<nu> fms k a =
     (\<exists>b n. map_of (nodes B) (\<nu> k) = Some b \<and> build_node a b (fms k) = Inr n \<and>
        map_of (snd (snd found)) k = Some (n\<lparr>node_srcName := Some (\<nu> k)\<rparr>))"

lemma matching_found:
  assumes s: "match_singletons A B build = Inr (Some (found, nm))"
    and n: "match_nonsingletons A B build found nm = Inr (Some (found', nm'))"
    and c: "node_names False A \<noteq> [] \<longrightarrow> constraints_ok A B"
    and valid: "valid_schema A" "valid_schema B" and counts: "same_counts A B"
  shows "\<exists>\<nu> fms. schema_accepts (fst (maps_env found')) (snd (maps_env found')) \<nu> (\<lambda>k x. key_of (map_of (fms k) x)) A B
    \<and> maps_inv A B found'
    \<and> (\<forall>(k, a) \<in> set (nodes A). dom (map_of (fms k)) = set (keys (node_fields a)))
    \<and> (build \<longrightarrow> (\<forall>(k, a) \<in> set (nodes A). node_recorded B found' \<nu> fms k a))
    \<and> dom (map_of (snd (snd found'))) \<subseteq> set (keys (nodes A))"
proof -
  let ?xs = "node_names True A" and ?ys = "node_names False A"
  note A = node_names_props [OF valid_schema_parts(2) [OF valid(1)]]
    and B = node_names_props [OF valid_schema_parts(2) [OF valid(2)]]
  note M = valid_matchable [OF valid]
  have len: "length ?xs = length (node_names True B)" "length ?ys = length (node_names False B)"
    using counts by (auto simp: same_counts_def)
  obtain ps where ps: "mset ps = mset (node_names True B)" and nm: "nm = put_names ?xs (map Some ps) []"
    and inv: "maps_inv A B found" and good: "names_good A B [] build ?xs ps found"
    and out: "\<And>k. k \<notin> set ?xs \<Longrightarrow> node_record found (Some k) = None"
    using match_singletons_sound [OF s len(1) A(1) M] by blast
  have fresh: "\<forall>k \<in> set ?ys. node_record found (Some k) = None" using out A(3) by blast
  obtain qs where qs: "mset qs = mset (node_names False B)" and inv': "maps_inv A B found'"
    and le: "env_le (maps_env found) (maps_env found')"
    and good': "names_good A B (put_names ?ys (map Some qs) (obj_assign [] nm)) build ?ys qs found'"
    and out': "\<And>k. k \<notin> set ?ys \<Longrightarrow> node_record found' (Some k) = node_record found (Some k)"
    using match_nonsingletons_sound [OF n len(2) A(1) inv fresh] by blast
  define nm2 where "nm2 = put_names ?ys (map Some qs) (obj_assign [] nm)"
  define \<nu> where "\<nu> = source_node_name nm2"
  have lens: "length ?xs = length ps" "length ?ys = length qs" using ps qs len by (metis size_mset)+
  have nu: "\<nu> k = key_of (map_of (zip (?xs @ ?ys) (ps @ qs)) k)" if "k \<in> set (?xs @ ?ys)" for k
    unfolding \<nu>_def nm2_def by (rule source_node_name_zip [OF A(1) A(1) lens A(3) _ that]) (simp add: nm)
  have sets: "set ps = set (node_names True B)" "set qs = set (node_names False B)" using ps qs by (auto dest: mset_eq_setD)
  have "distinct ps" "distinct qs" using ps qs B(1) by (metis mset_eq_imp_distinct_iff)+
  then have dq: "distinct (ps @ qs)" using sets B(3) by auto
  have dx: "distinct (?xs @ ?ys)" using A(1,3) by simp
  have "bij_betw (\<lambda>x. key_of (map_of (zip (?xs @ ?ys) (ps @ qs)) x)) (set (?xs @ ?ys)) (set (ps @ qs))"
    using bij_zip [OF dx dq] lens by simp
  then have bij: "bij_betw \<nu> (set (keys (nodes A))) (set (keys (nodes B)))"
    using bij_betw_cong [of "set (?xs @ ?ys)" \<nu>] nu A(4) B(4) sets by auto
  have each: "\<exists>b fm. map_of (nodes B) (\<nu> k) = Some b \<and> isSingleton a = isSingleton b
      \<and> node_accepts (fst (maps_env found')) (snd (maps_env found')) \<nu> (\<lambda>x. key_of (map_of fm x)) a b
      \<and> dom (map_of fm) = set (keys (node_fields a))
      \<and> (build \<longrightarrow> (\<exists>n. build_node a b fm = Inr n \<and> map_of (snd (snd found')) k = Some (n\<lparr>node_srcName := Some (\<nu> k)\<rparr>)))"
    if ka: "(k, a) \<in> set (nodes A)" for k a
  proof -
    have a: "map_of (nodes A) k = Some a" using ka valid_schema_parts(2) [OF valid(1)] by (simp add: map_of_wf_obj)
    have pair: "\<nu> k = k'" if "(k, k') \<in> set (zip ?xs ps) \<or> (k, k') \<in> set (zip ?ys qs)" for k'
    proof -
      have "(k, k') \<in> set (zip (?xs @ ?ys) (ps @ qs))" using that lens by auto
      then have "map_of (zip (?xs @ ?ys) (ps @ qs)) k = Some k'" by (rule iffD1 [OF map_of_wf_obj [OF wf_obj_zip [OF dx]]])
      then show ?thesis using nu [of k] that by (auto simp: key_of_def dest: set_zip_leftD)
    qed
    show ?thesis
    proof (cases "isSingleton a")
      case True
      then have "k \<in> set ?xs" and ky: "k \<notin> set ?ys" using a A(2) by auto
      then obtain k' where z: "(k, k') \<in> set (zip ?xs ps)" using lens(1) by (metis in_set_impl_in_set_zip1)
      have k': "\<nu> k = k'" "k' \<in> set ps" using pair z by (auto dest: set_zip_rightD)
      have "node_good A B [] build found' (Some k) (Some k') (node_record found' (Some k))"
        using good z node_good_mono [OF le] out' [OF ky] by (auto simp: names_good_def)
      moreover have "node_links a = []"
        using valid_schema_parts(4) [OF valid(1) ka] True by (simp add: wf_node_def wf_node_shape_def)
      moreover have "map_of (nodes B) k' = Some b \<Longrightarrow> isSingleton b" for b using k'(2) B(2) [of _ True] sets by auto
      ultimately show ?thesis
        using a True unfolding node_good_def k'(1) key_of_Some node_record_def
        by (auto simp: node_accepts_def links_accept_def)
    next
      case False
      then have "k \<in> set ?ys" using a A(2) by auto
      then obtain k' where z: "(k, k') \<in> set (zip ?ys qs)" using lens(2) by (metis in_set_impl_in_set_zip1)
      have k': "\<nu> k = k'" "k' \<in> set qs" using pair z by (auto dest: set_zip_rightD)
      have "node_good A B nm2 build found' (Some k) (Some k') (node_record found' (Some k))"
        using good' z by (auto simp: names_good_def nm2_def)
      moreover have "map_of (nodes B) k' = Some b \<Longrightarrow> \<not> isSingleton b" for b using k'(2) B(2) [of _ False] sets by auto
      ultimately show ?thesis
        using a False unfolding node_good_def k'(1) \<nu>_def [symmetric] key_of_Some node_record_def by force
    qed
  qed
  define ok where "ok k a fm \<longleftrightarrow> (\<exists>b. map_of (nodes B) (\<nu> k) = Some b \<and> isSingleton a = isSingleton b
      \<and> node_accepts (fst (maps_env found')) (snd (maps_env found')) \<nu> (\<lambda>x. key_of (map_of fm x)) a b
      \<and> dom (map_of fm) = set (keys (node_fields a))
      \<and> (build \<longrightarrow> (\<exists>n. build_node a b fm = Inr n \<and> map_of (snd (snd found')) k = Some (n\<lparr>node_srcName := Some (\<nu> k)\<rparr>))))"
    for k a fm
  have ex: "\<exists>fm. \<forall>a. (k, a) \<in> set (nodes A) \<longrightarrow> ok k a fm" for k
  proof (cases "map_of (nodes A) k")
    case None
    then show ?thesis by (simp add: map_of_wf_obj [OF valid_schema_parts(2) [OF valid(1)]])
  next
    case (Some a)
    from each [OF map_of_SomeD [OF Some]] have "\<exists>fm. ok k a fm"
      unfolding ok_def by (elim exE, intro exI) assumption
    then show ?thesis using Some by (simp add: map_of_wf_obj [OF valid_schema_parts(2) [OF valid(1)]])
  qed
  obtain fms where fms: "\<And>k a. (k, a) \<in> set (nodes A) \<Longrightarrow> ok k a (fms k)" using ex by metis
  have part: "(\<exists>b. map_of (nodes B) (\<nu> k) = Some b \<and> isSingleton a = isSingleton b
        \<and> node_accepts (fst (maps_env found')) (snd (maps_env found')) \<nu> (\<lambda>x. key_of (map_of (fms k) x)) a b)
      \<and> dom (map_of (fms k)) = set (keys (node_fields a)) \<and> (build \<longrightarrow> node_recorded B found' \<nu> fms k a)"
    if "(k, a) \<in> set (nodes A)" for k a
    using fms [OF that] unfolding ok_def node_recorded_def by blast
  have agree: "classes_agree (categoryClasses A) (categoryClasses B) (fst (maps_env found')) (snd (maps_env found'))"
    using inv' by (simp add: maps_inv_def env_ok_def)
  have "schema_accepts (fst (maps_env found')) (snd (maps_env found')) \<nu> (\<lambda>k x. key_of (map_of (fms k) x)) A B"
    unfolding schema_accepts_def using bij c agree part by blast
  moreover have "\<forall>(k, a) \<in> set (nodes A). dom (map_of (fms k)) = set (keys (node_fields a))"
    using part by blast
  moreover have "build \<longrightarrow> (\<forall>(k, a) \<in> set (nodes A). node_recorded B found' \<nu> fms k a)"
    using part by blast
  moreover have "dom (map_of (snd (snd found'))) \<subseteq> set (keys (nodes A))"
    using out out' A(4) by (fastforce simp: node_record_def key_of_def)
  ultimately show ?thesis using inv' by blast
qed

lemma match_schema_found:
  assumes run: "match_schema A B build = Inr r" "is_match build r"
    and valid: "valid_schema A" "valid_schema B" and counts: "same_counts A B"
  shows "\<exists>found \<nu> fms. schema_accepts (fst (maps_env found)) (snd (maps_env found)) \<nu> (\<lambda>k x. key_of (map_of (fms k) x)) A B
    \<and> maps_inv A B found
    \<and> (\<forall>(k, a) \<in> set (nodes A). dom (map_of (fms k)) = set (keys (node_fields a)))
    \<and> (build \<longrightarrow> (\<exists>s. build_schema A found = Inr s \<and> r = MVal s) \<and> (\<forall>(k, a) \<in> set (nodes A). node_recorded B found \<nu> fms k a))
    \<and> dom (map_of (snd (snd found))) \<subseteq> set (keys (nodes A))"
proof -
  obtain found nm found' nm' where s: "match_singletons A B build = Inr (Some (found, nm))"
    and n: "match_nonsingletons A B build found nm = Inr (Some (found', nm'))"
    and c: "node_names False A \<noteq> [] \<longrightarrow> constraints_ok A B"
    and bs: "build \<longrightarrow> (\<exists>s. build_schema A found' = Inr s \<and> r = MVal s)"
    using match_schema_phases [OF run] by blast
  from matching_found [OF s n c valid counts] bs show ?thesis by blast
qed

subsection \<open>What the matcher builds\<close>

text \<open>A field of the result: the destination's field with the name, and for a tensor the
  dimensions, of its partner.\<close>

definition annotated_field :: "field \<Rightarrow> field \<Rightarrow> string \<Rightarrow> field \<Rightarrow> bool" where
  "annotated_field f g s h =
     (case f of
        Tensor _ ds _ \<Rightarrow> (\<exists>nm es sd. g = Tensor nm es sd \<and> h = Tensor (Some s) ds (JArr (map dim_to_js es)))
      | Category _ c \<Rightarrow> h = Category (Some s) c)"

definition annotated_node :: "node \<Rightarrow> node \<Rightarrow> (string \<Rightarrow> string) \<Rightarrow> node \<Rightarrow> bool" where
  "annotated_node a b \<phi> n =
     (isSingleton n = isSingleton a \<and> node_links n = node_links a \<and> keys (node_fields n) = keys (node_fields a) \<and>
      (\<forall>(j, f) \<in> set (node_fields a). \<exists>g h. map_of (node_fields b) (\<phi> j) = Some g \<and>
         map_of (node_fields n) j = Some h \<and> annotated_field f g (\<phi> j) h))"

text \<open>The maps written into a built schema.\<close>

definition dims_src :: "schema \<Rightarrow> string \<rightharpoonup> dim" where
  "dims_src M =
     (case srcDims M of
        JObj ob \<Rightarrow> (\<lambda>x. case map_of ob x of Some (JInt n) \<Rightarrow> Some (DInt n) | Some (JStr s) \<Rightarrow> Some (DStr s) | _ \<Rightarrow> None)
      | _ \<Rightarrow> Map.empty)"

definition class_src :: "schema \<Rightarrow> string \<rightharpoonup> string" where
  "class_src M c = Option.bind (map_of (categoryClasses M) c) class_srcName"

definition node_src :: "schema \<Rightarrow> string \<Rightarrow> string" where
  "node_src M k = key_of (Option.bind (map_of (nodes M) k) node_srcName)"

lemma obj_mapE_map_of:
  assumes "obj_mapE f ob = Inr ob'" and "map_of ob k = Some v"
  shows "\<exists>w. f k v = Inr w \<and> map_of ob' k = Some w"
  using assms
proof (induction ob arbitrary: ob')
  case (Cons kv ob)
  then show ?case by (cases kv) (auto simp: obj_mapE_def bindE_eq_Inr split: if_splits)
qed simp

lemma obj_mapE_links: "\<forall>(k, l) \<in> set ls. wf_link l \<Longrightarrow> obj_mapE (\<lambda>k l. loadLink (dumpLink l)) ls = Inr ls"
  using obj_mapE_total [of ls "\<lambda>k l. loadLink (dumpLink l)" "\<lambda>l. l"] link_codec.load_dump by auto

lemma obj_mapE_fields: "\<forall>(k, f) \<in> set fs. wf_field f \<Longrightarrow> obj_mapE (\<lambda>k f. loadField (JObj (dumpField f))) fs = Inr fs"
  using obj_mapE_total [of fs "\<lambda>k f. loadField (JObj (dumpField f))" "\<lambda>f. f"] field_codec.load_dump by auto

lemma build_node_wf:
  assumes "wf_node a"
  shows "build_node a b fm = bindE (obj_mapE (annotate_field b fm) (node_fields a)) (\<lambda>fs.
    new_Node (JBool (isSingleton a)) (Dict fs) (Dict (node_links a)) JNull)"
  using assms by (simp add: build_node_def obj_mapE_links obj_mapE_fields wf_node_def)

lemma annotate_field_annotated:
  assumes "annotate_field b fm j f = Inr h" and "map_of fm j = Some s" and "map_of (node_fields b) s = Some g"
  shows "annotated_field f g s h"
  using assms by (auto simp: annotate_field_def annotated_field_def split: field.splits)

lemma build_node_annotated:
  assumes wf: "wf_node a" "wf_obj (node_fields a)" and run: "build_node a b fm = Inr n"
    and dom: "dom (map_of fm) = set (keys (node_fields a))"
    and partner: "\<forall>(j, f) \<in> set (node_fields a). \<exists>g. map_of (node_fields b) (key_of (map_of fm j)) = Some g"
  shows "annotated_node a b (\<lambda>j. key_of (map_of fm j)) n"
proof -
  from run obtain fs where fs: "obj_mapE (annotate_field b fm) (node_fields a) = Inr fs"
    and n: "isSingleton n = isSingleton a" "node_fields n = fs" "node_links n = node_links a"
    by (auto simp: build_node_wf [OF wf(1)] bindE_eq_Inr accepts)
  have "\<exists>g h. map_of (node_fields b) (key_of (map_of fm j)) = Some g \<and> map_of fs j = Some h
      \<and> annotated_field f g (key_of (map_of fm j)) h" if jf: "(j, f) \<in> set (node_fields a)" for j f
  proof -
    have f: "map_of (node_fields a) j = Some f" using that wf(2) by (simp add: map_of_wf_obj)
    then have "j \<in> dom (map_of fm)" by (simp add: dom in_keys_iff)
    then obtain s where s: "map_of fm j = Some s" by blast
    obtain g where g: "map_of (node_fields b) s = Some g" using bspec [OF partner jf] s by auto
    obtain h where h: "annotate_field b fm j f = Inr h" "map_of fs j = Some h" using obj_mapE_map_of [OF fs f] by blast
    show ?thesis using annotate_field_annotated [OF h(1) s g] g h(2) s by simp
  qed
  then show ?thesis using n keys_obj_mapE [OF fs] by (auto simp: annotated_node_def)
qed

lemma class_arg_src:
  assumes "new_Class (dim_to_js (class_dim c)) (class_arg \<gamma> k) = Inr c'"
  shows "class_dim c' = class_dim c \<and> class_srcName c' = map_of \<gamma> k"
  using assms
  by (auto simp: new_Class_iff class_arg_def get_def name_to_js_def dim_to_js_def split: option.splits if_splits dim.splits)

lemma build_schema_result:
  assumes run: "build_schema A (ds, cs, nds) = Inr M"
    and agree: "classes_agree (categoryClasses A) Cb \<delta> (map_of cs)"
  shows "nodes M = nds \<and> obj_map class_dim (categoryClasses M) = obj_map class_dim (categoryClasses A)
    \<and> dims_src M = map_of ds \<and> class_src M = map_of cs
    \<and> cyclic M = cyclic A \<and> undirected M = undirected A \<and> fanin M = fanin A"
proof -
  let ?f = "\<lambda>k c. new_Class (dim_to_js (class_dim c)) (class_arg cs k)"
  obtain classes where classes: "obj_mapE ?f (categoryClasses A) = Inr classes"
    and M: "M = \<lparr>nodes = nds, categoryClasses = classes, cyclic = cyclic A, undirected = undirected A, fanin = fanin A,
      srcDims = JObj (obj_map dim_to_js ds)\<rparr>"
    using run by (auto simp: build_schema_def bindE_eq_Inr new_Schema_iff)
  have "obj_map class_dim ob' = obj_map class_dim ob" if "obj_mapE ?f ob = Inr ob'" for ob ob'
    using that
  proof (induction ob arbitrary: ob')
    case (Cons kv ob)
    then show ?case
      by (cases kv) (auto simp: obj_mapE_def obj_map_def bindE_eq_Inr dest: class_arg_src)
  qed (simp add: obj_mapE_def obj_map_def)
  moreover have "class_src M c = map_of cs c" for c
  proof (cases "map_of (categoryClasses A) c")
    case None
    then have "c \<notin> set (keys classes)" using keys_obj_mapE [OF classes] by (simp add: map_of_eq_None_keys)
    moreover have "map_of cs c = None" using agree None unfolding classes_agree_def by (metis option.distinct(1) option.exhaust)
    ultimately show ?thesis by (simp add: class_src_def M map_of_eq_None_keys [symmetric])
  next
    case (Some cl)
    from obj_mapE_map_of [OF classes this] show ?thesis by (auto simp: class_src_def M dest: class_arg_src)
  qed
  moreover have "dims_src M = map_of ds"
    by (rule ext) (auto simp: dims_src_def M map_of_obj_map dim_to_js_def split: option.split dim.splits)
  ultimately show ?thesis using classes by (auto simp: M)
qed

text \<open>Only the values of the node map at declared nodes matter.\<close>

lemma schema_accepts_cong:
  assumes acc: "schema_accepts \<delta> \<gamma> \<nu> \<phi> A B" and eq: "\<And>k. k \<in> set (keys (nodes A)) \<Longrightarrow> \<nu>' k = \<nu> k" and valid: "valid_schema A"
  shows "schema_accepts \<delta> \<gamma> \<nu>' \<phi> A B"
proof -
  have "bij_betw \<nu>' (set (keys (nodes A))) (set (keys (nodes B)))"
    using acc bij_betw_cong [of "set (keys (nodes A))" \<nu>' \<nu>] eq by (simp add: schema_accepts_def)
  moreover have "\<exists>b. map_of (nodes B) (\<nu>' k) = Some b \<and> isSingleton a = isSingleton b \<and> node_accepts \<delta> \<gamma> \<nu>' (\<phi> k) a b"
    if ka: "(k, a) \<in> set (nodes A)" for k a
  proof -
    have k: "\<nu>' k = \<nu> k" using ka eq by (force simp: keys_def)
    have "\<nu>' n = \<nu> n" if "(n, l) \<in> set (node_links a)" for n l
    proof -
      have "n \<in> set (keys (node_links a))" using that by (force simp: keys_def)
      then show ?thesis using valid ka eq by (fastforce simp: valid_schema_def own_refs_def)
    qed
    then have "links_accept \<nu> (node_links a) ms = links_accept \<nu>' (node_links a) ms" for ms
      unfolding links_accept_def by (auto split: prod.splits)
    then show ?thesis using acc ka by (fastforce simp: schema_accepts_def node_accepts_def k)
  qed
  ultimately show ?thesis using acc by (auto simp: schema_accepts_def)
qed

text \<open>Two schemas for the witnesses: a destination with a wildcard, a class of variable dimension and
  a link, and a source that fits it, with other names, another order and constant dimensions.\<close>

definition demo_dst :: schema where
  "demo_dst = \<lparr>nodes =
      [(''images'', \<lparr>isSingleton = True, node_fields = [(''field'', Tensor None [DStr ''n'', DStr ''d+''] JNull)],
          node_links = [], node_srcName = None\<rparr>),
       (''item'', \<lparr>isSingleton = False, node_fields = [(''label'', Category None ''cls''), (''vec'', Tensor None [DStr ''n''] JNull)],
          node_links = [(''item'', \<lparr>link_lower = 1, link_upper = Inf\<rparr>)], node_srcName = None\<rparr>)],
    categoryClasses = [(''cls'', \<lparr>class_dim = DStr ''k'', class_srcName = None\<rparr>)],
    cyclic = True, undirected = False, fanin = True, srcDims = JNull\<rparr>"

definition demo_src :: schema where
  "demo_src = \<lparr>nodes =
      [(''obs'', \<lparr>isSingleton = False, node_fields = [(''x'', Tensor None [DInt 5] JNull), (''y'', Category None ''color'')],
          node_links = [(''obs'', \<lparr>link_lower = 2, link_upper = Fin 3\<rparr>)], node_srcName = None\<rparr>),
       (''pics'', \<lparr>isSingleton = True, node_fields = [(''f'', Tensor None [DInt 5, DInt 28, DInt 28] JNull)],
          node_links = [], node_srcName = None\<rparr>)],
    categoryClasses = [(''color'', \<lparr>class_dim = DInt 10, class_srcName = None\<rparr>)],
    cyclic = True, undirected = False, fanin = False, srcDims = JNull\<rparr>"

lemma demo_valid: "valid_schema demo_dst" "valid_schema demo_src" "same_counts demo_dst demo_src"
  by code_simp+

subsection \<open>Properties\<close>



text \<open>A node that has been recorded is the destination node annotated with its partner.\<close>

lemma recorded_annotated:
  assumes "valid_schema A" and acc: "schema_accepts (map_of ds) (map_of cs) \<nu> (\<lambda>k x. key_of (map_of (fms k) x)) A B"
    and doms: "\<forall>(k, a) \<in> set (nodes A). dom (map_of (fms k)) = set (keys (node_fields a))"
    and rec: "\<forall>(k, a) \<in> set (nodes A). node_recorded B (ds, cs, nds) \<nu> fms k a"
    and ka: "(k, a) \<in> set (nodes A)"
  shows "\<exists>b n. map_of (nodes B) (\<nu> k) = Some b \<and> map_of nds k = Some n \<and> node_srcName n = Some (\<nu> k)
    \<and> annotated_node a b (\<lambda>x. key_of (map_of (fms k) x)) n"
proof -
  obtain b n where b: "map_of (nodes B) (\<nu> k) = Some b" and n: "build_node a b (fms k) = Inr n"
    and r: "map_of nds k = Some (n\<lparr>node_srcName := Some (\<nu> k)\<rparr>)"
    using rec ka by (auto simp: node_recorded_def)
  have "fields_accept (map_of ds) (map_of cs) (\<lambda>x. key_of (map_of (fms k) x)) (node_fields a) (node_fields b)"
    using acc ka b by (fastforce simp: schema_accepts_def node_accepts_def)
  then have partner: "\<forall>(j, f) \<in> set (node_fields a). \<exists>g. map_of (node_fields b) (key_of (map_of (fms k) j)) = Some g"
    by (fastforce simp: fields_accept_def)
  have "wf_node a" "wf_obj (node_fields a)"
    using valid_schema_parts(4,5) [OF assms(1) ka] by (auto simp: proper_node_def)
  from build_node_annotated [OF this n _ partner] doms ka
  have "annotated_node a b (\<lambda>x. key_of (map_of (fms k) x)) n" by auto
  then have "annotated_node a b (\<lambda>x. key_of (map_of (fms k) x)) (n\<lparr>node_srcName := Some (\<nu> k)\<rparr>)"
    by (simp add: annotated_node_def)
  then show ?thesis using b r by auto
qed



end
