(* ===== verification/Match_Modes.thy ===== *)
theory Match_Modes
  imports Match_Correct
begin

text \<open>
  The two modes of \<^verbatim>\<open>Schema.prototype.match\<close>: the call that builds a schema and the call that answers
  with a boolean run through the same arrangements and the same maps. The lemmas show that the
  boolean run is the building run with the built values forgotten (\<open>drop_nodes\<close>), loop by loop,
  and that for valid schemas the constructors called by the building run accept what they are given.
\<close>

subsection \<open>Simulation of the loops\<close>

text \<open>A result with its value mapped.\<close>

definition map_res :: "('a \<Rightarrow> 'b) \<Rightarrow> 'a res \<Rightarrow> 'b res" where
  "map_res f r = (case r of Inl e \<Rightarrow> Inl e | Inr x \<Rightarrow> Inr (f x))"

lemma map_res_simps [simp]: "map_res f (Inl e) = Inl e" "map_res f (Inr x) = Inr (f x)"
  by (simp_all add: map_res_def)

lemma map_res_bindE: "map_res f (bindE m g) = bindE m (\<lambda>x. map_res f (g x))"
  by (cases m) auto

lemma map_res_comp: "map_res f (map_res g r) = map_res (\<lambda>x. f (g x)) r"
  by (cases r) auto

lemma for_pairs_sim:
  assumes "I st" and "\<forall>(a, b) \<in> set ps. cand a b"
    and "\<And>a b st. cand a b \<Longrightarrow> I st \<Longrightarrow> body' a b (h st) = map_res (map_option h) (body a b st)"
    and "\<And>a b st st'. cand a b \<Longrightarrow> I st \<Longrightarrow> body a b st = Inr (Some st') \<Longrightarrow> I st'"
  shows "for_pairs body' m ps (h st) = map_res (\<lambda>(m, st). (m, h st)) (for_pairs body m ps st)"
  using assms(1,2)
proof (induction ps arbitrary: m st)
  case (Cons p ps)
  obtain a b where p: "p = (a, b)" by (cases p)
  have c: "cand a b" using Cons.prems by (simp add: p)
  show ?case
  proof (cases "body a b st")
    case (Inl e)
    then show ?thesis using assms(3) [OF c Cons.prems(1)] by (simp add: p)
  next
    case (Inr r)
    then show ?thesis
      using assms(3) [OF c Cons.prems(1)] Cons.IH [of _ True] assms(4) [OF c Cons.prems(1)] Cons.prems(2)
      by (cases r) (auto simp: p)
  qed
qed simp

lemma search_sim:
  "(\<And>p. p \<in> set ps \<Longrightarrow> f' p = map_res (map_option g) (f p)) \<Longrightarrow> search f' ps = map_res (map_option g) (search f ps)"
proof (induction ps)
  case (Cons p ps)
  show ?case
  proof (cases "f p")
    case (Inr r)
    then show ?thesis using Cons.prems [of p] Cons.IH Cons.prems by (cases r) auto
  qed (use Cons.prems [of p] in simp)
qed simp

lemma try_perms_sim:
  assumes "\<And>p. mset p = mset names \<Longrightarrow> f' p = map_res (map_option g) (f p)" and "dflt' = g dflt"
  shows "try_perms names f' dflt' = map_res (map_option g) (try_perms names f dflt)"
proof -
  obtain ps where ps: "perm_list names = Inr ps" using heap_perms.perms_total by blast
  have "search f' ps = map_res (map_option g) (search f ps)"
    by (rule search_sim) (rule assms(1), rule heap_perms.perms_mem [OF ps])
  then show ?thesis
    using ps assms(2) by (cases "search f ps") (auto simp: try_perms_def split: option.splits)
qed

subsection \<open>Nodes\<close>

lemma obj_mapE_ex: "(\<And>k v. (k, v) \<in> set ob \<Longrightarrow> \<exists>w. f k v = Inr w) \<Longrightarrow> \<exists>ob'. obj_mapE f ob = Inr ob'"
  by (induction ob) (fastforce simp: obj_mapE_def)+

lemma build_node_total:
  assumes wf: "wf_node a" and acc: "fields_accept \<delta> \<gamma> (\<lambda>k. key_of (map_of fm k)) (node_fields a) (node_fields b)"
  shows "\<exists>n. build_node a b fm = Inr n"
proof -
  have "\<exists>h. annotate_field b fm k f = Inr h" if "(k, f) \<in> set (node_fields a)" for k f
  proof -
    obtain g where "map_of (node_fields b) (key_of (map_of fm k)) = Some g" "field_accepts \<delta> \<gamma> f g"
      using acc \<open>(k, f) \<in> set (node_fields a)\<close> by (fastforce simp: fields_accept_def)
    then show ?thesis by (auto simp: annotate_field_def field_accepts_def split: field.splits)
  qed
  then obtain fs where fs: "obj_mapE (annotate_field b fm) (node_fields a) = Inr fs" using obj_mapE_ex by metis
  have "wf_node_shape \<lparr>isSingleton = isSingleton a, node_fields = fs, node_links = node_links a, node_srcName = None\<rparr>"
    using wf keys_obj_mapE [OF fs] unfolding wf_node_def wf_node_shape_def
    by (auto simp: wf_srcName_def keys_def dest: arg_cong [of _ _ length])
  then have "new_Node (JBool (isSingleton a)) (Dict fs) (Dict (node_links a)) JNull =
      Inr \<lparr>isSingleton = isSingleton a, node_fields = fs, node_links = node_links a, node_srcName = None\<rparr>"
    by (simp add: new_Node_iff name_to_js_def)
  then show ?thesis by (simp add: build_node_wf [OF wf] fs)
qed

definition to_bool :: "node mres \<times> dim obj \<times> string obj \<Rightarrow> node mres \<times> dim obj \<times> string obj" where
  "to_bool r = (MBool (fst r \<noteq> MNull), snd r)"

lemma matchNode_modes:
  assumes wf: "proper_node a" "proper_node b" "wf_obj ds" "wf_obj cs" "wf_node a"
    and const: "truthy_node b" "declared_classes Ca a" "truthy_classes Cb"
    and ok: "env_ok Ca Cb (map_of ds, map_of cs)"
  shows "matchNode (Some a) (Some b) ds cs nm Ca Cb False = map_res to_bool (matchNode (Some a) (Some b) ds cs nm Ca Cb True)"
proof (cases "counts_match a b")
  case False
  then show ?thesis by (simp add: matchNode_def no_match_def to_bool_def)
next
  case counts: True
  have "matchNode_found a b ds cs Ca Cb False = map_res to_bool (matchNode_found a b ds cs Ca Cb True)"
  proof (cases "match_tensors a b ds")
    case (Inr ts)
    note mt = this
    show ?thesis
    proof (cases ts)
      case None
      then show ?thesis using mt by (simp add: matchNode_found_def no_match_def to_bool_def)
    next
      case (Some x)
      obtain u tp where x: "x = (u, tp)" by (cases x)
      show ?thesis
      proof (cases "match_categories a b ds cs Ca Cb u")
        case (Inr cs')
        note mc = this
        show ?thesis
        proof (cases cs')
          case None
          then show ?thesis using mt mc Some x by (simp add: matchNode_found_def no_match_def to_bool_def)
        next
          case (Some y)
          obtain nd nc cp where y: "y = ((nd, nc), cp)" by (cases y) auto
          let ?fm = "put_names (category_names a) cp (put_names (tensor_names a) tp [])"
          have "fields_accept (map_of ds ++ map_of nd) (map_of cs ++ map_of nc) (\<lambda>k. key_of (map_of ?fm k)) (node_fields a) (node_fields b)"
            using matchNode_found_fields [OF _ _ refl counts wf(1-4) const ok] mt mc \<open>ts = Some x\<close> Some x y by blast
          from build_node_total [OF wf(5) this] obtain n where "build_node a b ?fm = Inr n" by blast
          then show ?thesis using mt mc \<open>ts = Some x\<close> Some x y by (simp add: matchNode_found_def to_bool_def)
        qed
      qed (use mt Some x in \<open>simp add: matchNode_found_def\<close>)
    qed
  qed (simp add: matchNode_found_def)
  then show ?thesis using counts
    by (cases "match_links (node_links a) (node_links b) nm") (auto simp: matchNode_def no_match_def to_bool_def)
qed

subsection \<open>The loops over nodes\<close>

definition drop_nodes :: "match_maps \<Rightarrow> match_maps" where
  "drop_nodes st = (fst st, fst (snd st), [])"

lemma drop_nodes_simps [simp]: "fst (drop_nodes st) = fst st" "fst (snd (drop_nodes st)) = fst (snd st)"
  "drop_nodes (d, c, ns) = (d, c, [])"
  by (simp_all add: drop_nodes_def)

lemma node_step_modes:
  assumes inv: "maps_inv A B st" and maps: "wf_obj ds" "wf_obj cs" "(map_of ds, map_of cs) = maps_env st"
    and wf: "\<forall>(k, a) \<in> set (nodes A). wf_node a"
  shows "node_step A B False ds cs nm k k' (drop_nodes st) = map_res (map_option drop_nodes) (node_step A B True ds cs nm k k' st)"
proof -
  obtain d c ns where st: "st = (d, c, ns)" by (cases st)
  let ?Ca = "categoryClasses A" and ?Cb = "categoryClasses B"
  show ?thesis
  proof (cases "map_of (nodes A) (key_of k)"; cases "map_of (nodes B) (key_of k')")
    fix a b assume a: "map_of (nodes A) (key_of k) = Some a" and b: "map_of (nodes B) (key_of k') = Some b"
    have M: "matchable A B" and ok: "env_ok ?Ca ?Cb (map_of ds, map_of cs)" using inv maps(3) by (auto simp: maps_inv_def)
    have pa: "proper_node a" "declared_classes ?Ca a" "wf_node a"
      using M wf map_of_SomeD [OF a] by (auto simp: matchable_def proper_schema_def)
    have pb: "proper_node b" "wf_node b" and wc: "\<forall>(k, c) \<in> set ?Cb. wf_class c"
      using M map_of_SomeD [OF b] by (auto simp: matchable_def proper_schema_def)
    have "matchNode (Some a) (Some b) ds cs nm ?Ca ?Cb False = map_res to_bool (matchNode (Some a) (Some b) ds cs nm ?Ca ?Cb True)"
      by (rule matchNode_modes [OF pa(1) pb(1) maps(1,2) pa(3) wf_node_truthy [OF pb(2)] pa(2) wf_classes_truthy [OF wc] ok])
    then show ?thesis
      using a b
      by (cases "matchNode (Some a) (Some b) ds cs nm ?Ca ?Cb True")
        (auto simp: node_step_def st drop_nodes_def to_bool_def is_match_def)
  qed (simp_all add: node_step_def st drop_nodes_def matchNode_def)
qed

definition drop_found :: "match_maps \<times> 'a \<Rightarrow> match_maps \<times> 'a" where
  "drop_found r = (drop_nodes (fst r), snd r)"

lemma match_singletons_modes:
  assumes M: "matchable A B" and wf: "\<forall>(k, a) \<in> set (nodes A). wf_node a"
    and len: "length (node_names True A) = length (node_names True B)"
  shows "match_singletons A B False = map_res (map_option drop_found) (match_singletons A B True)"
  unfolding match_singletons_def Let_def
proof (rule try_perms_sim)
  fix perm :: "string list"
  let ?ps = "zip (pad (length (node_names True B)) (node_names True A)) (map Some perm)"
  have inv0: "maps_inv A B ([], [], [])"
    using M by (simp add: maps_inv_def maps_env_def env_ok_def truthy_map_def classes_agree_def)
  have "for_pairs (singleton_body A B False) False ?ps (drop_nodes ([], [], [])) =
      map_res (\<lambda>(m, st). (m, drop_nodes st)) (for_pairs (singleton_body A B True) False ?ps ([], [], []))"
  proof (rule for_pairs_sim [where I = "maps_inv A B" and cand = "\<lambda>k k'. k \<noteq> None", OF inv0])
    show "\<forall>(a, b) \<in> set ?ps. a \<noteq> None" using len by (auto dest!: set_zip_leftD)
  next
    fix k k' st assume inv: "maps_inv A B st"
    then have "wf_obj (fst st)" "wf_obj (fst (snd st))" by (auto simp: maps_inv_def)
    then show "singleton_body A B False k k' (drop_nodes st) = map_res (map_option drop_nodes) (singleton_body A B True k k' st)"
      unfolding singleton_body_def drop_nodes_simps
      by (intro node_step_modes [OF inv _ _ _ wf]) (auto simp: maps_env_def)
  next
    fix k k' st st' assume "k \<noteq> None" "maps_inv A B st" "singleton_body A B True k k' st = Inr (Some st')"
    then show "maps_inv A B st'" using singleton_loop.body_sound by blast
  qed
  then show "bindE (for_pairs (singleton_body A B False) False ?ps ([], [], [])) (\<lambda>(m, dims, classNames, ns).
        Inr (if m then Some ((obj_assign [] dims, obj_assign [] classNames, obj_assign [] ns),
            put_names (node_names True A) (pad (length (node_names True A)) perm) []) else None)) =
      map_res (map_option drop_found) (bindE (for_pairs (singleton_body A B True) False ?ps ([], [], [])) (\<lambda>(m, dims, classNames, ns).
        Inr (if m then Some ((obj_assign [] dims, obj_assign [] classNames, obj_assign [] ns),
            put_names (node_names True A) (pad (length (node_names True A)) perm) []) else None)))"
    by (cases "for_pairs (singleton_body A B True) False ?ps ([], [], [])")
      (auto simp: drop_found_def split: prod.splits)
qed (simp add: drop_found_def)

lemma match_nonsingletons_modes:
  assumes inv: "maps_inv A B found" and wf: "\<forall>(k, a) \<in> set (nodes A). wf_node a"
  shows "match_nonsingletons A B False (drop_nodes found) nm = map_res (map_option drop_found) (match_nonsingletons A B True found nm)"
proof -
  obtain d0 c0 n0 where found: "found = (d0, c0, n0)" by (cases found)
  have wf0: "wf_obj d0" "wf_obj c0" using inv by (auto simp: maps_inv_def found)
  show ?thesis
    unfolding match_nonsingletons_def Let_def found drop_nodes_simps prod.case
  proof (rule try_perms_sim)
    fix perm :: "string list"
    let ?xs = "node_names False A"
    let ?nm = "put_names ?xs (pad (length ?xs) perm) (obj_assign [] nm)"
    let ?ps = "zip (map Some ?xs) (pad (length ?xs) perm)" and ?st = "(obj_assign [] d0, obj_assign [] c0, [])"
    have inv0: "maps_inv A B ?st" using inv wf0 by (simp add: maps_inv_def maps_env_def found)
    have "for_pairs (nonsingleton_body A B False ?nm) False ?ps (drop_nodes ?st) =
        map_res (\<lambda>(m, st). (m, drop_nodes st)) (for_pairs (nonsingleton_body A B True ?nm) False ?ps ?st)"
    proof (rule for_pairs_sim [where I = "maps_inv A B" and cand = "\<lambda>k k'. k \<noteq> None", OF inv0])
      show "\<forall>(a, b) \<in> set ?ps. a \<noteq> None" by (auto dest!: set_zip_leftD)
    next
      fix k k' st assume inv: "maps_inv A B st"
      then have "wf_obj (fst st)" "wf_obj (fst (snd st))" by (auto simp: maps_inv_def)
      then show "nonsingleton_body A B False ?nm k k' (drop_nodes st) =
          map_res (map_option drop_nodes) (nonsingleton_body A B True ?nm k k' st)"
        unfolding nonsingleton_body_def drop_nodes_simps
        by (intro node_step_modes [OF inv _ _ _ wf]) (auto simp: maps_env_def)
    next
      fix k k' st st' assume "k \<noteq> None" "maps_inv A B st" "nonsingleton_body A B True ?nm k k' st = Inr (Some st')"
      then show "maps_inv A B st'" using nonsingleton_loop.body_sound by blast
    qed
    then show "bindE (for_pairs (nonsingleton_body A B False ?nm) False ?ps ?st) (\<lambda>(m, dims, classNames, ns).
          Inr (if m then Some ((obj_assign d0 dims, obj_assign c0 classNames, obj_assign [] ns), obj_assign nm ?nm) else None)) =
        map_res (map_option drop_found) (bindE (for_pairs (nonsingleton_body A B True ?nm) False ?ps ?st) (\<lambda>(m, dims, classNames, ns).
          Inr (if m then Some ((obj_assign d0 dims, obj_assign c0 classNames, obj_assign n0 ns), obj_assign nm ?nm) else None)))"
      by (cases "for_pairs (nonsingleton_body A B True ?nm) False ?ps ?st")
        (auto simp: drop_found_def split: prod.splits)
  qed (simp add: drop_found_def)
qed

subsection \<open>The built schema\<close>

lemma in_keysI: "(k, v) \<in> set ob \<Longrightarrow> k \<in> set (keys ob)"
  by (force simp: keys_def)

lemma annotated_classes:
  assumes ann: "annotated_node a b \<phi> n" and wf: "wf_obj (node_fields a)"
  shows "set (field_classes (node_fields n)) = set (field_classes (node_fields a))"
proof -
  have wfn: "wf_obj (node_fields n)" using ann wf by (simp add: annotated_node_def wf_obj_def)
  have C: "c \<in> set (field_classes fs) \<longleftrightarrow> (\<exists>k nm. (k, Category nm c) \<in> set fs)" for c and fs :: "field obj"
    by (force simp: field_classes_def split: field.splits)
  show ?thesis
  proof (intro set_eqI iffI)
    fix c assume "c \<in> set (field_classes (node_fields a))"
    then obtain k nm where k: "(k, Category nm c) \<in> set (node_fields a)" using C by blast
    then have "\<exists>h nm'. map_of (node_fields n) k = Some h \<and> h = Category nm' c"
      using ann by (fastforce simp: annotated_node_def annotated_field_def)
    then show "c \<in> set (field_classes (node_fields n))" using C map_of_SomeD by metis
  next
    fix c assume "c \<in> set (field_classes (node_fields n))"
    then obtain k nm where k: "(k, Category nm c) \<in> set (node_fields n)" using C by blast
    then have kn: "map_of (node_fields n) k = Some (Category nm c)" using wfn by (simp add: map_of_wf_obj)
    have "k \<in> set (keys (node_fields a))" using ann in_keysI [OF k] by (simp add: annotated_node_def)
    then obtain f where f: "(k, f) \<in> set (node_fields a)" by (auto simp: keys_def)
    then obtain g h where "map_of (node_fields n) k = Some h" "annotated_field f g (\<phi> k) h"
      using ann by (fastforce simp: annotated_node_def)
    then have "\<exists>nm'. f = Category nm' c" using kn by (cases f) (auto simp: annotated_field_def)
    then show "c \<in> set (field_classes (node_fields a))" using C f by blast
  qed
qed

lemma node_accepts_fields: "node_accepts \<delta> \<gamma> \<nu> \<phi> a b \<Longrightarrow> fields_accept \<delta> \<gamma> \<phi> (node_fields a) (node_fields b)"
  by (simp add: node_accepts_def)

lemma accepted_class:
  assumes acc: "schema_accepts \<delta> \<gamma> \<nu> \<phi> A B" and valid: "valid_schema A" "valid_schema B" and c: "c \<in> set (keys (categoryClasses A))"
  shows "\<exists>d. \<gamma> c = Some d \<and> name_format d"
proof -
  obtain k a where ka: "(k, a) \<in> set (nodes A)" and cf: "c \<in> set (field_classes (node_fields a))"
    using wf_refs_class_used [OF valid_schema_parts(1) [OF valid(1)] c] .
  obtain j nm where j: "(j, Category nm c) \<in> set (node_fields a)"
    using cf by (force simp: field_classes_def split: field.splits)
  obtain b where "node_accepts \<delta> \<gamma> \<nu> (\<phi> k) a b" using acc ka by (fastforce simp: schema_accepts_def)
  from node_accepts_fields [OF this] j obtain g where "field_accepts \<delta> \<gamma> (Category nm c) g"
    by (fastforce simp: fields_accept_def)
  then obtain d where d: "\<gamma> c = Some d" by (auto simp: field_accepts_def split: field.splits)
  then have "d \<in> set (keys (categoryClasses B))"
    using acc by (fastforce simp: schema_accepts_def classes_agree_def in_keys_iff)
  moreover have "list_all name_format (keys (categoryClasses B))"
    using valid_schema_parts(1) [OF valid(2)] by (simp add: wf_refs_def)
  ultimately show ?thesis using d by (auto simp: list_all_iff)
qed

lemma build_schema_total:
  assumes acc: "schema_accepts (map_of ds) (map_of cs) \<nu> \<phi> A B" and valid: "valid_schema A" "valid_schema B"
    and nds: "wf_obj nds" "set (keys nds) = set (keys (nodes A))"
    and ann: "\<And>k a. (k, a) \<in> set (nodes A) \<Longrightarrow> \<exists>b n. map_of nds k = Some n \<and> annotated_node a b (\<phi> k) n"
  shows "\<exists>M. build_schema A (ds, cs, nds) = Inr M"
proof -
  let ?f = "\<lambda>k c. new_Class (dim_to_js (class_dim c)) (class_arg cs k)"
  note V = valid_schema_parts [OF valid(1)]
  have "\<exists>c'. ?f k c = Inr c'" if kc: "(k, c) \<in> set (categoryClasses A)" for k c
  proof -
    have "k \<in> set (keys (categoryClasses A))" using kc by (force simp: keys_def)
    from accepted_class [OF acc valid this] obtain d where d: "map_of cs k = Some d" "name_format d" by blast
    have "wf_class \<lparr>class_dim = class_dim c, class_srcName = Some d\<rparr>"
      using V(6) [OF kc] d(2) by (simp add: wf_class_def wf_srcName_def)
    then have "?f k c = Inr \<lparr>class_dim = class_dim c, class_srcName = Some d\<rparr>"
      using d(1) by (simp add: new_Class_iff class_arg_def get_def name_to_js_def)
    then show ?thesis by blast
  qed
  then obtain classes where classes: "obj_mapE ?f (categoryClasses A) = Inr classes" using obj_mapE_ex by metis
  let ?M = "\<lparr>nodes = nds, categoryClasses = classes, cyclic = cyclic A, undirected = undirected A, fanin = fanin A,
    srcDims = JObj (obj_map dim_to_js ds)\<rparr>"
  have kc: "keys classes = keys (categoryClasses A)" using keys_obj_mapE [OF classes] .
  have wfA: "wf_refs A" using V(1) .
  have ex: "\<exists>a. (k, a) \<in> set (nodes A) \<and> node_links n = node_links a \<and> isSingleton n = isSingleton a
      \<and> set (field_classes (node_fields n)) = set (field_classes (node_fields a))" if "(k, n) \<in> set nds" for k n
  proof -
    have "k \<in> set (keys (nodes A))" using that nds(2) by (force simp: keys_def)
    then obtain a where a: "(k, a) \<in> set (nodes A)" by (auto simp: keys_def)
    from ann [OF this] that nds(1) obtain b where "annotated_node a b (\<phi> k) n" by (auto simp: map_of_wf_obj)
    moreover have "wf_obj (node_fields a)" using V(5) [OF a] by (simp add: proper_node_def)
    ultimately have "set (field_classes (node_fields n)) = set (field_classes (node_fields a))"
      and "node_links n = node_links a" "isSingleton n = isSingleton a"
      using annotated_classes by (auto simp: annotated_node_def)
    with a show ?thesis by blast
  qed
  have ex': "\<exists>n. (k, n) \<in> set nds \<and> isSingleton n = isSingleton a
      \<and> set (field_classes (node_fields n)) = set (field_classes (node_fields a))" if a: "(k, a) \<in> set (nodes A)" for k a
  proof -
    from ann [OF a] obtain b n where n: "map_of nds k = Some n" and an: "annotated_node a b (\<phi> k) n" by blast
    have "wf_obj (node_fields a)" using V(5) [OF a] by (simp add: proper_node_def)
    then have "set (field_classes (node_fields n)) = set (field_classes (node_fields a))" "isSingleton n = isSingleton a"
      using annotated_classes [OF an] an by (auto simp: annotated_node_def)
    with map_of_SomeD [OF n] show ?thesis by blast
  qed
  have target: "link_target nds l" if l: "l \<in> set (keys (node_links a))" and a: "(k, a) \<in> set (nodes A)" for k a l
  proof -
    have "l \<in> set (keys (nodes A))" using valid(1) l a by (fastforce simp: valid_schema_def own_refs_def)
    then obtain a' where a': "map_of (nodes A) l = Some a'" by (auto simp: in_keys_iff)
    obtain lnk where lnk: "(l, lnk) \<in> set (node_links a)" using l by (auto simp: keys_def)
    have "\<not> isSingleton a'" using wf_refs_link_target [OF wfA a lnk] by (simp add: link_target_def a')
    moreover obtain n where "map_of nds l = Some n" "isSingleton n = isSingleton a'"
      using ex' [OF map_of_SomeD [OF a']] nds(1) by (auto simp: map_of_wf_obj)
    ultimately show ?thesis by (simp add: link_target_def)
  qed
  have "wf_refs ?M"
    unfolding wf_refs_def
  proof (simp only: schema.simps, intro conjI)
    show "nds \<noteq> []" using wfA nds(2) by (auto simp: wf_refs_def keys_def)
    show "list_all name_format (keys nds)" using wfA nds(2) by (simp add: wf_refs_def list_all_iff)
    show "list_all name_format (keys classes)" using wfA kc by (simp add: wf_refs_def)
    show "\<forall>(k, n) \<in> set nds. \<forall>(l, lnk) \<in> set (node_links n). link_target nds l"
      using ex target in_keysI by fastforce
    show "undirected A \<and> \<not> fanin A \<longrightarrow> (\<forall>(k, n) \<in> set nds. chain_links (node_links n))"
      using ex wfA unfolding wf_refs_def by fastforce
    show "\<forall>(k, n) \<in> set nds. \<forall>c \<in> set (field_classes (node_fields n)). obj_in c classes"
      using ex wf_refs_class_declared [OF wfA] kc by (fastforce simp: obj_in_def)
    show "\<forall>c \<in> set (keys classes). \<exists>(k, n) \<in> set nds. c \<in> set (field_classes (node_fields n))"
    proof
      fix c assume "c \<in> set (keys classes)"
      then obtain k a where "(k, a) \<in> set (nodes A)" "c \<in> set (field_classes (node_fields a))"
        using wf_refs_class_used [OF wfA] kc by metis
      with ex' show "\<exists>(k, n) \<in> set nds. c \<in> set (field_classes (node_fields n))" by blast
    qed
    show "wf_srcDims (JObj (obj_map dim_to_js ds))"
    proof -
      have "srcDim_value (dim_to_js d)" for d by (cases d) (simp_all add: srcDim_value_def dim_to_js_def)
      then show ?thesis by (auto simp: wf_srcDims_def is_object_def js_entries_def set_obj_map)
    qed
  qed
  then have "build_schema A (ds, cs, nds) = Inr ?M"
    using classes by (simp add: build_schema_def new_Schema_iff)
  then show ?thesis by blast
qed

subsection \<open>Properties\<close>

lemma built_maps:
  assumes s: "match_singletons A B True = Inr (Some (found, nm))"
    and n: "match_nonsingletons A B True found nm = Inr (Some (found', nm'))"
    and c: "node_names False A \<noteq> [] \<longrightarrow> constraints_ok A B"
    and valid: "valid_schema A" "valid_schema B" and counts: "same_counts A B"
  shows "\<exists>M. build_schema A found' = Inr M"
proof -
  obtain ds cs nds where f: "found' = (ds, cs, nds)" by (cases found')
  from matching_found [OF s n c valid counts] obtain \<nu> fms
    where acc: "schema_accepts (map_of ds) (map_of cs) \<nu> (\<lambda>k x. key_of (map_of (fms k) x)) A B"
    and inv: "maps_inv A B found'" and doms: "\<forall>(k, a) \<in> set (nodes A). dom (map_of (fms k)) = set (keys (node_fields a))"
    and rec: "\<forall>(k, a) \<in> set (nodes A). node_recorded B found' \<nu> fms k a" and dom: "dom (map_of nds) \<subseteq> set (keys (nodes A))"
    unfolding f maps_env_def by auto
  have ann: "\<exists>b n. map_of nds k = Some n \<and> annotated_node a b (\<lambda>x. key_of (map_of (fms k) x)) n"
    if ka: "(k, a) \<in> set (nodes A)" for k a
  proof -
    obtain b n where b: "map_of (nodes B) (\<nu> k) = Some b" "build_node a b (fms k) = Inr n"
      and r: "map_of nds k = Some (n\<lparr>node_srcName := Some (\<nu> k)\<rparr>)"
      using rec ka by (auto simp: node_recorded_def f)
    have "node_accepts (map_of ds) (map_of cs) \<nu> (\<lambda>x. key_of (map_of (fms k) x)) a b"
      using acc ka b(1) by (fastforce simp: schema_accepts_def)
    then have "\<forall>(j, f) \<in> set (node_fields a). \<exists>g. map_of (node_fields b) (key_of (map_of (fms k) j)) = Some g"
      by (fastforce simp: fields_accept_def node_accepts_def)
    moreover have "wf_node a" "wf_obj (node_fields a)"
      using valid_schema_parts(4,5) [OF valid(1) ka] by (auto simp: proper_node_def)
    ultimately have "annotated_node a b (\<lambda>x. key_of (map_of (fms k) x)) n"
      using build_node_annotated [OF _ _ b(2)] doms ka by auto
    then show ?thesis using r by (auto simp: annotated_node_def)
  qed
  have "set (keys nds) = set (keys (nodes A))"
  proof
    show "set (keys nds) \<subseteq> set (keys (nodes A))" using dom by (auto simp: in_keys_iff [of _ nds])
    show "set (keys (nodes A)) \<subseteq> set (keys nds)"
    proof
      fix k assume "k \<in> set (keys (nodes A))"
      then obtain a where "(k, a) \<in> set (nodes A)" by (auto simp: keys_def)
      from ann [OF this] show "k \<in> set (keys nds)" by (auto simp: in_keys_iff)
    qed
  qed
  moreover have "wf_obj nds" using inv by (simp add: f maps_inv_def)
  ultimately show ?thesis unfolding f using build_schema_total [OF acc valid _ _ ann] by blast
qed

text \<open>The part of \<^verbatim>\<open>match\<close> after the singletons have been matched.\<close>

lemma modes_after_singletons:
  assumes "valid_schema A" "valid_schema B" "same_counts A B" and c: "\<not> (node_names False A \<noteq> [] \<and> \<not> constraints_ok A B)"
    and s': "match_singletons A B True = Inr (Some (found, nm))"
    and sF: "match_singletons A B False = Inr (Some (drop_nodes found, nm))"
    and n_modes: "match_nonsingletons A B False (drop_nodes found) nm = map_res (map_option drop_found) (match_nonsingletons A B True found nm)"
  shows "match_schema A B False =
    (case match_schema A B True of Inl e \<Rightarrow> Inl e | Inr r \<Rightarrow> Inr (MBool (\<exists>M. r = MVal M)))"
proof (cases "match_nonsingletons A B True found nm")
  case (Inl e)
  then show ?thesis using c s' sF n_modes by (auto simp: match_schema_def)
next
  case (Inr r')
  note n = this
  show ?thesis
  proof (cases r')
    case None
    then show ?thesis using c s' sF n n_modes by (auto simp: match_schema_def no_match_def)
  next
    case (Some y)
    obtain found' nm' where y: "y = (found', nm')" by (cases y)
    have "match_nonsingletons A B True found nm = Inr (Some (found', nm'))" using n Some y by simp
    from built_maps [OF s' this _ assms(1-3)] c obtain M where "build_schema A found' = Inr M" by blast
    then show ?thesis using c s' sF n n_modes Some y by (auto simp: match_schema_def drop_found_def)
  qed
qed



end
