(* ===== verification/Match_Total.thy ===== *)
theory Match_Total
  imports Match_Modes
begin

text \<open>
  \<^verbatim>\<open>match\<close> raises no exception on valid schemas with the same numbers of nodes: every lookup it makes
  finds what it looks for, every assertion holds, and every loop over arrangements ends. The one
  thing to exclude is a source node with a name that objects inherit, which is \<^verbatim>\<open>in\<close> the links
  of every node. Without the assumption on the numbers there are exceptions.
\<close>

lemma try_perms_total:
  assumes "\<And>p. mset p = mset names \<Longrightarrow> \<exists>r. f p = Inr r"
  shows "\<exists>r. try_perms names f dflt = Inr r"
proof -
  obtain ps where ps: "perm_list names = Inr ps" using heap_perms.perms_total by blast
  have "\<exists>r. search f ps = Inr r"
    by (rule search_total) (rule assms, rule heap_perms.perms_mem [OF ps])
  then show ?thesis using ps by (auto simp: try_perms_def)
qed

lemma zip_cand: "(k, k') \<in> set (zip xs ys) \<Longrightarrow> k \<in> set xs \<and> k' \<in> set ys"
  by (auto dest: set_zip_leftD set_zip_rightD)

lemma match_tensors_total:
  assumes "wf_obj (node_fields a)" "wf_obj (node_fields b)"
  shows "\<exists>r. match_tensors a b ds = Inr r"
  unfolding match_tensors_def
proof (rule try_perms_total)
  fix perm assume perm: "mset perm = mset (tensor_names b)"
  have "\<exists>r st. for_pairs (tensor_body a b ds) False (zip (tensor_names a) perm) [] = Inr (r, st) \<and> True"
  proof (rule for_pairs_total [where I = "\<lambda>_. True" and cand = "\<lambda>k k'. k \<in> set (tensor_names a) \<and> k' \<in> set (tensor_names b)"])
    show "\<forall>(k, k') \<in> set (zip (tensor_names a) perm). k \<in> set (tensor_names a) \<and> k' \<in> set (tensor_names b)"
      using mset_eq_setD [OF perm] by (auto dest: set_zip_leftD set_zip_rightD)
  next
    fix k k' st assume "k \<in> set (tensor_names a) \<and> k' \<in> set (tensor_names b)"
    then show "\<exists>r. tensor_body a b ds k k' st = Inr r \<and> (\<forall>st'. r = Some st' \<longrightarrow> True)"
      using tensor_names_props(3) [OF assms(1)] tensor_names_props(3) [OF assms(2)]
      by (auto simp: tensor_body_def matchTensor_def split: prod.splits)
  qed simp
  then show "\<exists>r. bindE (for_pairs (tensor_body a b ds) False (zip (tensor_names a) perm) []) (\<lambda>(m, updates).
      Inr (if m then Some (obj_assign [] updates, perm) else None)) = Inr r" by auto
qed

definition declares :: "sclass obj \<Rightarrow> node \<Rightarrow> bool" where
  "declares C n = (set (field_classes (node_fields n)) \<subseteq> set (keys C))"

lemma matchClass_total: "\<exists>m u. matchClass (Own ca) (Own cb) ds = Inr (m, u)"
  by (auto simp: matchClass_def matchClass_named_def split: dim.split lookup.split)

lemma matchCategory_total:
  assumes "c \<in> set (keys Ca)" "d \<in> set (keys Cb)"
  shows "\<exists>r. matchCategory (Some (Category nm c)) (Some (Category nm' d)) ds cs Ca Cb = Inr r"
proof -
  obtain ca cb where "map_of Ca c = Some ca" "map_of Cb d = Some cb" using assms by (auto simp: in_keys_iff)
  moreover obtain m u where "matchClass (Own ca) (Own cb) ds = Inr (m, u)" using matchClass_total by blast
  ultimately show ?thesis
    by (cases "matchCategory (Some (Category nm c)) (Some (Category nm' d)) ds cs Ca Cb")
      (auto simp: matchCategory_def class_key_def get_def split: if_splits)
qed

lemma match_categories_total:
  assumes wf: "wf_obj (node_fields a)" "wf_obj (node_fields b)" and decl: "declares Ca a" "declares Cb b"
  shows "\<exists>r. match_categories a b ds cs Ca Cb u = Inr r"
  unfolding match_categories_def
proof (rule try_perms_total)
  fix perm assume perm: "mset perm = mset (category_names b)"
  have "\<exists>r st. for_pairs (category_body a b ds cs Ca Cb) False (zip (category_names a) perm) (obj_assign [] u, []) = Inr (r, st) \<and> True"
  proof (rule for_pairs_total [where I = "\<lambda>_. True" and cand = "\<lambda>k k'. k \<in> set (category_names a) \<and> k' \<in> set (category_names b)"])
    show "\<forall>(k, k') \<in> set (zip (category_names a) perm). k \<in> set (category_names a) \<and> k' \<in> set (category_names b)"
      using mset_eq_setD [OF perm] by (auto dest: set_zip_leftD set_zip_rightD)
  next
    fix k k' st assume "k \<in> set (category_names a) \<and> k' \<in> set (category_names b)"
    then obtain nm c nm' d where f: "map_of (node_fields a) k = Some (Category nm c)" "map_of (node_fields b) k' = Some (Category nm' d)"
      using tensor_names_props(4) [OF wf(1)] tensor_names_props(4) [OF wf(2)] by blast
    then have "c \<in> set (keys Ca)" "d \<in> set (keys Cb)"
      using decl field_classes_mem [OF map_of_SomeD] unfolding declares_def by blast+
    from matchCategory_total [OF this]
    obtain r where "matchCategory (Some (Category nm c)) (Some (Category nm' d)) (obj_assign ds (fst st)) (obj_assign cs (snd st)) Ca Cb
        = Inr r" by blast
    then show "\<exists>r. category_body a b ds cs Ca Cb k k' st = Inr r \<and> (\<forall>st'. r = Some st' \<longrightarrow> True)"
      using f by (cases r) (simp add: category_body_def)
  qed simp
  then show "\<exists>r. bindE (for_pairs (category_body a b ds cs Ca Cb) False (zip (category_names a) perm) (obj_assign [] u, [])) (\<lambda>(m, st).
      Inr (if m then Some ((obj_assign u (fst st), obj_assign [] (snd st)), perm) else None)) = Inr r" by auto
qed

lemma match_links_total:
  assumes "\<forall>n \<in> set (keys ls). \<not> inherited (source_node_name nm n)"
  shows "\<exists>m. match_links ls sl nm = Inr m"
  using assms
proof (induction ls)
  case (Cons nl ls)
  obtain n l where nl: "nl = (n, l)" by (cases nl)
  let ?s = "source_node_name nm n"
  obtain m where m: "match_links ls sl nm = Inr m" using Cons by (auto simp: keys_def)
  have "\<not> inherited ?s" using Cons.prems by (simp add: nl keys_def)
  show ?case
  proof (cases "map_of sl ?s")
    case None
    then have "match_links (nl # ls) sl nm = Inr False"
      using \<open>\<not> inherited ?s\<close> by (simp add: nl Let_def obj_in_def map_of_eq_None_keys)
    then show ?thesis by blast
  next
    case (Some l')
    obtain b where "matchLink l (Some l') = Inr b" by (simp add: matchLink_def)
    then have "match_links (nl # ls) sl nm = (if \<not> obj_in ?s sl \<or> \<not> b then Inr False else Inr m)"
      using m by (simp add: nl Let_def Some)
    then show ?thesis by (cases "\<not> obj_in ?s sl \<or> \<not> b") auto
  qed
qed (intro exI [of _ True], simp)

lemma matchNode_total:
  assumes "proper_node a" "proper_node b" "declares Ca a" "declares Cb b"
    and "\<forall>n \<in> set (keys (node_links a)). \<not> inherited (source_node_name nm n)"
  shows "\<exists>r. matchNode (Some a) (Some b) ds cs nm Ca Cb False = Inr r"
proof -
  have wf: "wf_obj (node_fields a)" "wf_obj (node_fields b)" using assms(1,2) by (auto simp: proper_node_def)
  obtain ts where ts: "match_tensors a b ds = Inr ts" using match_tensors_total [OF wf] by blast
  obtain m where m: "match_links (node_links a) (node_links b) nm = Inr m" using match_links_total [OF assms(5)] by blast
  have "\<exists>r. matchNode_found a b ds cs Ca Cb False = Inr r"
  proof (cases ts)
    case None
    then show ?thesis using ts by (simp add: matchNode_found_def)
  next
    case (Some x)
    obtain u tp where x: "x = (u, tp)" by (cases x)
    obtain r where "match_categories a b ds cs Ca Cb u = Inr r" using match_categories_total [OF wf assms(3,4)] by blast
    then show ?thesis using ts Some x by (cases r) (auto simp: matchNode_found_def)
  qed
  then show ?thesis using m by (cases m) (simp_all add: matchNode_def)
qed

subsection \<open>Schemas\<close>

lemma node_step_total:
  assumes valid: "valid_schema A" "valid_schema B" and k: "k \<in> set (keys (nodes A))" "k' \<in> set (keys (nodes B))"
    and links: "\<And>a n. map_of (nodes A) k = Some a \<Longrightarrow> n \<in> set (keys (node_links a)) \<Longrightarrow> \<not> inherited (source_node_name nm n)"
  shows "\<exists>r. node_step A B False ds cs nm (Some k) (Some k') st = Inr r"
proof -
  obtain a b where a: "map_of (nodes A) k = Some a" and b: "map_of (nodes B) k' = Some b" using k by (auto simp: in_keys_iff)
  have "declares (categoryClasses A) a" "declares (categoryClasses B) b"
    using valid map_of_SomeD [OF a] map_of_SomeD [OF b] by (auto simp: valid_schema_def own_refs_def declares_def)
  moreover have "proper_node a" "proper_node b"
    using valid_schema_parts(5) valid map_of_SomeD [OF a] map_of_SomeD [OF b] by blast+
  ultimately obtain r where "matchNode (Some a) (Some b) ds cs nm (categoryClasses A) (categoryClasses B) False = Inr r"
    using matchNode_total links [OF a] by metis
  then show ?thesis using a b by (cases st; cases r) (simp add: node_step_def)
qed

lemma match_singletons_total:
  assumes valid: "valid_schema A" "valid_schema B" and len: "length (node_names True A) = length (node_names True B)"
  shows "\<exists>r. match_singletons A B False = Inr r"
  unfolding match_singletons_def Let_def
proof (rule try_perms_total)
  fix perm assume perm: "mset perm = mset (node_names True B)"
  let ?xs = "node_names True A"
  note NA = node_names_props [OF valid_schema_parts(2) [OF valid(1)]]
    and NB = node_names_props [OF valid_schema_parts(2) [OF valid(2)]]
  have "\<exists>r st. for_pairs (singleton_body A B False) False (zip (pad (length (node_names True B)) ?xs) (map Some perm)) ([], [], []) = Inr (r, st) \<and> True"
  proof (rule for_pairs_total [where I = "\<lambda>_. True" and cand = "\<lambda>k k'. k \<in> Some ` set ?xs \<and> k' \<in> Some ` set (node_names True B)"])
    show "\<forall>(k, k') \<in> set (zip (pad (length (node_names True B)) ?xs) (map Some perm)). k \<in> Some ` set ?xs \<and> k' \<in> Some ` set (node_names True B)"
      using mset_eq_setD [OF perm] len by (auto dest!: zip_cand)
  next
    fix k k' st assume "k \<in> Some ` set ?xs \<and> k' \<in> Some ` set (node_names True B)"
    then obtain j j' where j: "k = Some j" "k' = Some j'" "j \<in> set ?xs" "j' \<in> set (node_names True B)" by blast
    have "node_links a = []" if "map_of (nodes A) j = Some a" for a
      using valid_schema_parts(4) [OF valid(1) map_of_SomeD [OF that]] that j(3) NA(2) [of j True]
      by (simp add: wf_node_def wf_node_shape_def)
    moreover have "j \<in> set (keys (nodes A))" "j' \<in> set (keys (nodes B))" using j NA(4) NB(4) by blast+
    ultimately have "\<exists>r. node_step A B False (obj_assign [] (fst st)) (obj_assign [] (fst (snd st))) [] (Some j) (Some j') st = Inr r"
      by (intro node_step_total [OF valid]) auto
    then show "\<exists>r. singleton_body A B False k k' st = Inr r \<and> (\<forall>st'. r = Some st' \<longrightarrow> True)"
      by (simp add: singleton_body_def j(1,2))
  qed simp
  then show "\<exists>r. bindE (for_pairs (singleton_body A B False) False (zip (pad (length (node_names True B)) ?xs) (map Some perm)) ([], [], []))
      (\<lambda>(m, dims, classNames, ns). Inr (if m then Some ((obj_assign [] dims, obj_assign [] classNames, obj_assign [] ns),
        put_names ?xs (pad (length ?xs) perm) []) else None)) = Inr r" by auto
qed

text \<open>The node map is a map into the source's nodes.\<close>

lemma source_node_name_range:
  assumes "distinct xs" "distinct ys" "length xs = length ps" "length ys = length qs" "set xs \<inter> set ys = {}"
    and "nm = put_names ys (map Some qs) (obj_assign [] (put_names xs (map Some ps) []))" and k: "k \<in> set (xs @ ys)"
  shows "source_node_name nm k \<in> set (ps @ qs)"
proof -
  have "length (xs @ ys) = length (ps @ qs)" using assms(3,4) by simp
  from map_of_zip_is_Some [OF this, of k] k obtain v where v: "map_of (zip (xs @ ys) (ps @ qs)) k = Some v" by blast
  have "source_node_name nm k = v" using source_node_name_zip [OF assms] v by simp
  moreover have "v \<in> set (ps @ qs)" using map_of_SomeD [OF v] set_zip_rightD by metis
  ultimately show ?thesis by simp
qed

lemma match_nonsingletons_total:
  assumes valid: "valid_schema A" "valid_schema B" and counts: "same_counts A B"
    and names: "\<forall>k \<in> set (keys (nodes B)). \<not> inherited k"
    and ps: "mset ps = mset (node_names True B)" and nm: "nm = put_names (node_names True A) (map Some ps) []"
  shows "\<exists>r. match_nonsingletons A B False found nm = Inr r"
proof -
  obtain d0 c0 n0 where found: "found = (d0, c0, n0)" by (cases found)
  let ?xs = "node_names True A" and ?ys = "node_names False A"
  note NA = node_names_props [OF valid_schema_parts(2) [OF valid(1)]]
    and NB = node_names_props [OF valid_schema_parts(2) [OF valid(2)]]
  show ?thesis
    unfolding match_nonsingletons_def Let_def found prod.case
  proof (rule try_perms_total)
    fix qs assume qs: "mset qs = mset (node_names False B)"
    have lens: "length ?xs = length ps" "length ?ys = length qs"
      using counts ps qs by (metis same_counts_def size_mset)+
    have sets: "set (ps @ qs) = set (keys (nodes B))" using mset_eq_setD [OF ps] mset_eq_setD [OF qs] NB(4) by auto
    let ?nm = "put_names ?ys (pad (length ?ys) qs) (obj_assign [] nm)"
    have inh: "\<not> inherited (source_node_name ?nm n)" if "n \<in> set (keys (nodes A))" for n
    proof -
      have n: "n \<in> set (?xs @ ?ys)" using that NA(4) by simp
      have "source_node_name ?nm n \<in> set (ps @ qs)"
        by (rule source_node_name_range [OF NA(1) NA(1) lens NA(3) _ n]) (simp add: nm lens(2) [symmetric])
      then have "source_node_name ?nm n \<in> set (keys (nodes B))" by (simp only: sets)
      then show ?thesis using names by blast
    qed
    have "\<exists>r st. for_pairs (nonsingleton_body A B False ?nm) False (zip (map Some ?ys) (pad (length ?ys) qs))
        (obj_assign [] d0, obj_assign [] c0, []) = Inr (r, st) \<and> True"
    proof (rule for_pairs_total [where I = "\<lambda>_. True" and cand = "\<lambda>k k'. k \<in> Some ` set ?ys \<and> k' \<in> Some ` set (node_names False B)"])
      show "\<forall>(k, k') \<in> set (zip (map Some ?ys) (pad (length ?ys) qs)). k \<in> Some ` set ?ys \<and> k' \<in> Some ` set (node_names False B)"
        using mset_eq_setD [OF qs] lens by (auto dest!: zip_cand)
    next
      fix k k' st assume "k \<in> Some ` set ?ys \<and> k' \<in> Some ` set (node_names False B)"
      then obtain j j' where j: "k = Some j" "k' = Some j'" "j \<in> set ?ys" "j' \<in> set (node_names False B)" by blast
      have jk: "j \<in> set (keys (nodes A))" "j' \<in> set (keys (nodes B))" using j NA(4) NB(4) by blast+
      have "\<not> inherited (source_node_name ?nm n)" if "map_of (nodes A) j = Some a" "n \<in> set (keys (node_links a))" for a n
        using inh valid(1) that map_of_SomeD [OF that(1)] by (fastforce simp: valid_schema_def own_refs_def)
      then show "\<exists>r. nonsingleton_body A B False ?nm k k' st = Inr r \<and> (\<forall>st'. r = Some st' \<longrightarrow> True)"
        using node_step_total [OF valid jk] j by (simp add: nonsingleton_body_def)
    qed simp
    then show "\<exists>r. bindE (for_pairs (nonsingleton_body A B False ?nm) False (zip (map Some ?ys) (pad (length ?ys) qs))
        (obj_assign [] d0, obj_assign [] c0, [])) (\<lambda>(m, dims, classNames, ns).
        Inr (if m then Some ((obj_assign d0 dims, obj_assign c0 classNames, obj_assign n0 ns), obj_assign nm ?nm) else None)) = Inr r"
      by auto
  qed
qed

subsection \<open>Properties\<close>



text \<open>With fewer singletons in the destination than in the source, \<^verbatim>\<open>match\<close> reads past the end of its
  list of names and raises a TypeError instead of answering.\<close>

definition tiny_dst :: schema where
  "tiny_dst = \<lparr>nodes = [(''a'', \<lparr>isSingleton = True, node_fields = [(''field'', Tensor None [DInt 1] JNull)], node_links = [], node_srcName = None\<rparr>)],
    categoryClasses = [], cyclic = False, undirected = False, fanin = False, srcDims = JNull\<rparr>"

definition tiny_src :: schema where
  "tiny_src = tiny_dst\<lparr>nodes := nodes tiny_dst @ [(''b'', \<lparr>isSingleton = True, node_fields = [(''field'', Tensor None [DInt 1] JNull)],
    node_links = [], node_srcName = None\<rparr>)]\<rparr>"

theorem match_more_singletons:
  "valid_schema tiny_dst \<and> valid_schema tiny_src \<and> match_schema tiny_dst tiny_src False = Inl TypeError"
proof (intro conjI)
  show "valid_schema tiny_dst" "valid_schema tiny_src" by code_simp+
  show "match_schema tiny_dst tiny_src False = Inl TypeError" by code_simp
qed

end
