(* ===== verification/Match_Self.thy ===== *)
theory Match_Self
  imports Match_Correct
begin

text \<open>
  A schema accepts itself. On the arrangement that the iterator yields first, every step of
  \<^verbatim>\<open>match\<close> succeeds with maps that map names to themselves, provided no dimension and no class
  has a name that every JavaScript object inherits; such a name is \<^verbatim>\<open>in\<close> every map.
\<close>

subsection \<open>Identity maps\<close>

definition id_dims :: "dim obj \<Rightarrow> bool" where
  "id_dims m = (wf_obj m \<and> (\<forall>x d. map_of m x = Some d \<longrightarrow> d = DStr x))"

definition id_names :: "string obj \<Rightarrow> bool" where
  "id_names m = (wf_obj m \<and> (\<forall>x d. map_of m x = Some d \<longrightarrow> d = x))"

definition plain_dim :: "dim \<Rightarrow> bool" where
  "plain_dim d = (case base_of d of DInt n \<Rightarrow> True | DStr x \<Rightarrow> \<not> inherited x)"

definition plain_field :: "field \<Rightarrow> bool" where
  "plain_field f = (case f of Tensor _ ds _ \<Rightarrow> (\<forall>d \<in> set ds. plain_dim d) | Category _ c \<Rightarrow> \<not> inherited c)"

definition plain_names :: "schema \<Rightarrow> bool" where
  "plain_names s =
     ((\<forall>(k, n) \<in> set (nodes s). \<forall>(j, f) \<in> set (node_fields n). plain_field f) \<and>
      (\<forall>(c, cl) \<in> set (categoryClasses s). plain_dim (class_dim cl)))"

lemma id_dims_Nil [simp]: "id_dims []" and id_names_Nil [simp]: "id_names []"
  by (simp_all add: id_dims_def id_names_def)

lemma id_dims_assign [simp]: "id_dims a \<Longrightarrow> id_dims b \<Longrightarrow> id_dims (obj_assign a b)"
  by (auto simp: id_dims_def map_add_Some_iff)

lemma id_names_assign [simp]: "id_names a \<Longrightarrow> id_names b \<Longrightarrow> id_names (obj_assign a b)"
  by (auto simp: id_names_def map_add_Some_iff)

lemma id_dims_single [simp]: "id_dims (obj_put k (DStr k) [])" and id_names_single [simp]: "id_names (obj_put k k [])"
  by (auto simp: id_dims_def id_names_def)

lemma head_match_self:
  assumes "id_dims m" and "plain_dim d"
  shows "head_match (base_of d) (base_of d) m" and "id_dims (head_update (base_of d) (base_of d))"
proof -
  show "head_match (base_of d) (base_of d) m"
  proof (cases "base_of d")
    case (DStr x)
    have "map_of m x = None \<or> map_of m x = Some (DStr x)"
      using assms(1) by (cases "map_of m x") (auto simp: id_dims_def)
    then show ?thesis using assms(2) by (auto simp: DStr head_match_def plain_dim_def obj_in_def in_keys_iff)
  qed (simp add: head_match_def)
  show "id_dims (head_update (base_of d) (base_of d))"
    by (auto simp: head_update_def split: dim.splits)
qed

lemma matchDimList_self:
  "id_dims m \<Longrightarrow> \<forall>d \<in> set ds. plain_dim d \<Longrightarrow> \<exists>u. matchDimList ds ds m = (True, u) \<and> id_dims u"
proof (induction ds arbitrary: m)
  case (Cons d ds)
  have p: "plain_dim d" using Cons.prems by simp
  note h = head_match_self [OF Cons.prems(1) p]
  have "id_dims (obj_assign m (head_update (base_of d) (base_of d)))" using Cons.prems(1) h(2) by simp
  from Cons.IH [OF this] Cons.prems obtain u where
    u: "matchDimList ds ds (obj_assign m (head_update (base_of d) (base_of d))) = (True, u)" "id_dims u" by auto
  then show ?case using h by (simp add: Let_def)
qed simp

subsection \<open>Fields and links\<close>

lemma matchClass_self:
  assumes "id_dims m" and "wf_class cl" and "plain_dim (class_dim cl)"
  shows "\<exists>u. matchClass (Own cl) (Own cl) m = Inr (True, u) \<and> id_dims u"
proof (cases "class_dim cl")
  case (DInt n)
  then show ?thesis by (simp add: matchClass_def)
next
  case (DStr k)
  then have nf: "name_format k" using assms(2) by (simp add: wf_class_def)
  then have "\<not> inherited k" "dim_truthy (DStr k)" using assms(3) DStr
    by (auto simp: plain_dim_def dim_truthy_def name_format_def)
  then show ?thesis
    using assms(1) DStr by (auto simp: matchClass_def matchClass_named_def get_def id_dims_def split: option.splits)
qed

lemma matchCategory_self:
  assumes "id_dims ds" "id_names cs" and "\<not> inherited c" and "map_of C c = Some cl" "wf_class cl" "plain_dim (class_dim cl)"
  shows "\<exists>u v. matchCategory (Some (Category nm c)) (Some (Category nm c)) ds cs C C = Inr (True, u, v) \<and> id_dims u \<and> id_names v"
proof (cases "obj_in c cs")
  case True
  then have "map_of cs c = Some c" using assms(2,3) by (auto simp: obj_in_def in_keys_iff id_names_def)
  then show ?thesis using True by (simp add: matchCategory_def class_key_def)
next
  case False
  then show ?thesis using matchClass_self [OF assms(1,5,6)] assms(4)
    by (auto simp: matchCategory_def class_key_def get_def)
qed

lemma matchLink_self: "wf_link l \<Longrightarrow> matchLink l (Some l) = Inr True"
  by (auto simp: matchLink_def split: bound.splits)

lemma match_links_self:
  assumes "\<forall>(n, l) \<in> set ls. map_of ms n = Some l \<and> wf_link l \<and> source_node_name nm n = n"
  shows "match_links ls ms nm = Inr True"
  using assms
proof (induction ls)
  case (Cons nl ls)
  then show ?case by (cases nl) (auto simp: Let_def obj_in_def in_keys_iff matchLink_self)
qed simp

subsection \<open>The first arrangement\<close>

lemma perm_list_first: "xs \<noteq> [] \<Longrightarrow> \<exists>ps. perm_list xs = Inr (xs # ps)"
  using perm_list_heap [of xs] heap_length [of "length xs" xs] heap_fresh [of "length xs" xs]
  by (cases "pending (fresh (length xs)) xs") (auto simp: Let_def Suc_le_eq)

lemma try_perms_first:
  assumes "names \<noteq> [] \<Longrightarrow> f names = Inr (Some r)" and "names = [] \<Longrightarrow> r = dflt"
  shows "try_perms names f dflt = Inr (Some r)"
proof (cases "names = []")
  case True
  then show ?thesis using assms(2) by (simp add: try_perms_def)
next
  case False
  then show ?thesis using perm_list_first [OF False] assms(1) by (auto simp: try_perms_def)
qed

subsection \<open>Nodes\<close>

definition id_pair :: "dim obj \<times> string obj \<Rightarrow> bool" where
  "id_pair st = (id_dims (fst st) \<and> id_names (snd st))"

lemma zip_self: "(a, b) \<in> set (zip xs xs) \<Longrightarrow> a = b \<and> a \<in> set xs"
  by (metis in_set_zip nth_mem prod.sel)

lemma tensor_body_self:
  assumes "map_of (node_fields a) k = Some (Tensor nm as sd)" and "\<forall>d \<in> set as. plain_dim d" and "id_dims ds" "id_dims st"
  shows "\<exists>st'. tensor_body a a ds k k st = Inr (Some st') \<and> id_dims st'"
  using matchDimList_self [of "obj_assign st ds" as] assms by (auto simp: tensor_body_def matchTensor_def)

lemma match_tensors_self:
  assumes wf: "wf_obj (node_fields a)" and plain: "\<forall>(j, f) \<in> set (node_fields a). plain_field f" and ds: "id_dims ds"
  shows "\<exists>u perm. match_tensors a a ds = Inr (Some (u, perm)) \<and> id_dims u"
proof -
  have "\<exists>st'. for_pairs (tensor_body a a ds) False (zip (tensor_names a) (tensor_names a)) [] =
      Inr (False \<or> zip (tensor_names a) (tensor_names a) \<noteq> [], st') \<and> id_dims st'"
  proof (rule for_pairs_all [where I = id_dims and cand = "\<lambda>k k'. k = k' \<and> k \<in> set (tensor_names a)"])
    fix k k' st assume "k = k' \<and> k \<in> set (tensor_names a)" "id_dims st"
    then obtain nm as sd where f: "map_of (node_fields a) k = Some (Tensor nm as sd)" "k = k'"
      using tensor_names_props(3) [OF wf] by blast
    then have "\<forall>d \<in> set as. plain_dim d" using plain map_of_SomeD [OF f(1)] by (auto simp: plain_field_def)
    then show "\<exists>st'. tensor_body a a ds k k' st = Inr (Some st') \<and> id_dims st'"
      using tensor_body_self [OF f(1) _ ds] \<open>id_dims st\<close> f(2) by blast
  qed (auto dest: zip_self)
  then obtain u where u: "for_pairs (tensor_body a a ds) False (zip (tensor_names a) (tensor_names a)) [] =
      Inr (tensor_names a \<noteq> [], u)" "id_dims u" by (auto simp: zip_eq_Nil_iff)
  show ?thesis
  proof (cases "tensor_names a = []")
    case True
    then show ?thesis unfolding match_tensors_def by (intro exI conjI, intro try_perms_first) auto
  next
    case False
    with u have "match_tensors a a ds = Inr (Some (obj_assign [] u, tensor_names a))"
      unfolding match_tensors_def by (intro try_perms_first) auto
    then show ?thesis using u(2) by auto
  qed
qed

lemma match_categories_self:
  assumes wf: "wf_obj (node_fields a)" and plain: "\<forall>(j, f) \<in> set (node_fields a). plain_field f"
    and maps: "id_dims ds" "id_names cs" "id_dims u"
    and C: "\<forall>c \<in> set (field_classes (node_fields a)). \<exists>cl. map_of C c = Some cl \<and> wf_class cl \<and> plain_dim (class_dim cl)"
  shows "\<exists>d c perm. match_categories a a ds cs C C u = Inr (Some ((d, c), perm)) \<and> id_dims d \<and> id_names c"
proof -
  have "\<exists>st'. for_pairs (category_body a a ds cs C C) False (zip (category_names a) (category_names a)) (obj_assign [] u, []) =
      Inr (False \<or> zip (category_names a) (category_names a) \<noteq> [], st') \<and> id_pair st'"
  proof (rule for_pairs_all [where I = id_pair and cand = "\<lambda>k k'. k = k' \<and> k \<in> set (category_names a)"])
    fix k k' st assume k: "k = k' \<and> k \<in> set (category_names a)" "id_pair st"
    then obtain nm c where f: "map_of (node_fields a) k = Some (Category nm c)" "k = k'"
      using tensor_names_props(4) [OF wf] by blast
    then have "\<not> inherited c" using plain map_of_SomeD [OF f(1)] by (auto simp: plain_field_def)
    moreover obtain cl where "map_of C c = Some cl" "wf_class cl" "plain_dim (class_dim cl)"
      using C field_classes_mem [OF map_of_SomeD [OF f(1)]] by blast
    ultimately have "\<exists>u v. matchCategory (Some (Category nm c)) (Some (Category nm c)) (obj_assign ds (fst st)) (obj_assign cs (snd st)) C C
        = Inr (True, u, v) \<and> id_dims u \<and> id_names v"
      using maps k(2) by (intro matchCategory_self) (auto simp: id_pair_def)
    then show "\<exists>st'. category_body a a ds cs C C k k' st = Inr (Some st') \<and> id_pair st'"
      using f k(2) by (auto simp: category_body_def id_pair_def)
  qed (use maps in \<open>auto simp: id_pair_def dest: zip_self\<close>)
  then obtain d c where u: "for_pairs (category_body a a ds cs C C) False (zip (category_names a) (category_names a)) (obj_assign [] u, []) =
      Inr (category_names a \<noteq> [], (d, c))" "id_dims d" "id_names c" by (auto simp: zip_eq_Nil_iff id_pair_def)
  show ?thesis
  proof (cases "category_names a = []")
    case True
    then have "match_categories a a ds cs C C u = Inr (Some ((u, []), []))"
      unfolding match_categories_def by (intro try_perms_first) auto
    then show ?thesis using maps by simp
  next
    case False
    with u have "match_categories a a ds cs C C u = Inr (Some ((obj_assign u d, obj_assign [] c), category_names a))"
      unfolding match_categories_def by (intro try_perms_first) auto
    then show ?thesis using u(2,3) maps by auto
  qed
qed

lemma matchNode_self:
  assumes "wf_obj (node_fields a)" and "\<forall>(j, f) \<in> set (node_fields a). plain_field f"
    and "\<forall>c \<in> set (field_classes (node_fields a)). \<exists>cl. map_of C c = Some cl \<and> wf_class cl \<and> plain_dim (class_dim cl)"
    and "\<forall>(n, l) \<in> set (node_links a). map_of (node_links a) n = Some l \<and> wf_link l \<and> source_node_name nm n = n"
    and "id_dims ds" "id_names cs"
  shows "\<exists>d c. matchNode (Some a) (Some a) ds cs nm C C False = Inr (MBool True, d, c) \<and> id_dims d \<and> id_names c"
proof -
  obtain u perm where t: "match_tensors a a ds = Inr (Some (u, perm))" "id_dims u"
    using match_tensors_self [OF assms(1,2,5)] by blast
  obtain d c perm' where "match_categories a a ds cs C C u = Inr (Some ((d, c), perm'))" "id_dims d" "id_names c"
    using match_categories_self [OF assms(1,2,5,6) t(2) assms(3)] by blast
  then show ?thesis
    using t match_links_self [OF assms(4)] by (simp add: matchNode_def counts_match_def matchNode_found_def)
qed

subsection \<open>Schemas\<close>

definition id_maps :: "match_maps \<Rightarrow> bool" where
  "id_maps st = (id_dims (fst st) \<and> id_names (fst (snd st)))"

lemma node_step_self:
  assumes valid: "valid_schema s" and plain: "plain_names s" and k: "map_of (nodes s) k = Some a"
    and links: "\<forall>n \<in> set (keys (node_links a)). source_node_name nm n = n"
    and maps: "id_dims ds" "id_names cs" "id_maps st"
  shows "\<exists>st'. node_step s s False ds cs nm (Some k) (Some k) st = Inr (Some st') \<and> id_maps st'"
proof -
  have ka: "(k, a) \<in> set (nodes s)" using map_of_SomeD [OF k] .
  note V = valid_schema_parts [OF valid]
  have wf: "wf_obj (node_fields a)" "wf_obj (node_links a)" using V(5) [OF ka] by (auto simp: proper_node_def)
  have "\<forall>(j, f) \<in> set (node_fields a). plain_field f" using plain ka by (auto simp: plain_names_def)
  moreover have "\<exists>cl. map_of (categoryClasses s) c = Some cl \<and> wf_class cl \<and> plain_dim (class_dim cl)"
    if "c \<in> set (field_classes (node_fields a))" for c
  proof -
    have "c \<in> set (keys (categoryClasses s))" using valid ka that by (fastforce simp: valid_schema_def own_refs_def)
    then obtain cl where cl: "map_of (categoryClasses s) c = Some cl" by (auto simp: in_keys_iff)
    then show ?thesis using V(6) plain map_of_SomeD [OF cl] by (auto simp: plain_names_def)
  qed
  moreover have "\<forall>(n, l) \<in> set (node_links a). map_of (node_links a) n = Some l \<and> wf_link l \<and> source_node_name nm n = n"
    using V(4) [OF ka] links wf(2) by (auto simp: wf_node_def map_of_wf_obj keys_def)
  ultimately obtain d c where "matchNode (Some a) (Some a) ds cs nm (categoryClasses s) (categoryClasses s) False = Inr (MBool True, d, c)"
    "id_dims d" "id_names c"
    using matchNode_self [OF wf(1) _ _ _ maps(1,2)] by blast
  then show ?thesis using k maps(3) by (cases st) (auto simp: node_step_def is_match_def id_maps_def)
qed

lemma match_singletons_self:
  assumes valid: "valid_schema s" and plain: "plain_names s"
  shows "\<exists>found. match_singletons s s False = Inr (Some (found, put_names (node_names True s) (map Some (node_names True s)) [])) \<and> id_maps found"
proof -
  let ?xs = "node_names True s"
  note N = node_names_props [OF valid_schema_parts(2) [OF valid]]
  have "\<exists>st'. for_pairs (singleton_body s s False) False (zip (map Some ?xs) (map Some ?xs)) ([], [], []) =
      Inr (False \<or> zip (map Some ?xs) (map Some ?xs) \<noteq> [], st') \<and> id_maps st'"
  proof (rule for_pairs_all [where I = id_maps and cand = "\<lambda>k k'. k = k' \<and> k \<in> Some ` set ?xs"])
    fix k k' st assume k: "k = k' \<and> k \<in> Some ` set ?xs" and st: "id_maps st"
    then obtain j where "k = Some j" "j \<in> set ?xs" by blast
    moreover from this obtain a where "map_of (nodes s) j = Some a" "isSingleton a" using N(2) [of j True] by auto
    ultimately obtain a where j: "k = Some j" "map_of (nodes s) j = Some a" "isSingleton a" by blast
    have "node_links a = []"
      using valid_schema_parts(4) [OF valid map_of_SomeD [OF j(2)]] j(3) by (simp add: wf_node_def wf_node_shape_def)
    then show "\<exists>st'. singleton_body s s False k k' st = Inr (Some st') \<and> id_maps st'"
      using node_step_self [OF valid plain j(2), of "[]" "obj_assign [] (fst st)" "obj_assign [] (fst (snd st))" st] st k j(1)
      by (auto simp: singleton_body_def id_maps_def)
  qed (auto simp: id_maps_def zip_Some dest: zip_self)
  then obtain d c ns where u: "for_pairs (singleton_body s s False) False (zip (map Some ?xs) (map Some ?xs)) ([], [], []) =
      Inr (?xs \<noteq> [], (d, c, ns))" "id_maps (d, c, ns)" by (auto simp: zip_eq_Nil_iff)
  show ?thesis
  proof (cases "?xs = []")
    case True
    then have "match_singletons s s False = Inr (Some (([], [], []), []))"
      unfolding match_singletons_def Let_def by (intro try_perms_first) auto
    then show ?thesis using True by (simp add: id_maps_def put_names_def)
  next
    case False
    with u have "match_singletons s s False =
        Inr (Some ((obj_assign [] d, obj_assign [] c, obj_assign [] ns), put_names ?xs (map Some ?xs) []))"
      unfolding match_singletons_def Let_def by (intro try_perms_first) auto
    then show ?thesis using u(2) by (auto simp: id_maps_def)
  qed
qed

lemma match_nonsingletons_self:
  assumes valid: "valid_schema s" and plain: "plain_names s" and found: "id_maps found"
    and nm: "nm = put_names (node_names True s) (map Some (node_names True s)) []"
  shows "\<exists>r. match_nonsingletons s s False found nm = Inr (Some r)"
proof -
  let ?xs = "node_names True s" and ?ys = "node_names False s"
  obtain d0 c0 n0 where f: "found = (d0, c0, n0)" by (cases found)
  note N = node_names_props [OF valid_schema_parts(2) [OF valid]]
  define copy where "copy = put_names ?ys (map Some ?ys) (obj_assign [] nm)"
  have src: "source_node_name copy n = n" if "n \<in> set (keys (nodes s))" for n
  proof -
    have n: "n \<in> set (?xs @ ?ys)" using that N(4) by auto
    have "source_node_name copy n = key_of (map_of (zip (?xs @ ?ys) (?xs @ ?ys)) n)"
      by (rule source_node_name_zip [OF N(1) N(1) refl refl N(3) _ n]) (simp add: copy_def nm)
    moreover obtain v where v: "map_of (zip (?xs @ ?ys) (?xs @ ?ys)) n = Some v"
      using n map_of_zip_is_Some [OF refl, of n "?xs @ ?ys"] by blast
    moreover have "v = n" using zip_self [OF map_of_SomeD [OF v]] by simp
    ultimately show ?thesis by simp
  qed
  have "\<exists>st'. for_pairs (nonsingleton_body s s False copy) False (zip (map Some ?ys) (map Some ?ys)) (obj_assign [] d0, obj_assign [] c0, []) =
      Inr (False \<or> zip (map Some ?ys) (map Some ?ys) \<noteq> [], st') \<and> id_maps st'"
  proof (rule for_pairs_all [where I = id_maps and cand = "\<lambda>k k'. k = k' \<and> k \<in> Some ` set ?ys"])
    fix k k' st assume k: "k = k' \<and> k \<in> Some ` set ?ys" and st: "id_maps st"
    then obtain j where "k = Some j" "j \<in> set ?ys" by blast
    moreover from this obtain a where "map_of (nodes s) j = Some a" using N(2) [of j False] by auto
    ultimately obtain a where j: "k = Some j" "map_of (nodes s) j = Some a" by blast
    have "\<forall>n \<in> set (keys (node_links a)). source_node_name copy n = n"
      using src valid map_of_SomeD [OF j(2)] by (fastforce simp: valid_schema_def own_refs_def)
    then show "\<exists>st'. nonsingleton_body s s False copy k k' st = Inr (Some st') \<and> id_maps st'"
      using node_step_self [OF valid plain j(2), of copy "fst st" "fst (snd st)" st] st k j(1)
      by (auto simp: nonsingleton_body_def id_maps_def)
  qed (use found in \<open>auto simp: id_maps_def f zip_Some dest: zip_self\<close>)
  then obtain d c ns where u: "for_pairs (nonsingleton_body s s False copy) False (zip (map Some ?ys) (map Some ?ys))
      (obj_assign [] d0, obj_assign [] c0, []) = Inr (?ys \<noteq> [], (d, c, ns))" by (auto simp: zip_eq_Nil_iff)
  show ?thesis
  proof (cases "?ys = []")
    case True
    then show ?thesis unfolding match_nonsingletons_def Let_def f prod.case by (intro exI, intro try_perms_first) auto
  next
    case False
    with u show ?thesis
      unfolding match_nonsingletons_def Let_def f prod.case
      by (intro exI, intro try_perms_first) (auto simp: copy_def)
  qed
qed

subsection \<open>Properties\<close>

text \<open>C10. Every valid schema accepts itself, if none of its dimensions and classes has a name that
  JavaScript objects inherit: \<^verbatim>\<open>match\<close> runs to the end without an exception and returns true.\<close>

theorem match_self:
  assumes "valid_schema s" "plain_names s"
  shows "match_schema s s False = Inr (MBool True)"
proof -
  obtain found where s: "match_singletons s s False = Inr (Some (found, put_names (node_names True s) (map Some (node_names True s)) []))"
    "id_maps found" using match_singletons_self [OF assms] by blast
  obtain r where "match_nonsingletons s s False found (put_names (node_names True s) (map Some (node_names True s)) []) = Inr (Some r)"
    using match_nonsingletons_self [OF assms s(2) refl] by blast
  then show ?thesis using s(1) by (cases r) (simp add: match_schema_def constraints_ok_def)
qed

theorem match_self_witness: "match_schema demo_dst demo_dst False = Inr (MBool True)"
proof -
  have "plain_names demo_dst" by code_simp
  then show ?thesis by (rule match_self [OF demo_valid(1)])
qed

text \<open>The condition on names is needed: a valid schema whose tensor has a dimension named
  \<^verbatim>\<open>constructor\<close> is rejected when it is matched with itself.\<close>

definition proto_schema :: schema where
  "proto_schema = \<lparr>nodes = [(''x'', \<lparr>isSingleton = True, node_fields = [(''field'', Tensor None [DStr ''constructor''] JNull)],
      node_links = [], node_srcName = None\<rparr>)], categoryClasses = [], cyclic = False, undirected = False, fanin = False, srcDims = JNull\<rparr>"

theorem match_self_inherited_name:
  "valid_schema proto_schema \<and> match_schema proto_schema proto_schema False = Inr (MBool False)"
proof
  show "valid_schema proto_schema" by code_simp
  show "match_schema proto_schema proto_schema False = Inr (MBool False)" by code_simp
qed

end
