(* ===== verification/Match_Limits.thy ===== *)
theory Match_Limits
  imports Match_Self
begin

text \<open>
  Where \<^verbatim>\<open>Schema.prototype.match\<close> departs from the specification \<open>schema_accepts\<close>: it commits to the
  first arrangement of the singletons that works on its own, so it can miss a matching, and
  it does not compare the numbers of nodes, so a source without non-singleton nodes is accepted
  whatever non-singleton nodes the destination asks for.
\<close>

subsection \<open>A matching that is missed\<close>

definition vec_node :: "bool \<Rightarrow> string \<Rightarrow> dim list \<Rightarrow> node" where
  "vec_node sing k ds = \<lparr>isSingleton = sing, node_fields = [(k, Tensor None ds JNull)], node_links = [], node_srcName = None\<rparr>"

definition node_schema :: "node obj \<Rightarrow> schema" where
  "node_schema ns = \<lparr>nodes = ns, categoryClasses = [], cyclic = False, undirected = False, fanin = False, srcDims = JNull\<rparr>"

definition two_vectors :: schema where
  "two_vectors = node_schema
     [(''p'', vec_node True ''field'' [DStr ''a'']), (''q'', vec_node True ''field'' [DStr ''b'']),
      (''item'', vec_node False ''vec'' [DStr ''a''])]"

definition one_then_two :: schema where
  "one_then_two = node_schema
     [(''r'', vec_node True ''field'' [DInt 1]), (''s'', vec_node True ''field'' [DInt 2]),
      (''obs'', vec_node False ''vec'' [DInt 2])]"

lemma vec_node_accepts:
  assumes "\<delta> x = Some (DInt n)" and "name_format x"
  shows "node_accepts \<delta> \<gamma> \<nu> (\<lambda>j. j) (vec_node s k [DStr x]) (vec_node s' k [DInt n])"
proof -
  have "dim_sol \<delta> [DStr x] [DInt n]"
    unfolding dim_sol_iff_aligns using assms
    by (intro al_one al_Nil) (simp add: stands_for_def)
  then show ?thesis
    by (simp add: node_accepts_def fields_accept_def links_accept_def vec_node_def field_accepts_def keys_def bij_betw_def)
qed


subsection \<open>Nodes that are not asked for\<close>

text \<open>If the source has no non-singleton node, the non-singleton nodes of the destination are
  not considered at all: \<^verbatim>\<open>match\<close> answers as its first loop does, which looks at singletons only.\<close>

theorem match_ignores_nonsingletons:
  assumes "node_names False B = []" "constraints_ok A B"
  shows "match_schema A B False =
    (case match_singletons A B False of Inl e \<Rightarrow> Inl e | Inr r \<Rightarrow> Inr (MBool (r \<noteq> None)))"
proof -
  have "match_nonsingletons A B False found nm = Inr (Some (found, nm))" for found nm
    using assms(1) by (cases found) (simp add: match_nonsingletons_def try_perms_def)
  then show ?thesis
    using assms(2)
    by (cases "match_singletons A B False") (auto simp: match_schema_def no_match_def split: option.split)
qed

theorem match_ignores_nonsingletons_witness:
  "match_schema two_vectors (node_schema [(''r'', vec_node True ''field'' [DInt 1]), (''s'', vec_node True ''field'' [DInt 2])]) False
    = Inr (MBool True)"
proof -
  let ?B = "node_schema [(''r'', vec_node True ''field'' [DInt 1]), (''s'', vec_node True ''field'' [DInt 2])]"
  have *: "node_names False ?B = []" "constraints_ok two_vectors ?B" by code_simp+
  have "case match_singletons two_vectors ?B False of Inl e \<Rightarrow> False | Inr r \<Rightarrow> r \<noteq> None" by code_simp
  then show ?thesis
    unfolding match_ignores_nonsingletons [OF *] by (auto split: sum.splits)
qed

end
