(* ===== verification/Js_Text.thy ===== *)
theory Js_Text
  imports Js_Base
begin

text \<open>
  What the data set code uses of JavaScript strings, \<^verbatim>\<open>Map\<close> and \<^verbatim>\<open>Set\<close>: white space, \<^verbatim>\<open>split\<close>,
  \<^verbatim>\<open>join\<close>, decimal numbers as text, and collections in insertion order. A \<^verbatim>\<open>Map\<close> differs from an
  object: its keys are enumerated in insertion order whatever they look like, and nothing is
  inherited.
\<close>

subsection \<open>White space and words\<close>

text \<open>The characters that \<^verbatim>\<open>\s\<close> and \<^verbatim>\<open>trim\<close> know, among those below 256.\<close>

definition is_space :: "char \<Rightarrow> bool" where
  "is_space c = ((of_char c :: nat) \<in> {9, 10, 11, 12, 13, 32, 160})"

text \<open>The maximal runs of other characters.\<close>

function words :: "string \<Rightarrow> string list" where
  "words s =
     (let t = dropWhile is_space s
      in if t = [] then [] else takeWhile (\<lambda>c. \<not> is_space c) t # words (dropWhile (\<lambda>c. \<not> is_space c) t))"
  by pat_completeness auto
termination
proof (relation "measure length", goal_cases)
  case (2 s t)
  then have "t \<noteq> []" "\<not> is_space (hd t)" using hd_dropWhile [of is_space s] by auto
  then have "dropWhile (\<lambda>c. \<not> is_space c) t = dropWhile (\<lambda>c. \<not> is_space c) (tl t)" by (cases t) auto
  then have "length (dropWhile (\<lambda>c. \<not> is_space c) t) < length t"
    using length_dropWhile_le [of _ "tl t"] \<open>t \<noteq> []\<close> by (cases t) (auto simp: less_Suc_eq_le)
  then show ?case using length_dropWhile_le [of is_space s] 2 by simp
qed simp

declare words.simps [simp del]

definition trim :: "string \<Rightarrow> string" where
  "trim s = rev (dropWhile is_space (rev (dropWhile is_space s)))"

text \<open>\<^verbatim>\<open>xs.join(sep)\<close>\<close>

fun join :: "string \<Rightarrow> string list \<Rightarrow> string" where
  "join sep [] = []"
| "join sep [x] = x"
| "join sep (x # y # ys) = x @ sep @ join sep (y # ys)"

text \<open>\<^verbatim>\<open>s.split(sep)\<close> for a single character.\<close>

fun split_on :: "char \<Rightarrow> string \<Rightarrow> string list" where
  "split_on sep [] = [[]]"
| "split_on sep (c # cs) =
     (if c = sep then [] # split_on sep cs
      else case split_on sep cs of [] \<Rightarrow> [[c]] | w # ws \<Rightarrow> (c # w) # ws)"

text \<open>\<^verbatim>\<open>s.trim().replace(/\s+/g, ' ')\<close>: the words, separated by single blanks.\<close>

definition normalize_space :: "string \<Rightarrow> string" where
  "normalize_space s = join '' '' (words s)"

subsection \<open>Numbers as text\<close>

definition int_text :: "int \<Rightarrow> string" where
  "int_text i = (if i < 0 then CHR ''-'' # digits_of (nat (- i)) else digits_of (nat i))"

text \<open>\<^verbatim>\<open>parseInt\<close>, \<open>None\<close> for NaN; the prefix \<^verbatim>\<open>0x\<close> cannot occur where the sources use it.\<close>

definition parse_int :: "string \<Rightarrow> int option" where
  "parse_int s =
     (let t = dropWhile is_space s;
          negative = (t \<noteq> [] \<and> hd t = CHR ''-'');
          u = (if t \<noteq> [] \<and> (hd t = CHR ''-'' \<or> hd t = CHR ''+'') then tl t else t);
          ds = takeWhile is_digit u
      in if ds = [] then None else Some (if negative then - int (decimal ds) else int (decimal ds)))"

subsection \<open>Map and Set\<close>

type_synonym ('k, 'v) jmap = "('k \<times> 'v) list"

text \<open>\<^verbatim>\<open>m.set(k, v)\<close>: an existing key keeps its place.\<close>

fun jmap_set :: "'k \<Rightarrow> 'v \<Rightarrow> ('k, 'v) jmap \<Rightarrow> ('k, 'v) jmap" where
  "jmap_set k v [] = [(k, v)]"
| "jmap_set k v ((k', v') # m) = (if k = k' then (k, v) # m else (k', v') # jmap_set k v m)"

definition set_add :: "'a \<Rightarrow> 'a list \<Rightarrow> 'a list" where
  "set_add x s = (if x \<in> set s then s else s @ [x])"

definition set_delete :: "'a \<Rightarrow> 'a list \<Rightarrow> 'a list" where
  "set_delete x s = removeAll x s"

lemma map_of_jmap_set [simp]: "map_of (jmap_set k v m) = (map_of m)(k \<mapsto> v)"
  by (induction k v m rule: jmap_set.induct) auto

lemma keys_jmap_set: "map fst (jmap_set k v m) = set_add k (map fst m)"
  by (induction k v m rule: jmap_set.induct) (auto simp: set_add_def)

lemma set_set_add [simp]: "set (set_add x s) = insert x (set s)"
  by (auto simp: set_add_def)

lemma distinct_set_add [simp]: "distinct (set_add x s) = distinct s"
  by (auto simp: set_add_def)

lemma set_set_delete [simp]: "set (set_delete x s) = set s - {x}"
  by (simp add: set_delete_def)

lemma distinct_set_delete [simp, intro]: "distinct s \<Longrightarrow> distinct (set_delete x s)"
  by (simp add: set_delete_def distinct_removeAll)

lemma length_set_delete: "x \<in> set s \<Longrightarrow> length (set_delete x s) < length s"
  unfolding set_delete_def by (rule length_removeAll_less)

lemma distinct_jmap_set [simp]: "distinct (map fst (jmap_set k v m)) = distinct (map fst m)"
  by (simp add: keys_jmap_set)

subsection \<open>Lemmas on text\<close>

lemma words_Nil [simp]: "words [] = []"
  by (simp add: words.simps)

lemma words_space [simp]: "is_space d \<Longrightarrow> words (d # s) = words s"
  by (simp add: words.simps [of "d # s"] words.simps [of s])

lemma words_nonspace: "w \<in> set (words s) \<Longrightarrow> w \<noteq> [] \<and> (\<forall>c \<in> set w. \<not> is_space c)"
proof (induction s rule: words.induct)
  case (1 s)
  let ?t = "dropWhile is_space s"
  have ne: "?t \<noteq> []"
  proof
    assume "?t = []"
    then have "words s = []" by (simp add: words.simps [of s])
    then show False using "1.prems" by simp
  qed
  then have hd: "\<not> is_space (hd ?t)" using hd_dropWhile by blast
  consider "w = takeWhile (\<lambda>c. \<not> is_space c) ?t" | "w \<in> set (words (dropWhile (\<lambda>c. \<not> is_space c) ?t))"
    using "1.prems" unfolding words.simps [of s] Let_def if_not_P [OF ne] by auto
  then show ?case
  proof cases
    case 1
    then show ?thesis using ne hd by (cases ?t) (auto dest: set_takeWhileD)
  next
    case 2
    then show ?thesis using "1.IH" [OF refl ne] by blast
  qed
qed

lemma words_append_space:
  assumes "w \<noteq> []" and "\<forall>c \<in> set w. \<not> is_space c"
  shows "words w = [w]" and "is_space d \<Longrightarrow> words (w @ d # s) = w # words s"
proof -
  have "dropWhile is_space (w @ r) = w @ r" for r using assms by (cases w) auto
  moreover have "dropWhile (\<lambda>c. \<not> is_space c) w = []" using assms by simp
  ultimately show "words w = [w]" and "is_space d \<Longrightarrow> words (w @ d # s) = w # words s"
    using assms by (simp_all add: words.simps [of w] words.simps [of "w @ d # s"] takeWhile_append dropWhile_append
      del: dropWhile_eq_Nil_conv)
qed

lemma words_join: "\<forall>w \<in> set ws. w \<noteq> [] \<and> (\<forall>c \<in> set w. \<not> is_space c) \<Longrightarrow> words (join '' '' ws) = ws"
proof (induction ws rule: induct_list012)
  case (3 x y zs)
  have "is_space CHR '' ''" by code_simp
  then show ?case using 3 by (simp add: words_append_space)
qed (simp_all add: words_append_space)

lemma normalize_space_idem: "normalize_space (normalize_space s) = normalize_space s"
  unfolding normalize_space_def using words_join words_nonspace by metis

lemma split_on_nonempty [simp]: "split_on c s \<noteq> []"
  by (induction s) (auto split: list.split)

lemma split_on_single: "c \<notin> set s \<Longrightarrow> split_on c s = [s]"
  by (induction s) auto

lemma split_on_append: "c \<notin> set s \<Longrightarrow> split_on c (s @ c # t) = s # split_on c t"
  by (induction s) auto

lemma digits_of_digits: "list_all is_digit (digits_of n) \<and> digits_of n \<noteq> []"
proof (induction n rule: digits_of.induct)
  case (1 n)
  have d: "is_digit (char_of (48 + m))" if "m < 10" for m :: nat
    using that by (simp add: is_digit_def)
  show ?case using 1 d [of n] d [of "n mod 10"] by (simp add: digits_of.simps [of n])
qed

lemma decimal_append: "decimal (s @ [c]) = 10 * decimal s + (of_char c - 48)"
  by (simp add: decimal_def)

lemma decimal_digits_of [simp]: "decimal (digits_of n) = n"
proof (induction n rule: digits_of.induct)
  case (1 n)
  have d: "decimal [char_of (48 + m)] = m" if "m < 10" for m :: nat
    using that by (simp add: decimal_def)
  show ?case
  proof (cases "n < 10")
    case True
    then show ?thesis using d by (simp add: digits_of.simps [of n])
  next
    case False
    have "of_char (char_of (48 + n mod 10) :: char) - 48 = n mod 10" by simp
    then show ?thesis using 1 False by (simp add: digits_of.simps [of n] decimal_append)
  qed
qed

lemma digits_of_inj: "digits_of m = digits_of n \<Longrightarrow> m = n"
  by (metis decimal_digits_of)

lemma digit_not_space: "is_digit c \<Longrightarrow> \<not> is_space c"
  by (auto simp: is_digit_def is_space_def)

lemma not_digits: "\<not> is_digit CHR ''-''" "\<not> is_digit CHR ''+''" "\<not> is_digit CHR ''/''" "\<not> is_digit CHR '' ''"
  by code_simp+

lemma parse_int_digits_of [simp]: "parse_int (digits_of n) = Some (int n)"
proof -
  have d: "\<forall>c \<in> set (digits_of n). is_digit c" and ne: "digits_of n \<noteq> []"
    using digits_of_digits [of n] by (auto simp: list_all_iff)
  have "dropWhile is_space (digits_of n) = digits_of n"
    using d ne digit_not_space by (cases "digits_of n") auto
  moreover have tw: "takeWhile is_digit (digits_of n) = digits_of n" using d by simp
  moreover have "hd (digits_of n) \<noteq> CHR ''-''" "hd (digits_of n) \<noteq> CHR ''+''"
    using d ne not_digits by (metis list.set_sel(1))+
  ultimately show ?thesis using ne by (simp add: parse_int_def Let_def tw del: takeWhile_eq_all_conv)
qed

lemma int_text_nonneg: "0 \<le> i \<Longrightarrow> int_text i = digits_of (nat i)"
  by (simp add: int_text_def)

lemma digits_facts: "c \<in> set (digits_of n) \<Longrightarrow> is_digit c"
  using digits_of_digits [of n] by (auto simp: list_all_iff)

lemma digit_facts: "is_digit c \<Longrightarrow> name_char c"
  by (simp add: name_char_def)

end
