(* ===== verification/Io.thy ===== *)
theory Io
  imports Js_Text "HOL-Library.Word"
begin

text \<open>
  Input and output as the data set code sees it: operations that read and change a world and may
  throw (\<open>io\<close>), bytes and buffers, the class \<^verbatim>\<open>ReaderWriterCloser\<close> of \<^verbatim>\<open>src/reader-writer-closer.js\<close>
  as a table of methods (\<open>methods\<close>), openers as that table with the two ways an opener is called
  (\<open>opener\<close>), and the functions of Node's \<^verbatim>\<open>path\<close> module that are used.

  The loaders and writers of data sets take an opener as their argument, as the source does; the
  openers of the repository are in theory \<open>Openers\<close>.
\<close>

subsection \<open>Operations on a world\<close>

type_synonym ('w, 'a) io = "'w \<Rightarrow> 'a res \<times> 'w"

definition ret :: "'a \<Rightarrow> ('w, 'a) io" where
  "ret x = (\<lambda>w. (Inr x, w))"

definition throw :: "js_error \<Rightarrow> ('w, 'a) io" where
  "throw e = (\<lambda>w. (Inl e, w))"

definition lift :: "'a res \<Rightarrow> ('w, 'a) io" where
  "lift r = (\<lambda>w. (r, w))"

definition bindS :: "('w, 'a) io \<Rightarrow> ('a \<Rightarrow> ('w, 'b) io) \<Rightarrow> ('w, 'b) io" where
  "bindS m f = (\<lambda>w. case m w of (Inl e, w') \<Rightarrow> (Inl e, w') | (Inr x, w') \<Rightarrow> f x w')"

text \<open>A loop over a list that updates variables.\<close>

fun foldS :: "('a \<Rightarrow> 's \<Rightarrow> ('w, 's) io) \<Rightarrow> 'a list \<Rightarrow> 's \<Rightarrow> ('w, 's) io" where
  "foldS f [] s = ret s"
| "foldS f (x # xs) s = bindS (f x s) (foldS f xs)"

named_theorems io_simps \<open>rewriting of operations on a world\<close>

lemma io_basic [simp, io_simps]:
  "ret x w = (Inr x, w)" "throw e w = (Inl e, w)" "lift r w = (r, w)"
  by (simp_all add: ret_def throw_def lift_def)

lemma bindS_simps [simp, io_simps]:
  "m w = (Inl e, w') \<Longrightarrow> bindS m f w = (Inl e, w')"
  "m w = (Inr x, w') \<Longrightarrow> bindS m f w = f x w'"
  by (simp_all add: bindS_def)

lemma bindS_ret [simp, io_simps]: "bindS (ret x) f = f x" "bindS (throw e) f = throw e"
  by (simp_all add: bindS_def fun_eq_iff)

lemma bindS_lift [simp, io_simps]: "bindS (lift (Inr x)) f = f x" "bindS (lift (Inl e)) f = throw e"
  by (simp_all add: bindS_def fun_eq_iff)

lemma bindS_assoc [simp]: "bindS (bindS m f) g = bindS m (\<lambda>x. bindS (f x) g)"
  by (simp add: bindS_def fun_eq_iff split: prod.split sum.split)

lemma bindS_cong [fundef_cong]:
  "w = w' \<Longrightarrow> m w' = m' w' \<Longrightarrow> (\<And>x w''. m' w' = (Inr x, w'') \<Longrightarrow> f x w'' = f' x w'') \<Longrightarrow> bindS m f w = bindS m' f' w'"
  by (auto simp: bindS_def split: prod.split sum.split)

lemma bindS_step: "m w = (Inr x, v) \<Longrightarrow> bindS m f w = f x v"
  by (simp add: bindS_def)

lemma bindS_Inr: "bindS m f w = (Inr y, w') \<longleftrightarrow> (\<exists>x v. m w = (Inr x, v) \<and> f x v = (Inr y, w'))"
  by (auto simp: bindS_def split: prod.split sum.split)

lemma foldS_invariant:
  "foldS f xs s w = (Inr s', w') \<Longrightarrow> I s \<Longrightarrow>
   (\<And>x t t' v v'. x \<in> set xs \<Longrightarrow> I t \<Longrightarrow> f x t v = (Inr t', v') \<Longrightarrow> I t') \<Longrightarrow> I s'"
proof (induction xs arbitrary: s w)
  case (Cons x xs)
  obtain t v where t: "f x s w = (Inr t, v)" "foldS f xs t v = (Inr s', w')" using Cons.prems(1) by (auto simp: bindS_Inr)
  have "I t" using Cons.prems(3) [OF _ Cons.prems(2) t(1)] by simp
  then show ?case by (rule Cons.IH [OF t(2)]) (rule Cons.prems(3), auto)
qed simp

lemma foldS_total:
  "(\<And>x t v. x \<in> set xs \<Longrightarrow> I t \<Longrightarrow> \<exists>t' v'. f x t v = (Inr t', v') \<and> I t') \<Longrightarrow> I s \<Longrightarrow>
   \<exists>s' w'. foldS f xs s w = (Inr s', w') \<and> I s'"
proof (induction xs arbitrary: s w)
  case (Cons x xs)
  then obtain t v where t: "f x s w = (Inr t, v)" "I t" by (meson list.set_intros(1))
  then obtain s' w' where "foldS f xs t v = (Inr s', w')" "I s'" using Cons.IH [of t v] Cons.prems(1) by auto
  then show ?case using t by (simp add: bindS_def)
qed simp

subsection \<open>Bytes and buffers\<close>

type_synonym byte = "8 word"

definition byte_of_char :: "char \<Rightarrow> byte" where
  "byte_of_char c = of_nat (of_char c)"

definition char_of_byte :: "byte \<Rightarrow> char" where
  "char_of_byte b = char_of (unat b)"

lemma char_of_byte_of_char [simp]: "char_of_byte (byte_of_char c) = c"
proof -
  have "of_char c < (256 :: nat)" by (rule nat_of_char_less_256)
  then show ?thesis by (simp add: byte_of_char_def char_of_byte_def unat_of_nat)
qed

text \<open>Setting bytes of a \<^verbatim>\<open>DataView\<close>, and the copy of bytes into a part of a buffer.\<close>

definition set_bytes :: "byte list \<Rightarrow> nat \<Rightarrow> byte list \<Rightarrow> byte list res" where
  "set_bytes buf pos bs =
     (if pos + length bs > length buf then Inl RangeError
      else Inr (take pos buf @ bs @ drop (pos + length bs) buf))"

definition zeros :: "nat \<Rightarrow> byte list" where
  "zeros n = replicate n 0"

text \<open>A number in \<open>n\<close> bytes, least significant first.\<close>

fun le_bytes :: "nat \<Rightarrow> nat \<Rightarrow> byte list" where
  "le_bytes 0 v = []"
| "le_bytes (Suc n) v = of_nat (v mod 256) # le_bytes n (v div 256)"

fun le_value :: "byte list \<Rightarrow> nat" where
  "le_value [] = 0"
| "le_value (b # bs) = unat b + 256 * le_value bs"

lemma length_le_bytes [simp]: "length (le_bytes n v) = n"
  by (induction n arbitrary: v) auto

lemma le_value_le_bytes: "le_value (le_bytes n v) = v mod 256 ^ n"
proof (induction n arbitrary: v)
  case (Suc n)
  have "v mod 256 ^ Suc n = v mod 256 + 256 * (v div 256 mod 256 ^ n)" by (simp add: mod_mult2_eq)
  then show ?case using Suc by (simp add: unat_of_nat)
qed simp

lemma le_value_bound: "le_value bs < 256 ^ length bs"
proof (induction bs)
  case (Cons b bs)
  have "unat b < 256" using unsigned_less [of b, where 'a = nat] by simp
  then show ?case using Cons by simp
qed simp

lemma le_bytes_le_value: "le_bytes (length bs) (le_value bs) = bs"
proof (induction bs)
  case (Cons b bs)
  have "unat b < 256" using unsigned_less [of b, where 'a = nat] by simp
  then show ?case using Cons by (simp add: word_unat_eq_iff unat_of_nat)
qed simp

subsection \<open>The class ReaderWriterCloser\<close>

text \<open>\<^verbatim>\<open>read(buffer, offset, length, position)\<close> fills a part of the buffer: the result is the number
  it returns and the buffer afterwards.\<close>

record ('w, 'h) methods =
  m_read :: "'h \<Rightarrow> byte list \<Rightarrow> nat \<Rightarrow> nat \<Rightarrow> nat \<Rightarrow> ('w, nat \<times> byte list) io"
  m_readLines :: "'h \<Rightarrow> ('w, string list) io"
  m_write :: "'h \<Rightarrow> byte list \<Rightarrow> nat \<Rightarrow> nat \<Rightarrow> nat \<Rightarrow> ('w, nat) io"
  m_writeLines :: "'h \<Rightarrow> string list \<Rightarrow> ('w, nat) io"
  m_close :: "'h \<Rightarrow> ('w, unit) io"

definition not_implemented :: js_error where
  "not_implemented = GenericError (Text ''Not implemented'')"

definition ReaderWriterCloser :: "('w, 'h) methods" where
  "ReaderWriterCloser =
     \<lparr>m_read = \<lambda>h buffer offset len position. throw not_implemented,
      m_readLines = \<lambda>h. throw not_implemented,
      m_write = \<lambda>h buffer offset len position. throw not_implemented,
      m_writeLines = \<lambda>h data. throw not_implemented,
      m_close = \<lambda>h. throw not_implemented\<rparr>"

text \<open>What a client that only reads relies on: while an open reader has contents, reading a range of them
  fills the front of a fresh buffer and changes nothing, and the reader can be closed.\<close>

locale byte_reader =
  fixes m :: "('w, 'h, 'z) methods_scheme" and contents :: "'h \<Rightarrow> 'w \<Rightarrow> byte list option"
  assumes read_range: "contents h w = Some bs \<Longrightarrow> pos + n \<le> length bs \<Longrightarrow>
      m_read m h (zeros (n + k)) 0 n pos w = (Inr (n, take n (drop pos bs) @ zeros k), w)"
    and close_reader: "contents h w = Some bs \<Longrightarrow> \<exists>w'. m_close m h w = (Inr (), w')"
begin

lemma read_exact:
  "contents h w = Some bs \<Longrightarrow> pos + n \<le> length bs \<Longrightarrow> m_read m h (zeros n) 0 n pos w = (Inr (n, take n (drop pos bs)), w)"
  using read_range [of h w bs pos n 0] by (simp add: zeros_def)

end

text \<open>What a client that writes relies on: bytes written inside or at the end of the file replace what was
  there, and a part of the world, such as the table of open files, stays as it is.\<close>

locale byte_writer =
  fixes m :: "('w, 'h, 'z) methods_scheme" and stored :: "'h \<Rightarrow> 'w \<Rightarrow> byte list option" and frame :: "'w \<Rightarrow> 'f"
  assumes write_at: "stored h w = Some bs \<Longrightarrow> pos \<le> length bs \<Longrightarrow>
      \<exists>w'. m_write m h buf 0 (length buf) pos w = (Inr (length buf), w') \<and>
        stored h w' = Some (take pos bs @ buf @ drop (pos + length buf) bs) \<and> frame w' = frame w"
begin

lemma append_bytes:
  assumes "stored h w = Some bs"
  obtains w' where "m_write m h buf 0 (length buf) (length bs) w = (Inr (length buf), w')" "stored h w' = Some (bs @ buf)" "frame w' = frame w"
  using write_at [OF assms, of "length bs" buf] by auto

end

text \<open>\<^verbatim>\<open>opener(root, relPath, directory, readOnly)\<close> returns a list of names for a directory, and a
  reader and writer, or null, for a file.\<close>

record ('w, 'h) opener = "('w, 'h) methods" +
  open_dir :: "string \<Rightarrow> string \<Rightarrow> bool \<Rightarrow> ('w, string list) io"
  open_file :: "string \<Rightarrow> string \<Rightarrow> bool \<Rightarrow> ('w, 'h option) io"

text \<open>A method call on what may be null.\<close>

definition call :: "('h \<Rightarrow> ('w, 'a) io) \<Rightarrow> 'h option \<Rightarrow> ('w, 'a) io" where
  "call f h = (case h of None \<Rightarrow> throw TypeError | Some x \<Rightarrow> f x)"

lemma call_Some [simp]: "call f (Some h) = f h"
  by (simp add: call_def)

subsection \<open>Paths\<close>

fun normalize_parts :: "bool \<Rightarrow> string list \<Rightarrow> string list \<Rightarrow> string list" where
  "normalize_parts absolute acc [] = rev acc"
| "normalize_parts absolute acc (p # ps) =
     (if p = [] \<or> p = ''.'' then normalize_parts absolute acc ps
      else if p = ''..'' then
        (case acc of
           a # as \<Rightarrow> if a = ''..'' then normalize_parts absolute (p # acc) ps else normalize_parts absolute as ps
         | [] \<Rightarrow> if absolute then normalize_parts absolute [] ps else normalize_parts absolute [p] ps)
      else normalize_parts absolute (p # acc) ps)"

definition path_normalize :: "string \<Rightarrow> string" where
  "path_normalize s =
     (if s = [] then ''.''
      else
        (let absolute = (hd s = CHR ''/''); trailing = (last s = CHR ''/'');
             body = join ''/'' (normalize_parts absolute [] (split_on CHR ''/'' s));
             body = (if body = [] \<and> \<not> absolute then ''.'' else body);
             body = (if body \<noteq> [] \<and> trailing then body @ ''/'' else body)
         in if absolute then CHR ''/'' # body else body))"

definition path_join :: "string \<Rightarrow> string \<Rightarrow> string" where
  "path_join a b =
     (let parts = filter (\<lambda>p. p \<noteq> []) [a, b]
      in if parts = [] then ''.'' else path_normalize (join ''/'' parts))"

text \<open>Names as directory listings have them, and joining with one.\<close>

definition entry_name :: "string \<Rightarrow> bool" where
  "entry_name s = (s \<noteq> [] \<and> CHR ''/'' \<notin> set s \<and> s \<noteq> ''.'' \<and> s \<noteq> ''..'')"

lemma normalize_entry_names:
  "\<forall>p \<in> set ps. entry_name p \<Longrightarrow> normalize_parts absolute acc ps = rev acc @ ps"
  by (induction ps arbitrary: acc) (auto simp: entry_name_def)

lemma join_nonempty: "\<forall>p \<in> set ps. p \<noteq> [] \<Longrightarrow> ps \<noteq> [] \<Longrightarrow> join sep ps \<noteq> []"
  by (induction sep ps rule: join.induct) auto

lemma split_join:
  "\<forall>p \<in> set ps. c \<notin> set p \<Longrightarrow> ps \<noteq> [] \<Longrightarrow> split_on c (join [c] ps) = ps"
  by (induction "[c]" ps rule: join.induct) (auto simp: split_on_single split_on_append)

lemma join_append: "ps \<noteq> [] \<Longrightarrow> qs \<noteq> [] \<Longrightarrow> join sep (ps @ qs) = join sep ps @ sep @ join sep qs"
proof (induction sep ps rule: join.induct)
  case (2 sep x)
  then show ?case by (cases qs) auto
qed auto

lemma join_hd_last:
  assumes "\<forall>p \<in> set ps. entry_name p" and "ps \<noteq> []"
  shows "hd (join ''/'' ps) \<noteq> CHR ''/''" and "last (join ''/'' ps) \<noteq> CHR ''/''"
proof -
  have "hd (join ''/'' ps) \<noteq> CHR ''/'' \<and> last (join ''/'' ps) \<noteq> CHR ''/''"
    using assms
  proof (induction "''/''" ps rule: join.induct)
    case (2 x)
    then have "x \<noteq> []" "CHR ''/'' \<notin> set x" by (auto simp: entry_name_def)
    then show ?case unfolding join.simps by (metis hd_in_set last_in_set)
  next
    case (3 x y zs)
    have "join ''/'' (y # zs) \<noteq> []" using 3(2) by (intro join_nonempty) (auto simp: entry_name_def)
    then show ?case using 3 by (cases x) (auto simp: entry_name_def)
  qed simp
  then show "hd (join ''/'' ps) \<noteq> CHR ''/''" and "last (join ''/'' ps) \<noteq> CHR ''/''" by auto
qed

lemma path_normalize_entries:
  assumes "\<forall>p \<in> set ps. entry_name p" and "ps \<noteq> []"
  shows "path_normalize (join ''/'' ps) = join ''/'' ps"
proof -
  have ne: "join ''/'' ps \<noteq> []" using assms by (intro join_nonempty) (auto simp: entry_name_def)
  have "split_on CHR ''/'' (join ''/'' ps) = ps" using assms by (intro split_join) (auto simp: entry_name_def)
  then show ?thesis
    using ne join_hd_last [OF assms] assms(1) by (simp add: path_normalize_def Let_def normalize_entry_names)
qed

lemma path_join_entries:
  assumes "\<forall>p \<in> set ps. entry_name p" and "entry_name n"
  shows "path_join (join ''/'' ps) n = join ''/'' (ps @ [n])"
proof -
  have n: "n \<noteq> []" using assms(2) by (simp add: entry_name_def)
  show ?thesis
  proof (cases "ps = []")
    case True
    then show ?thesis using n path_normalize_entries [of "[n]"] assms by (simp add: path_join_def)
  next
    case False
    have "join ''/'' ps \<noteq> []" using assms False by (intro join_nonempty) (auto simp: entry_name_def)
    moreover have "join ''/'' [join ''/'' ps, n] = join ''/'' (ps @ [n])" using False by (simp add: join_append)
    ultimately show ?thesis using n path_normalize_entries [of "ps @ [n]"] assms by (simp add: path_join_def)
  qed
qed

end
