(* ===== verification/Openers.thy ===== *)
theory Openers
  imports Io "HOL-Library.AList"
begin

text \<open>
  The openers of \<^verbatim>\<open>src/openers\<close>: \<^verbatim>\<open>fs-opener.js\<close> over a model of the part of Node's \<^verbatim>\<open>fs\<close> module that
  it calls, and \<^verbatim>\<open>tar-opener.js\<close> over the object tree it builds from an archive.

  Both files define their methods by assigning to \<^verbatim>\<open>ReaderWriterCloser.prototype\<close>, which they share,
  so the methods that are in effect depend on the files that have been loaded and on their order:
  \<open>install_fs\<close> and \<open>install_tar\<close> are these assignments, \<open>fs_methods\<close> is the state after \<^verbatim>\<open>fs-opener.js\<close>
  alone and \<open>package_methods\<close> the state after \<^verbatim>\<open>openers/index.js\<close>.

  File system: no links, no permissions, no trailing slashes. Object tree: a path through an
  inherited property name, or through a file as if it were an object, leaves the model
  (\<open>Unmodelled\<close>).
\<close>

subsection \<open>File system\<close>

datatype fnode = FileNode "byte list" | DirNode "(string \<times> fnode) list"

record open_fd =
  fd_path :: "string list"
  fd_write :: bool

record fsys =
  fs_tree :: fnode
  fs_cwd :: "string list"
  fs_fds :: "(nat \<times> open_fd) list"
  fs_next :: nat

datatype tnode = TBuf "byte list" | TObj "(string \<times> tnode) list"

text \<open>The state of the world: the file system, and the object tree that a tar opener holds.\<close>

record world =
  w_fs :: fsys
  w_struct :: tnode

text \<open>\<^verbatim>\<open>this\<close> of a reader and writer: one made by \<^verbatim>\<open>FsReaderWriterCloser\<close> has \<^verbatim>\<open>fd\<close> and no
  \<^verbatim>\<open>arrayBuffer\<close>, one made by \<^verbatim>\<open>TarReaderWriterCloser\<close> the other way around.\<close>

datatype handle = FsHandle nat | TarHandle "byte list"

fun fs_lookup :: "fnode \<Rightarrow> string list \<Rightarrow> fnode res" where
  "fs_lookup n [] = Inr n"
| "fs_lookup (FileNode bs) (p # ps) = Inl (SystemError ''ENOTDIR'')"
| "fs_lookup (DirNode es) (p # ps) =
     (case map_of es p of None \<Rightarrow> Inl (SystemError ''ENOENT'') | Some n \<Rightarrow> fs_lookup n ps)"

text \<open>Storing a node under a path whose directory exists.\<close>

fun fs_put :: "fnode \<Rightarrow> string list \<Rightarrow> fnode \<Rightarrow> fnode" where
  "fs_put t [] n = n"
| "fs_put (FileNode bs) (p # ps) n = FileNode bs"
| "fs_put (DirNode es) (p # ps) n =
     (case map_of es p of
        Some m \<Rightarrow> DirNode (AList.update p (fs_put m ps n) es)
      | None \<Rightarrow> if ps = [] then DirNode (es @ [(p, n)]) else DirNode es)"

definition is_absolute :: "string \<Rightarrow> bool" where
  "is_absolute p = (p \<noteq> [] \<and> hd p = CHR ''/'')"

definition fs_resolve :: "fsys \<Rightarrow> string \<Rightarrow> string list" where
  "fs_resolve s p = normalize_parts True (if is_absolute p then [] else rev (fs_cwd s)) (split_on CHR ''/'' p)"

definition readdirSync :: "string \<Rightarrow> (fsys, string list) io" where
  "readdirSync p = (\<lambda>s.
     case fs_lookup (fs_tree s) (fs_resolve s p) of
       Inl e \<Rightarrow> (Inl e, s)
     | Inr (FileNode bs) \<Rightarrow> (Inl (SystemError ''ENOTDIR''), s)
     | Inr (DirNode es) \<Rightarrow> (Inr (map fst es), s))"

definition new_fd :: "string list \<Rightarrow> bool \<Rightarrow> fsys \<Rightarrow> nat res \<times> fsys" where
  "new_fd path wr s =
     (Inr (fs_next s), s\<lparr>fs_fds := (fs_next s, \<lparr>fd_path = path, fd_write = wr\<rparr>) # fs_fds s, fs_next := fs_next s + 1\<rparr>)"

text \<open>\<^verbatim>\<open>fs.openSync(path, 'r')\<close> and \<^verbatim>\<open>fs.openSync(path, 'w')\<close>\<close>

definition openSync :: "string \<Rightarrow> bool \<Rightarrow> (fsys, nat) io" where
  "openSync p readOnly = (\<lambda>s.
     let path = fs_resolve s p
     in if readOnly then
          (case fs_lookup (fs_tree s) path of Inl e \<Rightarrow> (Inl e, s) | Inr n \<Rightarrow> new_fd path False s)
        else if path = [] then (Inl (SystemError ''EISDIR''), s)
        else
          (case fs_lookup (fs_tree s) (butlast path) of
             Inl e \<Rightarrow> (Inl e, s)
           | Inr (FileNode bs) \<Rightarrow> (Inl (SystemError ''ENOTDIR''), s)
           | Inr (DirNode es) \<Rightarrow>
               (case map_of es (last path) of
                  Some (DirNode fs) \<Rightarrow> (Inl (SystemError ''EISDIR''), s)
                | _ \<Rightarrow> new_fd path True (s\<lparr>fs_tree := fs_put (fs_tree s) path (FileNode [])\<rparr>))))"

text \<open>The contents behind a descriptor.\<close>

definition fd_contents :: "nat \<Rightarrow> fsys \<Rightarrow> byte list res" where
  "fd_contents fd s =
     (case map_of (fs_fds s) fd of
        None \<Rightarrow> Inl (SystemError ''EBADF'')
      | Some f \<Rightarrow>
          (case fs_lookup (fs_tree s) (fd_path f) of
             Inl e \<Rightarrow> Inl e
           | Inr (DirNode es) \<Rightarrow> Inl (SystemError ''EISDIR'')
           | Inr (FileNode bs) \<Rightarrow> Inr bs))"

text \<open>A descriptor made with the flag \<^verbatim>\<open>'w'\<close> is not open for reading.\<close>

definition fd_readable :: "nat \<Rightarrow> fsys \<Rightarrow> byte list res" where
  "fd_readable fd s =
     (case map_of (fs_fds s) fd of
        None \<Rightarrow> Inl (SystemError ''EBADF'')
      | Some f \<Rightarrow> if fd_write f then Inl (SystemError ''EBADF'') else fd_contents fd s)"

definition readSync :: "nat \<Rightarrow> byte list \<Rightarrow> nat \<Rightarrow> nat \<Rightarrow> nat \<Rightarrow> (fsys, nat \<times> byte list) io" where
  "readSync fd buffer offset len position = (\<lambda>s.
     if len = 0 then (Inr (0, buffer), s)
     else if offset + len > length buffer then (Inl RangeError, s)
     else
       (case fd_readable fd s of
          Inl e \<Rightarrow> (Inl e, s)
        | Inr bs \<Rightarrow>
            let got = take len (drop position bs)
            in (Inr (length got, take offset buffer @ got @ drop (offset + length got) buffer), s)))"

text \<open>\<^verbatim>\<open>fs.fstatSync(fd).size\<close>; the size of a directory is never used, since reading it fails.\<close>

definition fstatSync :: "nat \<Rightarrow> (fsys, nat) io" where
  "fstatSync fd = (\<lambda>s. (case fd_contents fd s of Inl e \<Rightarrow> Inl e | Inr bs \<Rightarrow> Inr (length bs), s))"

definition writeSync :: "nat \<Rightarrow> byte list \<Rightarrow> nat \<Rightarrow> nat \<Rightarrow> nat \<Rightarrow> (fsys, nat) io" where
  "writeSync fd buffer offset len position = (\<lambda>s.
     if offset + len > length buffer then (Inl RangeError, s)
     else
       (case map_of (fs_fds s) fd of
          None \<Rightarrow> (Inl (SystemError ''EBADF''), s)
        | Some f \<Rightarrow>
            if \<not> fd_write f then (Inl (SystemError ''EBADF''), s)
            else
              (case fd_contents fd s of
                 Inl e \<Rightarrow> (Inl e, s)
               | Inr bs \<Rightarrow>
                   let old = bs @ zeros (position - length bs);
                       new = take position old @ take len (drop offset buffer) @ drop (position + len) old
                   in (Inr len, s\<lparr>fs_tree := fs_put (fs_tree s) (fd_path f) (FileNode new)\<rparr>))))"

definition closeSync :: "nat \<Rightarrow> (fsys, unit) io" where
  "closeSync fd = (\<lambda>s.
     if map_of (fs_fds s) fd = None then (Inl (SystemError ''EBADF''), s)
     else (Inr (), s\<lparr>fs_fds := filter (\<lambda>e. fst e \<noteq> fd) (fs_fds s)\<rparr>))"

definition mkdirSync :: "string list \<Rightarrow> (fsys, unit) io" where
  "mkdirSync path = (\<lambda>s.
     if path = [] then (Inl (SystemError ''EEXIST''), s)
     else
       (case fs_lookup (fs_tree s) (butlast path) of
          Inl e \<Rightarrow> (Inl e, s)
        | Inr (FileNode bs) \<Rightarrow> (Inl (SystemError ''ENOTDIR''), s)
        | Inr (DirNode es) \<Rightarrow>
            if map_of es (last path) \<noteq> None then (Inl (SystemError ''EEXIST''), s)
            else (Inr (), s\<lparr>fs_tree := fs_put (fs_tree s) path (DirNode [])\<rparr>)))"

subsection \<open>The file system opener\<close>

text \<open>\<^verbatim>\<open>path.resolve('.', parentDir, childDir)\<close>; the parent is given by its parts.\<close>

definition path_text :: "string list \<Rightarrow> string" where
  "path_text ps = CHR ''/'' # join ''/'' ps"

definition mkdir_step :: "string \<Rightarrow> string \<Rightarrow> string list \<Rightarrow> (fsys, string list) io" where
  "mkdir_step targetDir childDir parentDir = (\<lambda>s.
     let curDir = normalize_parts True (rev parentDir) [childDir]
     in case mkdirSync curDir s of
          (Inr _, s') \<Rightarrow> (Inr curDir, s')
        | (Inl (SystemError code), s') \<Rightarrow>
            if code = ''EEXIST'' then (Inr curDir, s')
            else if code = ''ENOENT'' then
              (Inl (GenericError (Text (''EACCES: permission denied, mkdir '' @ [CHR 0x27] @ path_text parentDir @ [CHR 0x27]))), s')
            else
              (let caughtErr = (code \<in> {''EACCES'', ''EPERM'', ''EISDIR''})
               in if \<not> caughtErr \<or> targetDir = path_text curDir then (Inl (SystemError code), s')
                  else (Inr curDir, s'))
        | (Inl e, s') \<Rightarrow> (Inl e, s'))"

definition mkDirByPathSync :: "string \<Rightarrow> (fsys, string list) io" where
  "mkDirByPathSync targetDir = (\<lambda>s.
     foldS (mkdir_step targetDir) (split_on CHR ''/'' targetDir) (if is_absolute targetDir then [] else fs_cwd s) s)"

text \<open>An operation of the file system in the world.\<close>

definition in_fs :: "(fsys, 'a) io \<Rightarrow> (world, 'a) io" where
  "in_fs f = (\<lambda>w. case f (w_fs w) of (r, s) \<Rightarrow> (r, w\<lparr>w_fs := s\<rparr>))"

definition defaultOpener_dir :: "string \<Rightarrow> string \<Rightarrow> bool \<Rightarrow> (world, string list) io" where
  "defaultOpener_dir root relPath readOnly =
     (let absPath = path_join root relPath
      in bindS (if readOnly then ret [] else in_fs (mkDirByPathSync absPath)) (\<lambda>_. in_fs (readdirSync absPath)))"

definition defaultOpener_file :: "string \<Rightarrow> string \<Rightarrow> bool \<Rightarrow> (world, handle option) io" where
  "defaultOpener_file root relPath readOnly =
     (let absPath = path_join root relPath
      in bindS (in_fs (openSync absPath readOnly)) (\<lambda>fd. ret (Some (FsHandle fd))))"

text \<open>\<^verbatim>\<open>readLinesFromDataView\<close>, the same in both files: a line keeps the line ends that follow it, and
  a zero byte ends the text.\<close>

fun read_lines_loop :: "byte list \<Rightarrow> bool \<Rightarrow> string \<Rightarrow> string list \<Rightarrow> string list" where
  "read_lines_loop [] lineEnd curLine data = (if length curLine > 0 then data @ [curLine] else data)"
| "read_lines_loop (val # vs) lineEnd curLine data =
     (if val = 0 then (if length curLine > 0 then data @ [curLine] else data)
      else
        (let c = char_of_byte val
         in if c = CHR 0x0A \<or> c = CHR 0x0D then read_lines_loop vs True (curLine @ [c]) data
            else if lineEnd then read_lines_loop vs False [c] (data @ [curLine])
            else read_lines_loop vs False (curLine @ [c]) data))"

definition readLinesFromDataView :: "byte list \<Rightarrow> string list" where
  "readLinesFromDataView view = read_lines_loop view False [] []"

definition fs_read :: "handle \<Rightarrow> byte list \<Rightarrow> nat \<Rightarrow> nat \<Rightarrow> nat \<Rightarrow> (world, nat \<times> byte list) io" where
  "fs_read this buffer offset len position =
     (case this of FsHandle fd \<Rightarrow> in_fs (readSync fd buffer offset len position) | TarHandle bs \<Rightarrow> throw TypeError)"

text \<open>The size comes from \<^verbatim>\<open>fstatSync\<close>, so the whole file is read.\<close>

definition fs_readLines :: "handle \<Rightarrow> (world, string list) io" where
  "fs_readLines this =
     (case this of
        FsHandle fd \<Rightarrow>
          bindS (in_fs (fstatSync fd)) (\<lambda>len.
          bindS (in_fs (readSync fd (zeros len) 0 len 0)) (\<lambda>(n, buffer).
          ret (readLinesFromDataView (take n buffer))))
      | TarHandle bs \<Rightarrow> throw TypeError)"

definition fs_write :: "handle \<Rightarrow> byte list \<Rightarrow> nat \<Rightarrow> nat \<Rightarrow> nat \<Rightarrow> (world, nat) io" where
  "fs_write this buffer offset len position =
     (case this of FsHandle fd \<Rightarrow> in_fs (writeSync fd buffer offset len position) | TarHandle bs \<Rightarrow> throw TypeError)"

text \<open>\<^verbatim>\<open>'\n'.join(data)\<close>: a string has no method \<^verbatim>\<open>join\<close>.\<close>

definition fs_writeLines :: "handle \<Rightarrow> string list \<Rightarrow> (world, nat) io" where
  "fs_writeLines this data = throw TypeError"

definition fs_close :: "handle \<Rightarrow> (world, unit) io" where
  "fs_close this = (case this of FsHandle fd \<Rightarrow> in_fs (closeSync fd) | TarHandle bs \<Rightarrow> throw TypeError)"

definition install_fs :: "(world, handle) methods \<Rightarrow> (world, handle) methods" where
  "install_fs m =
     m\<lparr>m_read := fs_read, m_readLines := fs_readLines, m_write := fs_write, m_writeLines := fs_writeLines,
       m_close := fs_close\<rparr>"

subsection \<open>The archive opener\<close>

record extracted =
  ex_name :: string
  ex_type :: string
  ex_buffer :: "byte list"

text \<open>The inner loop of \<^verbatim>\<open>loadTarFile\<close> over the parts of a name, and the assignment after it.\<close>

fun tar_insert :: "string list \<Rightarrow> extracted \<Rightarrow> (string \<times> tnode) list \<Rightarrow> (string \<times> tnode) list res" where
  "tar_insert [] f curObj = Inr curObj"
| "tar_insert [name] f curObj =
     Inr (if name = [] then curObj
          else if ex_type f = ''0'' then obj_put name (TBuf (ex_buffer f)) curObj
          else if ex_type f = ''5'' then obj_put name (TObj []) curObj
          else curObj)"
| "tar_insert (name # next # names) f curObj =
     (case get curObj name of
        Proto \<Rightarrow> Inl Unmodelled
      | Own (TBuf bs) \<Rightarrow> Inl Unmodelled
      | Own (TObj ob) \<Rightarrow> bindE (tar_insert (next # names) f ob) (\<lambda>ob'. Inr (obj_put name (TObj ob') curObj))
      | Undef \<Rightarrow> bindE (tar_insert (next # names) f []) (\<lambda>ob'. Inr (obj_put name (TObj ob') curObj)))"

datatype ('e, 'a) promise = Resolved 'a | Rejected 'e

text \<open>\<^verbatim>\<open>loadTarFile\<close>: \<open>content\<close> is what the browser's \<^verbatim>\<open>FileReader\<close> delivers (an error event or the
  bytes) and \<open>untar\<close> the function of the package \<^verbatim>\<open>js-untar\<close>, which is not part of the sources.\<close>

definition tar_hierarchy :: "extracted list \<Rightarrow> tnode res" where
  "tar_hierarchy files =
     bindE (foldE (\<lambda>f result. tar_insert (split_on CHR ''/'' (ex_name f)) f result) files []) (\<lambda>ob. Inr (TObj ob))"

definition loadTarFile ::
  "(byte list \<Rightarrow> 'e + extracted list) \<Rightarrow> 'e + byte list \<Rightarrow> ('e, tnode) promise res" where
  "loadTarFile untar content =
     (case content of
        Inl event \<Rightarrow> Inr (Rejected event)
      | Inr bs \<Rightarrow>
          (case untar bs of
             Inl err \<Rightarrow> Inr (Rejected err)
           | Inr files \<Rightarrow> bindE (tar_hierarchy files) (\<lambda>t. Inr (Resolved t))))"

text \<open>The loop of an opener over the parts of a path: \<open>None\<close> for undefined. Reading on from undefined
  is a \<^verbatim>\<open>TypeError\<close>.\<close>

definition buffer_names :: "string list" where
  "buffer_names = [''byteLength'', ''slice'', ''resize'', ''resizable'', ''maxByteLength'', ''transfer'', ''transferToFixedLength'', ''detached'']"

fun tar_walk :: "tnode \<Rightarrow> string list \<Rightarrow> tnode option res" where
  "tar_walk n [] = Inr (Some n)"
| "tar_walk n (p # ps) =
     (case (case n of TObj ob \<Rightarrow> get ob p | TBuf bs \<Rightarrow> if inherited p \<or> p \<in> set buffer_names then Proto else Undef) of
        Proto \<Rightarrow> Inl Unmodelled
      | Undef \<Rightarrow> if ps = [] then Inr None else Inl TypeError
      | Own m \<Rightarrow> tar_walk m ps)"

text \<open>The same loop when directories are made.\<close>

fun tar_mkdirs :: "tnode \<Rightarrow> string list \<Rightarrow> tnode res" where
  "tar_mkdirs n [] = Inr n"
| "tar_mkdirs (TBuf bs) (p # ps) = Inl Unmodelled"
| "tar_mkdirs (TObj ob) (p # ps) =
     (case get ob p of
        Proto \<Rightarrow> Inl Unmodelled
      | Undef \<Rightarrow> bindE (tar_mkdirs (TObj []) ps) (\<lambda>m. Inr (TObj (obj_put p m ob)))
      | Own n \<Rightarrow> bindE (tar_mkdirs n ps) (\<lambda>m. Inr (TObj (obj_put p m ob))))"

text \<open>\<^verbatim>\<open>parent[elementName] = new ArrayBuffer()\<close> after the loop.\<close>

fun tar_create :: "tnode \<Rightarrow> string list \<Rightarrow> tnode res" where
  "tar_create n [] = Inl TypeError"
| "tar_create (TBuf bs) (p # ps) = Inl Unmodelled"
| "tar_create (TObj ob) (p # ps) =
     (case get ob p of
        Proto \<Rightarrow> Inl Unmodelled
      | Undef \<Rightarrow> if ps = [] then Inr (TObj (obj_put p (TBuf []) ob)) else Inl TypeError
      | Own n \<Rightarrow>
          if ps = [] then Inr (TObj (obj_put p (TBuf []) ob))
          else bindE (tar_create n ps) (\<lambda>m. Inr (TObj (obj_put p m ob))))"

definition tar_path :: "string \<Rightarrow> string \<Rightarrow> string list" where
  "tar_path root relPath = filter (\<lambda>p. p \<noteq> []) (split_on CHR ''/'' (root @ relPath))"

definition object_keys :: "tnode \<Rightarrow> string list" where
  "object_keys n = (case n of TObj ob \<Rightarrow> keys ob | TBuf bs \<Rightarrow> [])"

definition newOpener_dir :: "string \<Rightarrow> string \<Rightarrow> bool \<Rightarrow> (world, string list) io" where
  "newOpener_dir root relPath readOnly = (\<lambda>w.
     let path = tar_path root relPath
     in case (if readOnly then Inr (w_struct w) else tar_mkdirs (w_struct w) path) of
          Inl e \<Rightarrow> (Inl e, w)
        | Inr t \<Rightarrow>
            (case tar_walk t path of
               Inl e \<Rightarrow> Inl e
             | Inr None \<Rightarrow> Inl TypeError
             | Inr (Some n) \<Rightarrow> Inr (object_keys n), w\<lparr>w_struct := t\<rparr>))"

definition newOpener_file :: "string \<Rightarrow> string \<Rightarrow> bool \<Rightarrow> (world, handle option) io" where
  "newOpener_file root relPath readOnly = (\<lambda>w.
     let path = tar_path root relPath
     in if readOnly then
          (case tar_walk (w_struct w) path of
             Inl e \<Rightarrow> Inl e
           | Inr (Some (TBuf bs)) \<Rightarrow> Inr (Some (TarHandle bs))
           | _ \<Rightarrow> Inr None, w)
        else
          (case tar_create (w_struct w) path of
             Inl e \<Rightarrow> (Inl e, w)
           | Inr t \<Rightarrow> (Inr (Some (TarHandle [])), w\<lparr>w_struct := t\<rparr>)))"

text \<open>\<^verbatim>\<open>read\<close> copies from a part of the buffer; without an \<^verbatim>\<open>arrayBuffer\<close> the source array is empty.\<close>

definition tar_read :: "handle \<Rightarrow> byte list \<Rightarrow> nat \<Rightarrow> nat \<Rightarrow> nat \<Rightarrow> (world, nat \<times> byte list) io" where
  "tar_read this buffer offset len position =
     (case this of
        TarHandle bs \<Rightarrow>
          if position + len > length bs \<or> offset + len > length buffer then throw RangeError
          else ret (len, take offset buffer @ take len (drop position bs) @ drop (offset + len) buffer)
      | FsHandle fd \<Rightarrow> if offset > length buffer then throw RangeError else ret (len, buffer))"

definition tar_readLines :: "handle \<Rightarrow> (world, string list) io" where
  "tar_readLines this =
     (case this of TarHandle bs \<Rightarrow> ret (readLinesFromDataView bs) | FsHandle fd \<Rightarrow> throw TypeError)"

definition tar_close :: "handle \<Rightarrow> (world, unit) io" where
  "tar_close this = ret ()"

definition install_tar :: "(world, handle) methods \<Rightarrow> (world, handle) methods" where
  "install_tar m = m\<lparr>m_read := tar_read, m_readLines := tar_readLines, m_close := tar_close\<rparr>"

subsection \<open>The methods in effect\<close>

definition fs_methods :: "(world, handle) methods" where
  "fs_methods = install_fs ReaderWriterCloser"

definition tar_methods :: "(world, handle) methods" where
  "tar_methods = install_tar ReaderWriterCloser"

text \<open>\<^verbatim>\<open>openers/index.js\<close> imports \<^verbatim>\<open>fs-opener\<close> and then \<^verbatim>\<open>tar-opener\<close>.\<close>

definition package_methods :: "(world, handle) methods" where
  "package_methods = install_tar (install_fs ReaderWriterCloser)"

definition defaultOpener :: "(world, handle) methods \<Rightarrow> (world, handle) opener" where
  "defaultOpener m = methods.extend m \<lparr>open_dir = defaultOpener_dir, open_file = defaultOpener_file\<rparr>"

definition newOpener :: "(world, handle) methods \<Rightarrow> (world, handle) opener" where
  "newOpener m = methods.extend m \<lparr>open_dir = newOpener_dir, open_file = newOpener_file\<rparr>"

text \<open>Both kinds of files are readers of bytes, under the methods made for them.\<close>

definition fs_contents :: "handle \<Rightarrow> world \<Rightarrow> byte list option" where
  "fs_contents h w =
     (case h of
        FsHandle fd \<Rightarrow> (case fd_readable fd (w_fs w) of Inr bs \<Rightarrow> Some bs | Inl e \<Rightarrow> None)
      | TarHandle bs \<Rightarrow> None)"

definition fs_stored :: "handle \<Rightarrow> world \<Rightarrow> byte list option" where
  "fs_stored h w =
     (case h of
        FsHandle fd \<Rightarrow>
          (case (map_of (fs_fds (w_fs w)) fd, fd_contents fd (w_fs w)) of
             (Some f, Inr bs) \<Rightarrow> if fd_write f then Some bs else None
           | _ \<Rightarrow> None)
      | TarHandle bs \<Rightarrow> None)"

definition tar_contents :: "handle \<Rightarrow> world \<Rightarrow> byte list option" where
  "tar_contents h w = (case h of TarHandle bs \<Rightarrow> Some bs | FsHandle fd \<Rightarrow> None)"

lemma fs_contents_Some: "fs_contents h w = Some bs \<longleftrightarrow> (\<exists>fd. h = FsHandle fd \<and> fd_readable fd (w_fs w) = Inr bs)"
  by (auto simp: fs_contents_def split: handle.split sum.split)

lemma fs_stored_Some:
  "fs_stored h w = Some bs \<longleftrightarrow>
     (\<exists>fd p. h = FsHandle fd \<and> map_of (fs_fds (w_fs w)) fd = Some \<lparr>fd_path = p, fd_write = True\<rparr> \<and>
        fs_lookup (fs_tree (w_fs w)) p = Inr (FileNode bs))"
  by (auto simp: fs_stored_def fd_contents_def split: handle.split sum.split option.split fnode.split) (metis open_fd.surjective old.unit.exhaust)+

lemma tar_contents_Some: "tar_contents h w = Some bs \<longleftrightarrow> h = TarHandle bs"
  by (auto simp: tar_contents_def split: handle.split)

lemma fs_lookup_put: "fs_lookup t p = Inr (FileNode bs) \<Longrightarrow> fs_lookup (fs_put t p n) p = Inr n"
  by (induction t p n rule: fs_put.induct) (auto split: option.splits simp: update_conv')

interpretation fs_bytes: byte_reader fs_methods fs_contents
proof (unfold_locales, goal_cases)
  case (1 h w bs pos n k)
  then show ?case
    by (auto simp: fs_contents_Some fs_methods_def install_fs_def fs_read_def in_fs_def readSync_def zeros_def min_absorb2)
next
  case (2 h w bs)
  then obtain fd where "h = FsHandle fd" "fd_readable fd (w_fs w) = Inr bs" by (auto simp: fs_contents_Some)
  then show ?case
    by (auto simp: fs_methods_def install_fs_def fs_close_def in_fs_def closeSync_def fd_readable_def split: option.splits)
qed

interpretation fs_files: byte_writer fs_methods fs_stored "\<lambda>w. fs_fds (w_fs w)"
proof (unfold_locales, goal_cases)
  case (1 h w bs pos buf)
  then show ?case
    by (auto simp: fs_stored_Some fs_methods_def install_fs_def fs_write_def in_fs_def writeSync_def fd_contents_def zeros_def
        fs_lookup_put Let_def)
qed

interpretation tar_bytes: byte_reader tar_methods tar_contents
  by unfold_locales (auto simp: tar_contents_Some tar_methods_def install_tar_def tar_read_def tar_close_def zeros_def)
subsection \<open>Trees of files\<close>

text \<open>What loading a data set relies on: an opener for a root shows a tree of files, opening and reading
  leave the tree as it is. Paths are relative to the root, the root itself is the empty path.\<close>

locale tree_reader = byte_reader op contents
  for op :: "('w, 'h) opener" and contents :: "'h \<Rightarrow> 'w \<Rightarrow> byte list option" +
  fixes root :: string and tree :: "'w \<Rightarrow> fnode"
  assumes open_directory: "fs_lookup (tree w) ps = Inr (DirNode es) \<Longrightarrow> \<forall>p \<in> set ps. entry_name p \<Longrightarrow>
      open_dir op root (join ''/'' ps) True w = (Inr (map fst es), w)"
    and open_reader: "fs_lookup (tree w) ps = Inr (FileNode bs) \<Longrightarrow> \<forall>p \<in> set ps. entry_name p \<Longrightarrow> ps \<noteq> [] \<Longrightarrow>
      \<exists>h w'. open_file op root (join ''/'' ps) True w = (Inr (Some h), w') \<and> tree w' = tree w \<and> contents h w' = Some bs"
    and read_lines: "contents h w = Some bs \<Longrightarrow> m_readLines op h w = (Inr (readLinesFromDataView bs), w)"
    and close_tree: "contents h w = Some bs \<Longrightarrow> m_close op h w = (Inr (), w') \<Longrightarrow> tree w' = tree w"

text \<open>The tree below an absolute path.\<close>

definition fs_subtree :: "string list \<Rightarrow> world \<Rightarrow> fnode" where
  "fs_subtree P w =
     (if P \<noteq> [] \<and> list_all entry_name P then
        (case fs_lookup (fs_tree (w_fs w)) P of Inr t \<Rightarrow> t | Inl e \<Rightarrow> FileNode [])
      else FileNode [])"

lemma fs_lookup_append: "fs_lookup t (ps @ qs) = bindE (fs_lookup t ps) (\<lambda>n. fs_lookup n qs)"
  by (induction t ps rule: fs_lookup.induct) (auto split: option.split)

lemma fs_lookup_file: "fs_lookup (FileNode bs) ps = Inr n \<longleftrightarrow> ps = [] \<and> n = FileNode bs"
  by (cases ps) auto

lemma fs_subtree_lookup:
  assumes "fs_lookup (fs_subtree P w) ps = Inr n" and "ps \<noteq> [] \<or> (\<exists>es. n = DirNode es)"
  shows "P \<noteq> [] \<and> (\<forall>p \<in> set P. entry_name p) \<and> fs_lookup (fs_tree (w_fs w)) (P @ ps) = Inr n"
  using assms by (auto simp: fs_subtree_def fs_lookup_append fs_lookup_file list_all_iff split: if_splits sum.splits)

lemma normalize_absolute:
  assumes "\<forall>p \<in> set Q. entry_name p"
  shows "normalize_parts True [] (split_on CHR ''/'' (path_text Q)) = Q"
proof (cases "Q = []")
  case True
  then show ?thesis by (simp add: path_text_def)
next
  case False
  have "split_on CHR ''/'' (path_text Q) = [] # Q"
    using split_on_append [of "CHR ''/''" "[]" "join ''/'' Q"] split_join [of Q "CHR ''/''"] assms False
    by (auto simp: path_text_def entry_name_def)
  then show ?thesis using assms normalize_entry_names [of Q True "[]"] by simp
qed

lemma path_join_absolute:
  assumes "\<forall>p \<in> set (P @ ps). entry_name p" and "P \<noteq> []"
  shows "path_join (path_text P) (join ''/'' ps) = path_text (P @ ps)"
proof -
  have n: "path_normalize (path_text Q) = path_text Q" if "\<forall>p \<in> set Q. entry_name p" "Q \<noteq> []" for Q
  proof -
    have "join ''/'' Q \<noteq> []" using that by (intro join_nonempty) (auto simp: entry_name_def)
    moreover have "last (path_text Q) \<noteq> CHR ''/''" using join_hd_last(2) [OF that] calculation by (simp add: path_text_def)
    ultimately show ?thesis using normalize_absolute [OF that(1)] by (simp add: path_normalize_def path_text_def Let_def)
  qed
  show ?thesis
  proof (cases "ps = []")
    case True
    then show ?thesis using n [of P] assms by (simp add: path_join_def path_text_def)
  next
    case False
    have "join ''/'' ps \<noteq> []" using assms False by (intro join_nonempty) (auto simp: entry_name_def)
    moreover have "join ''/'' [path_text P, join ''/'' ps] = path_text (P @ ps)"
      using assms(2) False by (simp add: path_text_def join_append)
    ultimately show ?thesis using n [of "P @ ps"] assms by (simp add: path_join_def path_text_def)
  qed
qed

lemma fs_resolve_absolute:
  assumes "\<forall>p \<in> set Q. entry_name p"
  shows "fs_resolve s (path_text Q) = Q"
  using normalize_absolute [OF assms] by (simp add: fs_resolve_def is_absolute_def path_text_def)

lemma opener_parts:
  "open_dir (defaultOpener m) = defaultOpener_dir" "open_file (defaultOpener m) = defaultOpener_file"
  "m_read (defaultOpener m) = m_read m" "m_readLines (defaultOpener m) = m_readLines m" "m_close (defaultOpener m) = m_close m"
  "open_dir (newOpener m) = newOpener_dir" "open_file (newOpener m) = newOpener_file"
  "m_read (newOpener m) = m_read m" "m_readLines (newOpener m) = m_readLines m" "m_close (newOpener m) = m_close m"
  by (simp_all add: defaultOpener_def newOpener_def methods.defs)

interpretation fs_tree_reader: tree_reader "defaultOpener fs_methods" fs_contents "path_text P" "fs_subtree P" for P
proof (unfold_locales, goal_cases)
  case (1 h w bs pos n k)
  then show ?case using fs_bytes.read_range by (simp add: opener_parts)
next
  case (2 h w bs)
  then show ?case using fs_bytes.close_reader by (simp add: opener_parts)
next
  case (3 w ps es)
  note l = fs_subtree_lookup [OF 3(1)]
  have "\<forall>p \<in> set (P @ ps). entry_name p" using l 3(2) by auto
  then show ?case using l
    by (simp add: opener_parts defaultOpener_dir_def path_join_absolute fs_resolve_absolute in_fs_def readdirSync_def)
next
  case (4 w ps bs)
  note l = fs_subtree_lookup [OF 4(1)]
  have "\<forall>p \<in> set (P @ ps). entry_name p" using l 4(2,3) by auto
  then show ?case using l 4(3)
    by (simp add: opener_parts defaultOpener_file_def path_join_absolute fs_resolve_absolute in_fs_def openSync_def new_fd_def bindS_def
        fs_contents_Some fd_readable_def fd_contents_def fs_subtree_def Let_def)
next
  case (5 h w bs)
  then obtain fd where fd: "h = FsHandle fd" "fd_readable fd (w_fs w) = Inr bs" by (auto simp: fs_contents_Some)
  then have "fd_contents fd (w_fs w) = Inr bs" by (auto simp: fd_readable_def split: option.splits if_splits)
  then show ?case using fd
    by (simp add: opener_parts fs_methods_def install_fs_def fs_readLines_def in_fs_def fstatSync_def readSync_def bindS_def zeros_def)
next
  case (6 h w bs w')
  then show ?case
    by (auto simp: opener_parts fs_contents_Some fs_methods_def install_fs_def fs_close_def in_fs_def closeSync_def fs_subtree_def split: if_splits)
qed

text \<open>The object tree of an archive as a tree of files.\<close>

fun archive_tree :: "tnode \<Rightarrow> fnode" where
  "archive_tree (TBuf bs) = FileNode bs"
| "archive_tree (TObj ob) = DirNode (map (\<lambda>(k, n). (k, archive_tree n)) ob)"

lemma map_of_archive: "map_of (map (\<lambda>(k, n). (k, archive_tree n)) ob) p = map_option archive_tree (map_of ob p)"
  by (induction ob) auto

lemma archive_walk: "fs_lookup (archive_tree n) ps = Inr t \<Longrightarrow> \<exists>m. tar_walk n ps = Inr (Some m) \<and> archive_tree m = t"
proof (induction n ps rule: tar_walk.induct)
  case (2 n p ps)
  then obtain ob where n: "n = TObj ob" by (cases n) auto
  then obtain m where "map_of ob p = Some m" "fs_lookup (archive_tree m) ps = Inr t"
    using "2.prems" by (auto simp: map_of_archive split: option.splits)
  then show ?case using "2.IH" n by (simp add: get_def)
qed simp

lemma tar_path_relative:
  assumes "\<forall>p \<in> set ps. entry_name p"
  shows "tar_path [] (join ''/'' ps) = ps"
proof (cases "ps = []")
  case False
  then have "split_on CHR ''/'' (join ''/'' ps) = ps" using assms by (intro split_join) (auto simp: entry_name_def)
  then show ?thesis using assms by (auto simp: tar_path_def entry_name_def filter_id_conv)
qed (simp add: tar_path_def)

lemma archive_tree_cases: "archive_tree m = FileNode bs \<longleftrightarrow> m = TBuf bs"
  "archive_tree m = DirNode es \<longleftrightarrow> (\<exists>ob. m = TObj ob \<and> es = map (\<lambda>(k, n). (k, archive_tree n)) ob)"
  by (cases m; auto)+

interpretation tar_tree_reader: tree_reader "newOpener tar_methods" tar_contents "[]" "\<lambda>w. archive_tree (w_struct w)"
proof (unfold_locales, goal_cases)
  case (1 h w bs pos n k)
  then show ?case using tar_bytes.read_range by (simp add: opener_parts)
next
  case (2 h w bs)
  then show ?case using tar_bytes.close_reader by (simp add: opener_parts)
next
  case (3 w ps es)
  then obtain ob where "tar_walk (w_struct w) ps = Inr (Some (TObj ob))" "es = map (\<lambda>(k, n). (k, archive_tree n)) ob"
    using archive_walk [OF 3(1)] by (auto simp: archive_tree_cases)
  then show ?case using 3(2) by (simp add: opener_parts newOpener_dir_def tar_path_relative object_keys_def keys_def comp_def case_prod_unfold)
next
  case (4 w ps bs)
  then have "tar_walk (w_struct w) ps = Inr (Some (TBuf bs))" using archive_walk [OF 4(1)] by (auto simp: archive_tree_cases)
  then show ?case using 4(2) by (simp add: opener_parts newOpener_file_def tar_path_relative tar_contents_Some)
next
  case (5 h w bs)
  then show ?case by (simp add: opener_parts tar_contents_Some tar_methods_def install_tar_def tar_readLines_def)
next
  case (6 h w bs w')
  then show ?case by (simp add: opener_parts tar_contents_Some tar_methods_def install_tar_def tar_close_def)
qed

end
