(* ===== verification/Json.thy ===== *)
theory Json
  imports Js_Text
begin

text \<open>
  \<^verbatim>\<open>JSON.parse\<close> and the string replacements that the npy reader uses. A text that is not JSON is a
  \<^verbatim>\<open>SyntaxError\<close>. Numbers with a fraction or an exponent, and code units above 255, are outside the
  model (\<open>Unmodelled\<close>).
\<close>

subsection \<open>JSON.parse\<close>

definition json_space :: "char \<Rightarrow> bool" where
  "json_space c = ((of_char c :: nat) \<in> {9, 10, 13, 32})"

definition skip_ws :: "string \<Rightarrow> string" where
  "skip_ws s = dropWhile json_space s"

fun strip_prefix :: "string \<Rightarrow> string \<Rightarrow> string option" where
  "strip_prefix [] s = Some s"
| "strip_prefix (p # ps) [] = None"
| "strip_prefix (p # ps) (c # cs) = (if p = c then strip_prefix ps cs else None)"

definition hex_value :: "char \<Rightarrow> nat option" where
  "hex_value c =
     (let n = of_char c :: nat
      in if is_digit c then Some (n - 48)
         else if 97 \<le> n \<and> n \<le> 102 then Some (n - 87)
         else if 65 \<le> n \<and> n \<le> 70 then Some (n - 55)
         else None)"

definition quote :: char where
  "quote = CHR 0x22"

text \<open>The rest of a string after its opening quote.\<close>

fun parse_string :: "string \<Rightarrow> (string \<times> string) res" where
  "parse_string [] = Inl SyntaxError"
| "parse_string (c # cs) =
     (if c = quote then Inr ([], cs)
      else if (of_char c :: nat) < 32 then Inl SyntaxError
      else if c = CHR 0x5C then
        (case cs of
           [] \<Rightarrow> Inl SyntaxError
         | e # ds \<Rightarrow>
             (case map_of [(quote, quote), (CHR 0x5C, CHR 0x5C), (CHR ''/'', CHR ''/''), (CHR ''b'', CHR 0x08),
                           (CHR ''f'', CHR 0x0C), (CHR ''n'', CHR 0x0A), (CHR ''r'', CHR 0x0D), (CHR ''t'', CHR 0x09)] e of
                Some d \<Rightarrow> bindE (parse_string ds) (\<lambda>(s, r). Inr (d # s, r))
              | None \<Rightarrow>
                  (if e \<noteq> CHR ''u'' then Inl SyntaxError
                   else
                     (case ds of
                        h1 # h2 # h3 # h4 # fs \<Rightarrow>
                          (case (hex_value h1, hex_value h2, hex_value h3, hex_value h4) of
                             (Some a, Some b, Some x, Some y) \<Rightarrow>
                               if a = 0 \<and> b = 0 then bindE (parse_string fs) (\<lambda>(s, r). Inr (char_of (16 * x + y) # s, r))
                               else Inl Unmodelled
                           | _ \<Rightarrow> Inl SyntaxError)
                      | _ \<Rightarrow> Inl SyntaxError))))
      else bindE (parse_string cs) (\<lambda>(s, r). Inr (c # s, r)))"

definition parse_number :: "string \<Rightarrow> (jsval \<times> string) res" where
  "parse_number s =
     (let negative = (s \<noteq> [] \<and> hd s = CHR ''-''); u = (if negative then tl s else s);
          ds = takeWhile is_digit u; r = dropWhile is_digit u
      in if ds = [] \<or> 1 < length ds \<and> hd ds = CHR ''0'' then Inl SyntaxError
         else if r \<noteq> [] \<and> (hd r = CHR ''.'' \<or> hd r = CHR ''e'' \<or> hd r = CHR ''E'') then Inl Unmodelled
         else Inr (JInt (if negative then - int (decimal ds) else int (decimal ds)), r))"

text \<open>Values, and the rests of arrays and objects. The tests on lengths hold for every rest a value
  leaves; they are there for the termination proof.\<close>

function (sequential)
  parse_value :: "string \<Rightarrow> (jsval \<times> string) res" and
  parse_elements :: "string \<Rightarrow> (jsval list \<times> string) res" and
  parse_members :: "string \<Rightarrow> jsval obj \<Rightarrow> (jsval obj \<times> string) res"
where
  "parse_value s =
     (case skip_ws s of
        [] \<Rightarrow> Inl SyntaxError
      | c # cs \<Rightarrow>
          if c = quote then bindE (parse_string cs) (\<lambda>(t, r). Inr (JStr t, r))
          else if c = CHR ''['' then
            (case skip_ws cs of
               [] \<Rightarrow> Inl SyntaxError
             | d # ds \<Rightarrow>
                 if d = CHR '']'' then Inr (JArr [], ds)
                 else if length cs < length s then bindE (parse_elements cs) (\<lambda>(xs, r). Inr (JArr xs, r))
                 else Inl SyntaxError)
          else if c = CHR ''{'' then
            (case skip_ws cs of
               [] \<Rightarrow> Inl SyntaxError
             | d # ds \<Rightarrow>
                 if d = CHR ''}'' then Inr (JObj [], ds)
                 else if length cs < length s then bindE (parse_members cs []) (\<lambda>(ob, r). Inr (JObj ob, r))
                 else Inl SyntaxError)
          else
            (case strip_prefix ''null'' (c # cs) of
               Some r \<Rightarrow> Inr (JNull, r)
             | None \<Rightarrow>
                 (case strip_prefix ''true'' (c # cs) of
                    Some r \<Rightarrow> Inr (JBool True, r)
                  | None \<Rightarrow>
                      (case strip_prefix ''false'' (c # cs) of
                         Some r \<Rightarrow> Inr (JBool False, r)
                       | None \<Rightarrow> parse_number (c # cs)))))"
| "parse_elements s =
     bindE (parse_value s) (\<lambda>(v, r).
       (case skip_ws r of
          [] \<Rightarrow> Inl SyntaxError
        | c # cs \<Rightarrow>
            if c = CHR '']'' then Inr ([v], cs)
            else if c = CHR '','' \<and> length cs < length s then bindE (parse_elements cs) (\<lambda>(vs, r'). Inr (v # vs, r'))
            else Inl SyntaxError))"
| "parse_members s ob =
     (case skip_ws s of
        [] \<Rightarrow> Inl SyntaxError
      | q # qs \<Rightarrow>
          if q \<noteq> quote then Inl SyntaxError
          else
            bindE (parse_string qs) (\<lambda>(k, r).
              (case skip_ws r of
                 [] \<Rightarrow> Inl SyntaxError
               | c # cs \<Rightarrow>
                   if c \<noteq> CHR '':'' \<or> \<not> length cs < length s then Inl SyntaxError
                   else
                     bindE (parse_value cs) (\<lambda>(v, r').
                       (case skip_ws r' of
                          [] \<Rightarrow> Inl SyntaxError
                        | d # ds \<Rightarrow>
                            if d = CHR ''}'' then Inr (obj_put k v ob, ds)
                            else if d = CHR '','' \<and> length ds < length s then parse_members ds (obj_put k v ob)
                            else Inl SyntaxError)))))"
  by pat_completeness auto
termination
  by (relation "measures
        [\<lambda>x. case x of Inl s \<Rightarrow> length s | Inr (Inl s) \<Rightarrow> length s | Inr (Inr (s, ob)) \<Rightarrow> length s,
         \<lambda>x. case x of Inl s \<Rightarrow> 0 | Inr (Inl s) \<Rightarrow> 1 | Inr (Inr (s, ob)) \<Rightarrow> 1]") auto

declare parse_value.simps [simp del] parse_elements.simps [simp del] parse_members.simps [simp del]

definition JSON_parse :: "string \<Rightarrow> jsval res" where
  "JSON_parse s = bindE (parse_value s) (\<lambda>(v, r). if skip_ws r = [] then Inr v else Inl SyntaxError)"

subsection \<open>String.replace\<close>

text \<open>\<^verbatim>\<open>s.replace(t, u)\<close> for a string \<open>t\<close>: the first occurrence only. \<^verbatim>\<open>s.replace(/c/g, d)\<close> for single
  characters: all of them.\<close>

fun replace_first :: "string \<Rightarrow> string \<Rightarrow> string \<Rightarrow> string" where
  "replace_first t u [] = (if t = [] then u else [])"
| "replace_first t u (c # cs) =
     (case strip_prefix t (c # cs) of Some r \<Rightarrow> u @ r | None \<Rightarrow> c # replace_first t u cs)"

definition replace_all :: "char \<Rightarrow> char \<Rightarrow> string \<Rightarrow> string" where
  "replace_all c d s = map (\<lambda>x. if x = c then d else x) s"

text \<open>\<^verbatim>\<open>s.replace(/,\s*}/, ' }')\<close>\<close>

fun replace_comma_brace :: "string \<Rightarrow> string" where
  "replace_comma_brace [] = []"
| "replace_comma_brace (c # cs) =
     (case dropWhile is_space cs of
        [] \<Rightarrow> c # replace_comma_brace cs
      | d # ds \<Rightarrow> if c = CHR '','' \<and> d = CHR ''}'' then '' }'' @ ds else c # replace_comma_brace cs)"

text \<open>\<^verbatim>\<open>s.replace(/,?\)/, ']')\<close>\<close>

fun replace_comma_paren :: "string \<Rightarrow> string" where
  "replace_comma_paren [] = []"
| "replace_comma_paren (c # cs) =
     (if c = CHR '')'' then '']'' @ cs
      else if c = CHR '','' \<and> cs \<noteq> [] \<and> hd cs = CHR '')'' then '']'' @ tl cs
      else c # replace_comma_paren cs)"

end
