(* ===== verification/Npy.thy ===== *)
theory Npy
  imports Io Json
begin

text \<open>
  The npy format of \<^verbatim>\<open>src/util/jsnpy.js\<close>: writing and reading the header, conversion of the
  elements, and the two classes \<^verbatim>\<open>NpyWriter\<close> and \<^verbatim>\<open>NpyReader\<close>. The file itself is reached through the
  methods of the \<^verbatim>\<open>ReaderWriterCloser\<close> that was given.

  A JavaScript number is its 64-bit pattern (\<open>num\<close>); the conversions to narrower elements are
  those of \<^verbatim>\<open>DataView\<close>. A shape is a list of integers when it is written; what was read of a
  header is whatever JSON value it held.
\<close>

type_synonym num = "64 word"

subsection \<open>Element types\<close>

definition DATA_TYPES :: "string list" where
  "DATA_TYPES = [''f8'', ''f4'', ''i8'', ''i4'', ''i2'', ''i1'']"

definition BYTES_PER_ELEMENT :: "string \<Rightarrow> nat option" where
  "BYTES_PER_ELEMENT dtype =
     map_of [(''f8'', 8), (''f4'', 4), (''i8'', 8), (''i4'', 4), (''i2'', 2), (''i1'', 1)] dtype"

text \<open>Sign, exponent and mantissa of a number; its magnitude is \<open>mantissa * 2 ^ (exponent - 1075)\<close>
  with the exponent 1 for subnormal numbers.\<close>

definition num_sign :: "num \<Rightarrow> bool" where
  "num_sign x = (2 ^ 63 \<le> unat x)"

definition num_exponent :: "num \<Rightarrow> nat" where
  "num_exponent x = unat x div 2 ^ 52 mod 2 ^ 11"

definition num_mantissa :: "num \<Rightarrow> nat" where
  "num_mantissa x = (if num_exponent x = 0 then unat x mod 2 ^ 52 else 2 ^ 52 + unat x mod 2 ^ 52)"

text \<open>\<^verbatim>\<open>ToInt32\<close> and its like: truncation, then the remainder; NaN and infinities are 0.\<close>

definition num_trunc :: "num \<Rightarrow> int" where
  "num_trunc x =
     (let e = max 1 (num_exponent x);
          n = (if 1075 \<le> e then num_mantissa x * 2 ^ (e - 1075) else num_mantissa x div 2 ^ (1075 - e))
      in if num_exponent x = 2047 then 0 else if num_sign x then - int n else int n)"

definition num_to_int :: "nat \<Rightarrow> num \<Rightarrow> nat" where
  "num_to_int bits x = nat (num_trunc x mod 2 ^ bits)"

text \<open>Rounding to nearest, ties to even, and the 32-bit pattern of the rounded number. NaN becomes
  the default quiet NaN.\<close>

definition round_half_even :: "nat \<Rightarrow> nat \<Rightarrow> nat" where
  "round_half_even n s =
     (let q = n div 2 ^ s; r = 2 * (n mod 2 ^ s)
      in if r > 2 ^ s \<or> r = 2 ^ s \<and> odd q then q + 1 else q)"

definition num_to_float32 :: "num \<Rightarrow> nat" where
  "num_to_float32 x =
     (let sign = (if num_sign x then 2 ^ 31 else 0); e = max 1 (num_exponent x);
          normal = (897 \<le> e);
          bits = (if normal then (e - 897) * 2 ^ 23 + round_half_even (num_mantissa x) 29
                  else round_half_even (num_mantissa x) (29 + (897 - e)))
      in if num_exponent x = 2047 then
           sign + (if num_mantissa x = 2 ^ 52 then 0x7F800000 else 0x7FC00000)
         else sign + min bits 0x7F800000)"

text \<open>The bytes that one iteration of the loop in \<^verbatim>\<open>write\<close> sets. \<^verbatim>\<open>DataView\<close> has no \<^verbatim>\<open>setInt64\<close>.\<close>

definition element_bytes :: "string \<Rightarrow> bool \<Rightarrow> num \<Rightarrow> byte list res" where
  "element_bytes dtype bigEndian x =
     (let order = (\<lambda>bs. if bigEndian then rev bs else bs)
      in if dtype = ''f8'' then Inr (order (le_bytes 8 (unat x)))
         else if dtype = ''f4'' then Inr (order (le_bytes 4 (num_to_float32 x)))
         else if dtype = ''i8'' then Inl TypeError
         else if dtype = ''i4'' then Inr (order (le_bytes 4 (num_to_int 32 x)))
         else if dtype = ''i2'' then Inr (order (le_bytes 2 (num_to_int 16 x)))
         else if dtype = ''i1'' then Inr (le_bytes 1 (num_to_int 8 x))
         else Inr [])"

subsection \<open>Header\<close>

definition magicString :: string where
  "magicString = CHR 0x93 # ''NUMPY''"

definition apos :: string where
  "apos = [CHR 0x27]"

definition shape_text :: "int list \<Rightarrow> string" where
  "shape_text shape = ''('' @ join '','' (map int_text shape) @ '','' @ '')''"

definition header_text :: "int list \<Rightarrow> string \<Rightarrow> bool \<Rightarrow> bool \<Rightarrow> string" where
  "header_text shape dtype columnMajor bigEndian =
     ''{'' @ apos @ ''descr'' @ apos @ '': '' @ apos @ (if bigEndian then ''>'' else ''<'') @ dtype @ apos @
     '', '' @ apos @ ''fortran_order'' @ apos @ '': '' @ (if columnMajor then ''True'' else ''False'') @
     '', '' @ apos @ ''shape'' @ apos @ '': '' @ shape_text shape @ '', }''"

definition writeStringToDataView :: "byte list \<Rightarrow> string \<Rightarrow> nat \<Rightarrow> (byte list \<times> nat) res" where
  "writeStringToDataView view str pos =
     bindE (set_bytes view pos (map byte_of_char str)) (\<lambda>view'. Inr (view', pos + length str))"

definition readDataViewAsString :: "byte list \<Rightarrow> string" where
  "readDataViewAsString view = map char_of_byte (takeWhile (\<lambda>b. b \<noteq> 0) view)"

text \<open>\<^verbatim>\<open>version in [1, 2]\<close> asks for an index of the array, 0 or 1, and not for an element.\<close>

definition version_accepted :: "int \<Rightarrow> bool" where
  "version_accepted version = (version = 0 \<or> version = 1)"

text \<open>The contents of the header buffer. The length is stored in 2 or 4 bytes, whatever it is.\<close>

definition header_buffer :: "int list \<Rightarrow> string \<Rightarrow> int \<Rightarrow> bool \<Rightarrow> bool \<Rightarrow> byte list res" where
  "header_buffer shape dtype version columnMajor bigEndian =
     (let versionString = (if version = 1 then [CHR 0x01, CHR 0x00] else [CHR 0x02, CHR 0x00]);
          header = header_text shape dtype columnMajor bigEndian;
          lengthBytes = (if version = 1 then 2 else 4);
          unpaddedLength = length header;
          padMul = 16;
          padLength = (padMul - unpaddedLength mod padMul) mod padMul;
          padding = replicate padLength CHR '' '';
          headerLength = unpaddedLength + padLength;
          totalHeaderLength = length magicString + length versionString + lengthBytes + headerLength
      in if headerLength mod padMul \<noteq> 0 then Inl AssertionError
         else
           bindE (writeStringToDataView (zeros totalHeaderLength) (magicString @ versionString) 0) (\<lambda>(view, pos).
           bindE (set_bytes view pos (le_bytes lengthBytes headerLength)) (\<lambda>view.
           bindE (writeStringToDataView view (header @ padding) (pos + lengthBytes)) (\<lambda>(view, pos).
           Inr view))))"

definition writeHeader ::
  "('w, 'h, 'z) methods_scheme \<Rightarrow> 'h option \<Rightarrow> int list \<Rightarrow> string \<Rightarrow> int \<Rightarrow> bool \<Rightarrow> bool \<Rightarrow> ('w, nat) io" where
  "writeHeader m writer shape dtype version columnMajor bigEndian =
     (case writer of
        None \<Rightarrow> throw AssertionError
      | Some h \<Rightarrow>
          bindS (lift (throw_if (\<not> version_accepted version) AssertionError)) (\<lambda>_.
          bindS (lift (header_buffer shape dtype version columnMajor bigEndian)) (\<lambda>buffer.
          bindS (m_write m h buffer 0 (length buffer) 0) (\<lambda>_.
          ret (length buffer)))))"

record npy_header =
  hd_bigEndian :: bool
  hd_columnMajor :: "jsval option"
  hd_dtype :: string
  hd_shape :: "jsval option"
  hd_version :: nat
  hd_pos :: nat

text \<open>The replacements that turn a Python dictionary into JSON.\<close>

definition header_json :: "string \<Rightarrow> string" where
  "header_json s =
     replace_first ''('' ''[''
       (replace_comma_paren
         (replace_comma_brace
           (replace_all CHR 0x27 quote
             (replace_first ''False'' ''false'' (replace_first ''True'' ''true'' s)))))"

text \<open>\<^verbatim>\<open>header.descr[0] === '>'\<close> and \<^verbatim>\<open>header.descr.slice(1)\<close>. A \<^verbatim>\<open>descr\<close> that is an array has both
  and is outside the model.\<close>

definition header_fields :: "jsval \<Rightarrow> nat \<Rightarrow> nat \<Rightarrow> npy_header res" where
  "header_fields header version pos =
     (case header of
        JObj ob \<Rightarrow>
          (case map_of ob ''descr'' of
             Some (JStr descr) \<Rightarrow>
               Inr \<lparr>hd_bigEndian = (descr \<noteq> [] \<and> hd descr = CHR ''>''), hd_columnMajor = map_of ob ''fortran_order'',
                    hd_dtype = tl descr, hd_shape = map_of ob ''shape'', hd_version = version, hd_pos = pos\<rparr>
           | Some (JArr xs) \<Rightarrow> Inl Unmodelled
           | _ \<Rightarrow> Inl TypeError)
      | _ \<Rightarrow> Inl TypeError)"

definition readHeader :: "('w, 'h, 'z) methods_scheme \<Rightarrow> 'h option \<Rightarrow> ('w, npy_header) io" where
  "readHeader m reader =
     (case reader of
        None \<Rightarrow> throw AssertionError
      | Some h \<Rightarrow>
          bindS (m_read m h (zeros 10) 0 8 0) (\<lambda>(_, magicStringBuffer).
          if readDataViewAsString (take 6 magicStringBuffer) \<noteq> magicString then
            throw (GenericError (Text ''The given file is not a valid NUMPY file.''))
          else
            (let versionMajor = unat (magicStringBuffer ! 6); versionMinor = unat (magicStringBuffer ! 7)
             in if \<not> version_accepted (int versionMajor) \<or> versionMinor \<noteq> 0 then
                  throw (GenericError (Text (''Unknown NUMPY file version '' @ digits_of versionMajor @ ''.'' @ digits_of versionMinor)))
                else
                  (let lengthBytes = (if versionMajor = 1 then 2 else 4)
                   in bindS (m_read m h (zeros lengthBytes) 0 lengthBytes 8) (\<lambda>(_, lengthBuffer).
                      let headerLength = le_value lengthBuffer
                      in if headerLength < lengthBytes + 8 then throw RangeError
                         else
                           (let headerDictLength = headerLength - lengthBytes - 8
                            in bindS (m_read m h (zeros headerDictLength) 0 headerDictLength (lengthBytes + 8)) (\<lambda>(_, headerBuffer).
                               bindS (lift (JSON_parse (header_json (readDataViewAsString headerBuffer)))) (\<lambda>header.
                               lift (header_fields header versionMajor (headerLength + lengthBytes + 8))))))))))"

subsection \<open>Writer\<close>

definition numberOfElements :: "int list \<Rightarrow> int" where
  "numberOfElements shape = (if shape = [] then 1 else foldl (*) (hd shape) (tl shape))"

record npy_writer =
  wr_shape :: "int list"
  wr_dtype :: string
  wr_columnMajor :: bool
  wr_bigEndian :: bool
  wr_version :: int
  wr_pos :: nat

definition new_NpyWriter ::
  "('w, 'h, 'z) methods_scheme \<Rightarrow> 'h option \<Rightarrow> int list \<Rightarrow> string \<Rightarrow> bool \<Rightarrow> bool \<Rightarrow> int \<Rightarrow> ('w, npy_writer) io" where
  "new_NpyWriter m writer shape dtype columnMajor bigEndian version =
     bindS (lift (throw_if (writer = None) AssertionError)) (\<lambda>_.
     bindS (lift (throw_if (dtype \<notin> set DATA_TYPES) AssertionError)) (\<lambda>_.
     bindS (writeHeader m writer shape dtype version columnMajor bigEndian) (\<lambda>pos.
     ret \<lparr>wr_shape = shape, wr_dtype = dtype, wr_columnMajor = columnMajor, wr_bigEndian = bigEndian,
          wr_version = version, wr_pos = pos\<rparr>)))"

text \<open>\<^verbatim>\<open>NpyWriter.prototype.write\<close> closes the file, if asked to, before it writes.\<close>

definition NpyWriter_write ::
  "('w, 'h, 'z) methods_scheme \<Rightarrow> 'h \<Rightarrow> npy_writer \<Rightarrow> num list \<Rightarrow> bool \<Rightarrow> ('w, npy_writer) io" where
  "NpyWriter_write m writer self data close =
     bindS (lift (throw_if (int (length data) \<noteq> numberOfElements (wr_shape self)) AssertionError)) (\<lambda>_.
     bindS (lift (mapE (element_bytes (wr_dtype self) (wr_bigEndian self)) data)) (\<lambda>elements.
     let buffer = concat elements
     in bindS (if close then m_close m writer else ret ()) (\<lambda>_.
        bindS (m_write m writer buffer 0 (length buffer) (wr_pos self)) (\<lambda>_.
        ret (self\<lparr>wr_pos := wr_pos self + length buffer\<rparr>)))))"

subsection \<open>Reader\<close>

record npy_reader =
  rd_shape :: "jsval option"
  rd_dtype :: string
  rd_columnMajor :: "jsval option"
  rd_bigEndian :: bool
  rd_version :: nat
  rd_pos :: nat

definition new_NpyReader :: "('w, 'h, 'z) methods_scheme \<Rightarrow> 'h option \<Rightarrow> ('w, npy_reader) io" where
  "new_NpyReader m reader =
     bindS (lift (throw_if (reader = None) AssertionError)) (\<lambda>_.
     bindS (readHeader m reader) (\<lambda>header.
     ret \<lparr>rd_shape = hd_shape header, rd_dtype = hd_dtype header, rd_columnMajor = hd_columnMajor header,
          rd_bigEndian = hd_bigEndian header, rd_version = hd_version header, rd_pos = hd_pos header\<rparr>))"

definition js_ints :: "jsval list \<Rightarrow> int list option" where
  "js_ints xs =
     (if list_all (\<lambda>v. case v of JInt n \<Rightarrow> True | _ \<Rightarrow> False) xs
      then Some (map (\<lambda>v. case v of JInt n \<Rightarrow> n | _ \<Rightarrow> 0) xs) else None)"

text \<open>\<^verbatim>\<open>numberOfElements\<close> of what the header has as \<^verbatim>\<open>shape\<close>. An array with an entry that is not an
  integer is outside the model; whatever else has the length 0 counts one element.\<close>

definition shape_elements :: "jsval option \<Rightarrow> int res" where
  "shape_elements shape =
     (case shape of
        Some (JArr xs) \<Rightarrow> (case js_ints xs of Some ns \<Rightarrow> Inr (numberOfElements ns) | None \<Rightarrow> Inl Unmodelled)
      | Some (JStr s) \<Rightarrow> if s = [] then Inr 1 else Inl TypeError
      | Some (JObj ob) \<Rightarrow> if map_of ob ''length'' = Some (JInt 0) then Inr 1 else Inl TypeError
      | _ \<Rightarrow> Inl TypeError)"

datatype npy_data =
    Float64Array "64 word list"
  | Float32Array "32 word list"
  | Int32Array "32 word list"
  | Int16Array "16 word list"
  | Int8Array "8 word list"

fun chunks :: "nat \<Rightarrow> nat \<Rightarrow> byte list \<Rightarrow> byte list list" where
  "chunks n 0 bs = []"
| "chunks n (Suc k) bs = take n bs # chunks n k (drop n bs)"

text \<open>A typed array over the buffer takes the bytes in the order of the machine, which is little
  endian, and does not ask for \<^verbatim>\<open>bigEndian\<close>. There is no \<^verbatim>\<open>Int64Array\<close>; an unknown type is no data.\<close>

definition typed_array :: "string \<Rightarrow> nat \<Rightarrow> byte list \<Rightarrow> npy_data option res" where
  "typed_array dtype n buffer =
     (if dtype = ''f8'' then Inr (Some (Float64Array (map (\<lambda>bs. of_nat (le_value bs)) (chunks 8 n buffer))))
      else if dtype = ''f4'' then Inr (Some (Float32Array (map (\<lambda>bs. of_nat (le_value bs)) (chunks 4 n buffer))))
      else if dtype = ''i8'' then Inl ReferenceError
      else if dtype = ''i4'' then Inr (Some (Int32Array (map (\<lambda>bs. of_nat (le_value bs)) (chunks 4 n buffer))))
      else if dtype = ''i2'' then Inr (Some (Int16Array (map (\<lambda>bs. of_nat (le_value bs)) (chunks 2 n buffer))))
      else if dtype = ''i1'' then Inr (Some (Int8Array (map (\<lambda>bs. of_nat (le_value bs)) (chunks 1 n buffer))))
      else Inr None)"

text \<open>With an unknown type the size is NaN, which counts as 0; the position, NaN afterwards, is left
  as it was.\<close>

definition NpyReader_read ::
  "('w, 'h, 'z) methods_scheme \<Rightarrow> 'h \<Rightarrow> npy_reader \<Rightarrow> bool \<Rightarrow> ('w, npy_data option \<times> npy_reader) io" where
  "NpyReader_read m reader self close =
     bindS (lift (shape_elements (rd_shape self))) (\<lambda>dataLength.
     let elemBytes = (case BYTES_PER_ELEMENT (rd_dtype self) of Some n \<Rightarrow> n | None \<Rightarrow> 0)
     in bindS (lift (throw_if (dataLength * int elemBytes < 0) RangeError)) (\<lambda>_.
        let size = nat dataLength * elemBytes
        in bindS (m_read m reader (zeros size) 0 size (rd_pos self)) (\<lambda>(_, buffer).
           bindS (if close then m_close m reader else ret ()) (\<lambda>_.
           bindS (lift (typed_array (rd_dtype self) (nat dataLength) buffer)) (\<lambda>data.
           ret (data, self\<lparr>rd_pos := rd_pos self + size\<rparr>))))))"

end
