(* ===== verification/Links.thy ===== *)
theory Links
  imports Js_Text
begin

text \<open>
  The links of a data sample: \<^verbatim>\<open>InstanceId\<close>, \<^verbatim>\<open>Link\<close> and \<^verbatim>\<open>Links\<close> of \<^verbatim>\<open>src/dataset.js\<close>, with reading
  and writing them as text, and the three graph properties the schema inference asks for:
  \<^verbatim>\<open>isUndirected\<close>, \<^verbatim>\<open>isFanin\<close> and \<^verbatim>\<open>isCyclic\<close>, the last one a depth-first search with an explicit
  stack in a directed and an undirected version.

  A collection of links is a \<^verbatim>\<open>Map\<close> from the text of a link to the link, in the order of the
  file. A loop over an unvisited set and a stack is one function here, whose call with an empty
  stack is the next iteration of the outer \<^verbatim>\<open>while\<close>.
\<close>

subsection \<open>Instances and links\<close>

record instance_id =
  inst_node :: string
  inst_index :: int

record dlink =
  link_src :: instance_id
  link_dst :: instance_id

type_synonym links = "(string, dlink) jmap"

text \<open>\<^verbatim>\<open>new InstanceId(node, index)\<close> with \<^verbatim>\<open>None\<close> for an index that is not an integer.\<close>

definition new_InstanceId :: "string \<Rightarrow> int option \<Rightarrow> instance_id res" where
  "new_InstanceId node index =
     (case index of None \<Rightarrow> Inl AssertionError | Some i \<Rightarrow> Inr \<lparr>inst_node = node, inst_index = i\<rparr>)"

definition loadInstnceId :: "string \<Rightarrow> instance_id res" where
  "loadInstnceId input =
     (let splits = split_on CHR ''/'' input
      in new_InstanceId (hd splits) (if length splits = 2 then parse_int (splits ! 1) else None))"

definition dumpInstanceId :: "instance_id \<Rightarrow> string" where
  "dumpInstanceId x = inst_node x @ ''/'' @ int_text (inst_index x)"

text \<open>\<^verbatim>\<open>LINK_FORMAT = ^\s*[a-z_]*[0-9a-z_]*(/[0-9]+)?\s+[a-z_]*[0-9a-z_]*(/[0-9]+)?\s*$\<close>: two references
  separated by white space, either of which may be empty if there is white space around the
  other.\<close>

definition reference_format :: "string \<Rightarrow> bool" where
  "reference_format w =
     (case dropWhile name_char w of
        [] \<Rightarrow> True
      | c # ds \<Rightarrow> c = CHR ''/'' \<and> ds \<noteq> [] \<and> list_all is_digit ds)"

definition link_format :: "string \<Rightarrow> bool" where
  "link_format s =
     (list_all reference_format (words s) \<and>
      (length (words s) = 2 \<or> length (words s) < 2 \<and> list_ex is_space s))"

definition load_Link :: "string \<Rightarrow> dlink res" where
  "load_Link input =
     (if \<not> link_format input then
        Inl (DatasetException (Text ''Link must have a source and a destination separated by whitespace.'') [])
      else
        (let parts = split_on CHR '' '' input
         in bindE (loadInstnceId (hd parts)) (\<lambda>src.
            bindE (if length parts < 2 then Inl TypeError else loadInstnceId (parts ! 1)) (\<lambda>dst.
            Inr \<lparr>link_src = src, link_dst = dst\<rparr>))))"

definition dump_Link :: "dlink \<Rightarrow> string" where
  "dump_Link l = dumpInstanceId (link_src l) @ '' '' @ dumpInstanceId (link_dst l)"

definition getReverse :: "dlink \<Rightarrow> dlink" where
  "getReverse l = \<lparr>link_src = link_dst l, link_dst = link_src l\<rparr>"

text \<open>The loop of \<^verbatim>\<open>loadLinks\<close> over the lines of a file, and the lines \<^verbatim>\<open>dumpLinks\<close> writes.\<close>

fun loadLinks_lines :: "string list \<Rightarrow> links \<Rightarrow> links res" where
  "loadLinks_lines [] ls = Inr ls"
| "loadLinks_lines (line # lines) ls =
     (let key = normalize_space line
      in if key = [] then loadLinks_lines lines ls
         else bindE (load_Link key) (\<lambda>l. loadLinks_lines lines (jmap_set key l ls)))"

definition dumpLinks_lines :: "links \<Rightarrow> string list" where
  "dumpLinks_lines ls = map fst ls"

subsection \<open>Graph properties\<close>

definition isUndirected :: "links \<Rightarrow> bool" where
  "isUndirected ls = list_all (\<lambda>l. dump_Link (getReverse l) \<in> set (map fst ls)) (map snd ls)"

text \<open>The loop of \<^verbatim>\<open>isFanin\<close> with the counts of links per destination.\<close>

fun isFanin_loop :: "bool \<Rightarrow> dlink list \<Rightarrow> (string, nat) jmap \<Rightarrow> bool" where
  "isFanin_loop undirected [] dstNodes = False"
| "isFanin_loop undirected (l # ls) dstNodes =
     (let dst = dumpInstanceId (link_dst l);
          count = (case map_of dstNodes dst of Some n \<Rightarrow> n | None \<Rightarrow> 0)
      in if undirected \<and> 2 \<le> count \<or> \<not> undirected \<and> 1 \<le> count then True
         else isFanin_loop undirected ls (jmap_set dst (count + 1) dstNodes))"

definition isFanin :: "bool \<Rightarrow> links \<Rightarrow> bool" where
  "isFanin undirected ls = isFanin_loop undirected (map snd ls) []"

text \<open>The nodes and the adjacency lists that \<^verbatim>\<open>isCyclic\<close> collects.\<close>

definition link_nodes :: "dlink list \<Rightarrow> string list" where
  "link_nodes ls = fold (\<lambda>l ns. set_add (dumpInstanceId (link_dst l)) (set_add (dumpInstanceId (link_src l)) ns)) ls []"

definition add_adjacent :: "dlink \<Rightarrow> (string, string list) jmap \<Rightarrow> (string, string list) jmap" where
  "add_adjacent l adjacency =
     (let src = dumpInstanceId (link_src l); dst = dumpInstanceId (link_dst l)
      in jmap_set src ((case map_of adjacency src of Some adj \<Rightarrow> adj | None \<Rightarrow> []) @ [dst]) adjacency)"

definition link_adjacency :: "dlink list \<Rightarrow> (string, string list) jmap" where
  "link_adjacency ls = fold add_adjacent ls []"

text \<open>For termination: whether the top of the stack is a new node, and whether it is active.\<close>

definition fresh_top :: "string list \<Rightarrow> string list \<Rightarrow> string list \<Rightarrow> bool" where
  "fresh_top nodes ancestors stack = (case stack of [] \<Rightarrow> False | x # _ \<Rightarrow> x \<in> set nodes \<and> x \<notin> set ancestors)"

definition active_top :: "string list \<Rightarrow> string list \<Rightarrow> bool" where
  "active_top ancestors stack = (case stack of [] \<Rightarrow> False | x # _ \<Rightarrow> x \<in> set ancestors)"

text \<open>The directed search. The stack has its top first; each node is met twice, and \<open>ancestors\<close>
  holds those met once.\<close>

function directed_loop :: "(string, string list) jmap \<Rightarrow> string list \<Rightarrow> string list \<Rightarrow> string list \<Rightarrow> bool" where
  "directed_loop adjacency nodes ancestors [] =
     (case nodes of [] \<Rightarrow> False | x # _ \<Rightarrow> directed_loop adjacency nodes [] [x])"
| "directed_loop adjacency nodes ancestors (x # stack) =
     (if x \<notin> set ancestors then
        (let nodes' = set_delete x nodes;
             ancestors' = set_add x ancestors;
             adj = (case map_of adjacency x of Some ys \<Rightarrow> ys | None \<Rightarrow> [])
         in if list_ex (\<lambda>y. y \<in> set ancestors') adj then True
            else directed_loop adjacency nodes' ancestors' (rev (filter (\<lambda>y. y \<in> set nodes') adj) @ x # stack))
      else directed_loop adjacency nodes (set_delete x ancestors) stack)"
  by pat_completeness auto

termination
proof (relation "measures
    [\<lambda>(adjacency, nodes, ancestors, stack). 2 * card (set nodes) + (if fresh_top nodes ancestors stack then 0 else 1),
     \<lambda>(adjacency, nodes, ancestors, stack). 2 * length stack - (if active_top ancestors stack then 1 else 0)]",
    goal_cases)
  case (2 adjacency nodes ancestors x xs)
  then show ?case by (simp add: fresh_top_def)
next
  case (3 adjacency nodes ancestors x stack nodes' ancestors' adj)
  let ?new = "rev (filter (\<lambda>y. y \<in> set nodes') adj)"
  show ?case
  proof (cases "x \<in> set nodes")
    case True
    have s: "set nodes' = set nodes - {x}" using 3(2) by simp
    have "card (set nodes') < card (set nodes)"
      unfolding s by (rule card_Diff1_less [OF finite_set True])
    then show ?thesis by simp
  next
    case False
    then have n: "set nodes' = set nodes" using 3 by simp
    show ?thesis
    proof (cases ?new)
      case Nil
      then show ?thesis using 3 False n by (simp add: fresh_top_def active_top_def)
    next
      case (Cons y ys)
      then have "y \<in> set ?new" by simp
      then have "y \<in> set nodes'" "y \<notin> set ancestors'" using 3 by (auto simp: list_ex_iff)
      then show ?thesis using False n Cons by (simp add: fresh_top_def)
    qed
  qed
next
  case (4 adjacency nodes ancestors x stack)
  then show ?case by (cases stack) (auto simp: fresh_top_def active_top_def)
qed simp

text \<open>The undirected search. The stack holds pairs of a parent and a node; a node without an
  adjacency list is an error.\<close>

function undirected_loop :: "(string, string list) jmap \<Rightarrow> string list \<Rightarrow> (string \<times> string) list \<Rightarrow> bool res" where
  "undirected_loop adjacency nodes [] =
     (case nodes of
        [] \<Rightarrow> Inr False
      | x # _ \<Rightarrow>
          (case map_of adjacency x of
             None \<Rightarrow> Inl TypeError
           | Some adj \<Rightarrow> undirected_loop adjacency (set_delete x nodes) (rev (map (Pair x) adj))))"
| "undirected_loop adjacency nodes ((parent, x) # stack) =
     (if x \<notin> set nodes then Inr True
      else
        (case map_of adjacency x of
           None \<Rightarrow> Inl TypeError
         | Some adj \<Rightarrow>
             undirected_loop adjacency (set_delete x nodes)
               (rev (map (Pair x) (filter (\<lambda>y. y \<noteq> parent) adj)) @ stack)))"
  by pat_completeness auto
termination
proof (relation "measure (\<lambda>(adjacency, nodes, stack). length nodes)", goal_cases)
  case (2 adjacency nodes x xs adj)
  then show ?case using length_set_delete [of x "x # xs"] by simp
next
  case (3 adjacency nodes parent x stack adj)
  then show ?case using length_set_delete [of x nodes] by simp
qed simp

definition isCyclic :: "bool \<Rightarrow> links \<Rightarrow> bool res" where
  "isCyclic undirected ls =
     (let nodes = link_nodes (map snd ls); adjacency = link_adjacency (map snd ls)
      in if undirected then undirected_loop adjacency nodes [] else Inr (directed_loop adjacency nodes [] []))"

subsection \<open>Counts\<close>

text \<open>The keys are texts with a blank in them and no name is inherited, so \<^verbatim>\<open>counter[key] || 0\<close> is a
  lookup of an own property.\<close>

definition getLinkDestinationCounts :: "links \<Rightarrow> nat obj" where
  "getLinkDestinationCounts ls =
     fold (\<lambda>l counter.
         let key = dumpInstanceId (link_src l) @ '' '' @ inst_node (link_dst l);
             count = (case map_of counter key of Some n \<Rightarrow> n | None \<Rightarrow> 0)
         in obj_put key (count + 1) counter)
       (map snd ls) []"

text \<open>\<^verbatim>\<open>maxNodeIndices[node] || 0\<close> compared with an index: an inherited function is not a number,
  and no index is greater.\<close>

definition raise_max :: "instance_id \<Rightarrow> int obj \<Rightarrow> int obj" where
  "raise_max x m =
     (case map_of m (inst_node x) of
        Some i \<Rightarrow> if inst_index x > i then obj_put (inst_node x) (inst_index x) m else m
      | None \<Rightarrow>
          if inherited (inst_node x) then m
          else if inst_index x > 0 then obj_put (inst_node x) (inst_index x) m else m)"

definition getMaxIndicesPerNode :: "links \<Rightarrow> int obj" where
  "getMaxIndicesPerNode ls = fold (\<lambda>l m. raise_max (link_dst l) (raise_max (link_src l) m)) (map snd ls) []"

text \<open>\<^verbatim>\<open>adjacencyMap\<close>: its loop over \<^verbatim>\<open>adjacency.entries()\<close> is a \<^verbatim>\<open>for-in\<close> over an iterator, which has
  no enumerable property, so the loop does nothing; the result is the map and its extra
  property \<^verbatim>\<open>SOURCE\<close>.\<close>

fun adjacencyMap_loop ::
  "dlink list \<Rightarrow> (string, string list) jmap \<Rightarrow> string list \<Rightarrow> ((string, string list) jmap \<times> string list) res" where
  "adjacencyMap_loop [] adjacency nodes = Inr (adjacency, nodes)"
| "adjacencyMap_loop (l # ls) adjacency nodes =
     (case map_of adjacency (dumpInstanceId (link_src l)) of
        None \<Rightarrow> Inl TypeError
      | Some adj \<Rightarrow>
          adjacencyMap_loop ls
            (jmap_set (dumpInstanceId (link_src l)) (adj @ [dumpInstanceId (link_dst l)]) adjacency)
            (set_delete (dumpInstanceId (link_dst l)) nodes))"

definition adjacencyMap :: "links \<Rightarrow> string list \<Rightarrow> ((string, string list) jmap \<times> string list) res" where
  "adjacencyMap ls nodes = adjacencyMap_loop (map snd ls) (map (\<lambda>n. (n, [])) nodes) nodes"

end
