(* ===== verification/Dataset.thy ===== *)
theory Dataset
  imports Npy Links
begin

text \<open>
  The data model of \<^verbatim>\<open>src/dataset.js\<close> and its way to and from files: the file types, the loader and
  the writer of each type, directories as trees of files, and whole data sets. Everything that
  touches files takes the opener as an argument.

  Every constructor leaves the \<^verbatim>\<open>subtype\<close> of a file at its default, so the subtype is a function here
  and not a component (\<open>file_subtype\<close>). The conversions between numbers and text that JavaScript
  provides (\<^verbatim>\<open>parseFloat\<close>, and a number in a joined array) are parameters.
\<close>

subsection \<open>Files\<close>

text \<open>\<open>dimensions\<close> is the JSON value that a header had (null for undefined).\<close>

datatype ds_file =
    Directory (file_name: string) (dir_children: "(string \<times> ds_file) list")
  | TensorFile (file_name: string) (dimensions: jsval) (tensor_data: "num list option")
  | CategoryFile (file_name: string) (file_categories: "string list")
  | LinksFile (file_name: string) (file_links: links)
  | ClassFile (file_name: string) (file_categories: "string list")

definition file_type :: "ds_file \<Rightarrow> string" where
  "file_type f =
     (case f of
        Directory _ _ \<Rightarrow> ''directory''
      | TensorFile _ _ _ \<Rightarrow> ''tensor''
      | CategoryFile _ _ \<Rightarrow> ''category''
      | LinksFile _ _ \<Rightarrow> ''links''
      | ClassFile _ _ \<Rightarrow> ''class'')"

definition file_subtype :: "ds_file \<Rightarrow> string" where
  "file_subtype f = ''default''"

definition FILE_TYPES :: "string list" where
  "FILE_TYPES = [''directory'', ''tensor'', ''category'', ''links'', ''class'']"

text \<open>Type, subtype and extension, in the order of the nested loops over them.\<close>

definition TYPE_EXTENSIONS :: "(string \<times> string \<times> string) list" where
  "TYPE_EXTENSIONS =
     [(''tensor'', ''default'', ''.ten.npy''), (''tensor'', ''csv'', ''.ten.csv''), (''category'', ''default'', ''.cat.txt''),
      (''class'', ''default'', ''.class.txt''), (''links'', ''default'', ''.links.csv'')]"

definition type_extension :: "string \<Rightarrow> string \<Rightarrow> string" where
  "type_extension fileType subtype =
     (case map_of (map (\<lambda>(t, s, e). ((t, s), e)) TYPE_EXTENSIONS) (fileType, subtype) of
        Some e \<Rightarrow> e | None \<Rightarrow> ''undefined'')"

definition dataset_error :: "string \<Rightarrow> string \<Rightarrow> js_error" where
  "dataset_error msg path = DatasetException (Text msg) path"

subsection \<open>Tensors\<close>

text \<open>The loop over the lines of a CSV file.\<close>

fun csv_rows :: "(string \<Rightarrow> num) \<Rightarrow> string \<Rightarrow> string list \<Rightarrow> num list \<Rightarrow> nat option \<Rightarrow> (num list \<times> nat option) res" where
  "csv_rows parseFloat filePath [] data lineLength = Inr (data, lineLength)"
| "csv_rows parseFloat filePath (l # ls) data lineLength =
     (let vs = split_on CHR '','' l
      in if lineLength \<noteq> None \<and> lineLength \<noteq> Some (length vs) then
           Inl (dataset_error ''Each row of the CSV file must have the same number of elements.'' filePath)
         else csv_rows parseFloat filePath ls (data @ map parseFloat vs) (Some (length vs)))"

definition csv_shape :: "nat \<Rightarrow> nat option \<Rightarrow> jsval" where
  "csv_shape numLines lineLength =
     (let len = (case lineLength of Some n \<Rightarrow> JInt (int n) | None \<Rightarrow> JNull)
      in if numLines > 1 then JArr [JInt (int numLines), len] else JArr [len])"

definition loadTensorFile ::
  "('w, 'h) opener \<Rightarrow> (string \<Rightarrow> num) \<Rightarrow> string \<Rightarrow> string \<Rightarrow> string \<Rightarrow> bool \<Rightarrow> string \<Rightarrow> ('w, ds_file) io" where
  "loadTensorFile op parseFloat root relPath name metadataOnly subtype =
     (let filePath = path_join relPath (name @ type_extension ''tensor'' subtype)
      in bindS (open_file op root filePath True) (\<lambda>reader.
         if subtype = ''default'' then
           bindS (new_NpyReader op reader) (\<lambda>npyReader.
           bindS (if metadataOnly then ret None
                  else bindS (call (\<lambda>h. NpyReader_read op h npyReader False) reader) (\<lambda>(data, _). ret data)) (\<lambda>data.
           bindS (call (m_close op) reader) (\<lambda>_.
           if rd_dtype npyReader \<noteq> ''f8'' then throw (dataset_error ''Tensor datatype must be float64.'' filePath)
           else ret (TensorFile name (case rd_shape npyReader of Some v \<Rightarrow> v | None \<Rightarrow> JNull)
                       (case data of Some (Float64Array xs) \<Rightarrow> Some xs | _ \<Rightarrow> None)))))
         else if subtype = ''csv'' then
           bindS (call (m_readLines op) reader) (\<lambda>lines.
           bindS (lift (csv_rows parseFloat filePath lines [] None)) (\<lambda>(data, lineLength).
           ret (TensorFile name (csv_shape (length lines) lineLength) (Some data))))
         else throw (dataset_error (''Unknown tensor subtype '' @ apos @ subtype @ apos @ ''.'') filePath)))"

text \<open>The lines of \<^verbatim>\<open>dumpTensor\<close> for the subtype \<^verbatim>\<open>csv\<close>; an element past the end is an empty text.\<close>

definition csv_lines :: "(num \<Rightarrow> string) \<Rightarrow> int list \<Rightarrow> num list \<Rightarrow> string list" where
  "csv_lines num_text dims data =
     (let numLines = (if length dims > 1 then nat (dims ! 0) else 1);
          lineLength = (if length dims > 1 then nat (dims ! 1) else nat (dims ! 0))
      in map (\<lambda>i. join '','' (map (\<lambda>j. let pos = i * lineLength + j
                                  in if pos < length data then num_text (data ! pos) else []) [0..<lineLength]))
           [0..<numLines])"

definition dumpTensorFile ::
  "('w, 'h) opener \<Rightarrow> (num \<Rightarrow> string) \<Rightarrow> string \<Rightarrow> string \<Rightarrow> string \<Rightarrow> string \<Rightarrow> jsval \<Rightarrow> num list option \<Rightarrow> ('w, unit) io" where
  "dumpTensorFile op num_text root relPath name subtype dims data =
     (let filePath = path_join relPath (name @ type_extension ''tensor'' subtype)
      in bindS (open_file op root filePath False) (\<lambda>writer.
         case dims of
           JArr xs \<Rightarrow>
             (case js_ints xs of
                None \<Rightarrow> throw Unmodelled
              | Some shape \<Rightarrow>
                  if subtype = ''default'' then
                    bindS (new_NpyWriter op writer shape ''f8'' False False 1) (\<lambda>npyWriter.
                    case data of
                      None \<Rightarrow> throw TypeError
                    | Some d \<Rightarrow> bindS (call (\<lambda>h. NpyWriter_write op h npyWriter d True) writer) (\<lambda>_. ret ()))
                  else if subtype = ''csv'' then
                    (case data of
                       None \<Rightarrow> throw TypeError
                     | Some d \<Rightarrow>
                         if shape = [] then throw Unmodelled
                         else bindS (call (\<lambda>h. m_writeLines op h (csv_lines num_text shape d)) writer) (\<lambda>_. ret ()))
                  else throw (dataset_error (''Unknown tensor subtype '' @ apos @ subtype @ apos @ ''.'') filePath))
         | _ \<Rightarrow> throw Unmodelled))"

subsection \<open>Categories, classes and links\<close>

text \<open>The trimmed lines that are not empty.\<close>

definition category_lines :: "string list \<Rightarrow> string list" where
  "category_lines lines = filter (\<lambda>l. l \<noteq> []) (map trim lines)"

definition loadCategoryFile :: "('w, 'h) opener \<Rightarrow> string \<Rightarrow> string \<Rightarrow> string \<Rightarrow> string \<Rightarrow> ('w, ds_file) io" where
  "loadCategoryFile op root relPath name subtype =
     (let filePath = path_join relPath (name @ type_extension ''category'' subtype)
      in bindS (open_file op root filePath True) (\<lambda>reader.
         bindS (call (m_readLines op) reader) (\<lambda>lines.
         ret (CategoryFile name (category_lines lines)))))"

definition dumpCategoryFile :: "('w, 'h) opener \<Rightarrow> string \<Rightarrow> string \<Rightarrow> string \<Rightarrow> string \<Rightarrow> string list \<Rightarrow> ('w, unit) io" where
  "dumpCategoryFile op root relPath name subtype categories =
     (let filePath = path_join relPath (name @ type_extension ''category'' subtype)
      in bindS (open_file op root filePath False) (\<lambda>writer.
         bindS (call (\<lambda>h. m_writeLines op h categories) writer) (\<lambda>_. ret ())))"

definition belongsToSet :: "string list \<Rightarrow> string list \<Rightarrow> bool" where
  "belongsToSet categories categorySet = list_all (\<lambda>c. c \<in> set categorySet) categories"

definition loadClassFile :: "('w, 'h) opener \<Rightarrow> string \<Rightarrow> string \<Rightarrow> string \<Rightarrow> string \<Rightarrow> ('w, ds_file) io" where
  "loadClassFile op root relPath name subtype =
     (let filePath = path_join relPath (name @ type_extension ''class'' subtype)
      in bindS (open_file op root filePath True) (\<lambda>reader.
         bindS (call (m_readLines op) reader) (\<lambda>lines.
         let categories = category_lines lines; categoriesSet = fold set_add categories []
         in if length categories \<noteq> length categoriesSet then
              throw (dataset_error ''Class file contains duplicate entries.'' filePath)
            else ret (ClassFile name categories))))"

definition dumpClassFile :: "('w, 'h) opener \<Rightarrow> string \<Rightarrow> string \<Rightarrow> string \<Rightarrow> string \<Rightarrow> string list \<Rightarrow> ('w, unit) io" where
  "dumpClassFile op root relPath name subtype categories =
     (let filePath = path_join relPath (name @ type_extension ''class'' subtype)
      in bindS (open_file op root filePath False) (\<lambda>writer.
         bindS (call (\<lambda>h. m_writeLines op h categories) writer) (\<lambda>_. ret ())))"

definition loadLinksFile :: "('w, 'h) opener \<Rightarrow> string \<Rightarrow> string \<Rightarrow> string \<Rightarrow> string \<Rightarrow> ('w, ds_file) io" where
  "loadLinksFile op root relPath name subtype =
     (let filePath = path_join relPath (name @ type_extension ''links'' subtype)
      in bindS (open_file op root filePath True) (\<lambda>reader.
         bindS (call (m_readLines op) reader) (\<lambda>lines.
         bindS (lift (loadLinks_lines lines [])) (\<lambda>ls.
         ret (LinksFile name ls)))))"

definition dumpLinksFile :: "('w, 'h) opener \<Rightarrow> string \<Rightarrow> string \<Rightarrow> string \<Rightarrow> string \<Rightarrow> links \<Rightarrow> ('w, unit) io" where
  "dumpLinksFile op root relPath name subtype ls =
     (let filePath = path_join relPath (name @ type_extension ''links'' subtype)
      in bindS (open_file op root filePath False) (\<lambda>writer.
         bindS (call (\<lambda>h. m_writeLines op h (dumpLinks_lines ls)) writer) (\<lambda>_. ret ())))"

subsection \<open>Directories\<close>

definition ends_with :: "string \<Rightarrow> string \<Rightarrow> bool" where
  "ends_with s ext = (length ext \<le> length s \<and> drop (length s - length ext) s = ext)"

definition load_file ::
  "('w, 'h) opener \<Rightarrow> (string \<Rightarrow> num) \<Rightarrow> string \<Rightarrow> string \<Rightarrow> string \<Rightarrow> bool \<Rightarrow> string \<Rightarrow> string \<Rightarrow> ('w, ds_file) io" where
  "load_file op parseFloat root dirPath childName metadataOnly fileType subtype =
     (if fileType = ''tensor'' then loadTensorFile op parseFloat root dirPath childName metadataOnly subtype
      else if fileType = ''category'' then loadCategoryFile op root dirPath childName subtype
      else if fileType = ''class'' then loadClassFile op root dirPath childName subtype
      else loadLinksFile op root dirPath childName subtype)"

text \<open>The loops over the extensions: a match shortens \<^verbatim>\<open>childName\<close>, and the loops go on with the
  shorter name.\<close>

definition try_extension ::
  "('w, 'h) opener \<Rightarrow> (string \<Rightarrow> num) \<Rightarrow> string \<Rightarrow> string \<Rightarrow> bool \<Rightarrow> string \<times> string \<times> string \<Rightarrow>
   string \<times> ds_file option \<Rightarrow> ('w, string \<times> ds_file option) io" where
  "try_extension op parseFloat root dirPath metadataOnly te st =
     (case (te, st) of
        ((fileType, subtype, ext), (childName, child)) \<Rightarrow>
          if ends_with childName ext then
            (let childName = take (length childName - length ext) childName
             in bindS (load_file op parseFloat root dirPath childName metadataOnly fileType subtype) (\<lambda>f.
                ret (childName, Some f)))
          else ret (childName, child))"

text \<open>\<^verbatim>\<open>loadDirectory\<close> calls itself for what has no known extension. The first argument is the number
  of calls the stack has room for; without room JavaScript throws a \<^verbatim>\<open>RangeError\<close>.\<close>

definition directory_path :: "string \<Rightarrow> string \<Rightarrow> string" where
  "directory_path relPath name = (if length name > 0 then path_join relPath name else relPath)"

fun loadDirectory ::
  "nat \<Rightarrow> ('w, 'h) opener \<Rightarrow> (string \<Rightarrow> num) \<Rightarrow> string \<Rightarrow> string \<Rightarrow> string \<Rightarrow> bool \<Rightarrow> ('w, ds_file) io" where
  "loadDirectory 0 op parseFloat root relPath name metadataOnly = throw RangeError"
| "loadDirectory (Suc n) op parseFloat root relPath name metadataOnly =
     (let dirPath = directory_path relPath name
      in bindS (open_dir op root dirPath True) (\<lambda>dirlist.
         bindS (foldS (\<lambda>entry children.
             bindS (foldS (try_extension op parseFloat root dirPath metadataOnly) TYPE_EXTENSIONS (entry, None)) (\<lambda>(childName, child).
             bindS (case child of
                      Some f \<Rightarrow> ret f
                    | None \<Rightarrow> loadDirectory n op parseFloat root dirPath childName metadataOnly) (\<lambda>f.
             ret (obj_put childName f children)))) dirlist []) (\<lambda>children.
         ret (Directory name children))))"

text \<open>\<^verbatim>\<open>dumpDirectory\<close> opens no directory: it writes the files under the paths they would have.\<close>

fun dump_children ::
  "('w, 'h) opener \<Rightarrow> (num \<Rightarrow> string) \<Rightarrow> string \<Rightarrow> string \<Rightarrow> (string \<times> ds_file) list \<Rightarrow> ('w, unit) io" where
  "dump_children op num_text root dirPath [] = ret ()"
| "dump_children op num_text root dirPath ((childName, child) # cs) =
     bindS
       (case child of
          TensorFile _ dims data \<Rightarrow> dumpTensorFile op num_text root dirPath childName (file_subtype child) dims data
        | CategoryFile _ categories \<Rightarrow> dumpCategoryFile op root dirPath childName (file_subtype child) categories
        | ClassFile _ categories \<Rightarrow> dumpClassFile op root dirPath childName (file_subtype child) categories
        | LinksFile _ ls \<Rightarrow> dumpLinksFile op root dirPath childName (file_subtype child) ls
        | Directory _ children \<Rightarrow> dump_children op num_text root (directory_path dirPath childName) children)
       (\<lambda>_. dump_children op num_text root dirPath cs)"

definition dumpDirectory ::
  "('w, 'h) opener \<Rightarrow> (num \<Rightarrow> string) \<Rightarrow> ds_file \<Rightarrow> string \<Rightarrow> string \<Rightarrow> string \<Rightarrow> ('w, unit) io" where
  "dumpDirectory op num_text self root relPath name =
     dump_children op num_text root (directory_path relPath name) (dir_children self)"

subsection \<open>Data sets\<close>

record dataset =
  ds_root :: string
  ds_directory :: ds_file

definition loadDataset :: "nat \<Rightarrow> ('w, 'h) opener \<Rightarrow> (string \<Rightarrow> num) \<Rightarrow> string \<Rightarrow> bool \<Rightarrow> ('w, dataset) io" where
  "loadDataset n op parseFloat root metadataOnly =
     bindS (loadDirectory n op parseFloat root [] [] metadataOnly) (\<lambda>directory.
     ret \<lparr>ds_root = root, ds_directory = directory\<rparr>)"

definition dumpDataset :: "('w, 'h) opener \<Rightarrow> (num \<Rightarrow> string) \<Rightarrow> dataset \<Rightarrow> string \<Rightarrow> ('w, unit) io" where
  "dumpDataset op num_text self root = dumpDirectory op num_text (ds_directory self) root [] []"

subsection \<open>Set helpers\<close>

definition isSuperset :: "string list \<Rightarrow> string list \<Rightarrow> bool" where
  "isSuperset s xs = list_all (\<lambda>x. x \<in> set s) xs"

definition difference :: "string list \<Rightarrow> string list \<Rightarrow> string list" where
  "difference setA setB = fold set_delete setB setA"

text \<open>\<^verbatim>\<open>arraysEqual\<close> of a list of dimensions and a JSON value. Values without a \<^verbatim>\<open>length\<close> are not equal to
  any list.\<close>

definition arraysEqual :: "jsval list \<Rightarrow> jsval \<Rightarrow> bool" where
  "arraysEqual a b =
     (case b of
        JArr ys \<Rightarrow> length a = length ys \<and> list_all2 (=) a ys
      | JStr s \<Rightarrow> length a = length s \<and> list_all2 (=) a (map (\<lambda>c. JStr [c]) s)
      | _ \<Rightarrow> False)"

end
