(* ===== verification/Openers_Correct.thy ===== *)
theory Openers_Correct
  imports Openers Dataset
begin

text \<open>
  What the openers and the data set code do together: lines of text files, and the two ways in which
  files are not written or read because of the methods that are in effect.
\<close>

subsection \<open>Lines\<close>

definition text_bytes :: "string \<Rightarrow> byte list" where
  "text_bytes s = map byte_of_char s"

definition newline :: char where
  "newline = CHR 0x0A"

definition line_end :: "char \<Rightarrow> bool" where
  "line_end c = (c = CHR 0x0A \<or> c = CHR 0x0D)"

lemma read_lines_loop_concat:
  "concat (read_lines_loop bs lineEnd curLine data) =
     concat data @ curLine @ map char_of_byte (takeWhile (\<lambda>b. b \<noteq> 0) bs)"
  by (induction bs lineEnd curLine data rule: read_lines_loop.induct) (auto simp: Let_def)

lemma read_lines_loop_nonempty:
  "[] \<notin> set data \<Longrightarrow> (lineEnd \<Longrightarrow> curLine \<noteq> []) \<Longrightarrow> [] \<notin> set (read_lines_loop bs lineEnd curLine data)"
  by (induction bs lineEnd curLine data rule: read_lines_loop.induct) (auto simp: Let_def split: if_splits)

text \<open>A line without line ends is collected, and the line end after it completes it.\<close>

definition plain_line :: "string \<Rightarrow> bool" where
  "plain_line l = (l \<noteq> [] \<and> (\<forall>c \<in> set l. \<not> line_end c \<and> c \<noteq> CHR 0x00))"

lemma byte_of_char_0: "byte_of_char c = 0 \<longleftrightarrow> c = CHR 0x00"
proof
  assume "byte_of_char c = 0"
  then have "c = char_of_byte 0" using char_of_byte_of_char [of c] by simp
  moreover have "char_of_byte 0 = CHR 0x00" by code_simp
  ultimately show "c = CHR 0x00" by simp
qed (simp add: byte_of_char_def)

lemma read_lines_loop_chars:
  "(\<forall>c \<in> set l. \<not> line_end c \<and> c \<noteq> CHR 0x00) \<Longrightarrow>
   read_lines_loop (text_bytes l @ bs) False curLine data = read_lines_loop bs False (curLine @ l) data"
  by (induction l arbitrary: curLine) (auto simp: text_bytes_def byte_of_char_0 line_end_def Let_def)

lemma read_lines_loop_line:
  assumes "plain_line l"
  shows "read_lines_loop (text_bytes (l @ [newline]) @ bs) True curLine data =
           read_lines_loop bs True (l @ [newline]) (data @ [curLine])"
    and "read_lines_loop (text_bytes (l @ [newline]) @ bs) False [] data = read_lines_loop bs True (l @ [newline]) data"
proof -
  obtain c cs where l: "l = c # cs" using assms by (cases l) (auto simp: plain_line_def)
  have c: "\<not> line_end c" "c \<noteq> CHR 0x00" "\<forall>c \<in> set cs. \<not> line_end c \<and> c \<noteq> CHR 0x00" using assms l by (auto simp: plain_line_def)
  have t: "text_bytes (l @ [newline]) @ bs = byte_of_char c # text_bytes cs @ byte_of_char newline # bs"
    by (simp add: text_bytes_def l)
  show "read_lines_loop (text_bytes (l @ [newline]) @ bs) True curLine data =
           read_lines_loop bs True (l @ [newline]) (data @ [curLine])"
    and "read_lines_loop (text_bytes (l @ [newline]) @ bs) False [] data = read_lines_loop bs True (l @ [newline]) data"
    unfolding t using c
    by (simp_all add: byte_of_char_0 line_end_def Let_def read_lines_loop_chars [unfolded line_end_def] l newline_def)
qed

lemma read_lines_loop_lines:
  "\<forall>l \<in> set ls. plain_line l \<Longrightarrow> curLine \<noteq> [] \<Longrightarrow>
   read_lines_loop (text_bytes (concat (map (\<lambda>l. l @ [newline]) ls))) True curLine data =
     data @ curLine # map (\<lambda>l. l @ [newline]) ls"
proof (induction ls arbitrary: curLine data)
  case (Cons l ls)
  have "text_bytes (concat (map (\<lambda>l. l @ [newline]) (l # ls))) =
      text_bytes (l @ [newline]) @ text_bytes (concat (map (\<lambda>l. l @ [newline]) ls))" by (simp add: text_bytes_def)
  then show ?case using Cons by (simp add: read_lines_loop_line)
qed (simp add: text_bytes_def)

lemma readLines_text:
  assumes "\<forall>l \<in> set ls. plain_line l"
  shows "readLinesFromDataView (text_bytes (concat (map (\<lambda>l. l @ [newline]) ls))) = map (\<lambda>l. l @ [newline]) ls"
proof (cases ls)
  case (Cons l ls')
  have "text_bytes (concat (map (\<lambda>l. l @ [newline]) ls)) =
      text_bytes (l @ [newline]) @ text_bytes (concat (map (\<lambda>l. l @ [newline]) ls'))" by (simp add: text_bytes_def Cons)
  then show ?thesis
    using assms read_lines_loop_lines [of ls' "l @ [newline]" "[]"]
    by (simp add: readLinesFromDataView_def read_lines_loop_line Cons)
qed (simp add: readLinesFromDataView_def text_bytes_def)

lemma trim_newline:
  assumes "trim l = l" and "l \<noteq> []"
  shows "trim (l @ [newline]) = l"
proof -
  have s: "is_space newline" by code_simp
  define t where "t = dropWhile is_space l"
  have l: "rev (dropWhile is_space (rev t)) = l" using assms(1) by (simp add: trim_def t_def)
  have len: "length (dropWhile is_space (rev t)) \<le> length t" "length t \<le> length l"
    using length_dropWhile_le [of is_space "rev t"] length_dropWhile_le [of is_space l] by (simp_all add: t_def)
  have "length (dropWhile is_space (rev t)) = length l" using l by (metis length_rev)
  then have "length t = length l" using len by simp
  moreover have "l = takeWhile is_space l @ t" unfolding t_def by simp
  ultimately have "takeWhile is_space l = []" by (metis add_cancel_left_left length_0_conv length_append)
  then have "t = l" unfolding t_def by (metis append_Nil takeWhile_dropWhile_id)
  then have h: "dropWhile is_space l = l" by (simp add: t_def)
  then have "\<not> is_space (hd l)" using assms(2) hd_dropWhile [of is_space l] by simp
  then have "dropWhile is_space (l @ [newline]) = l @ [newline]" using assms(2) by (cases l) auto
  then show ?thesis using s l \<open>t = l\<close> by (simp add: trim_def)
qed

subsection \<open>Writing to the file system\<close>

fun only_directories :: "(string \<times> ds_file) list \<Rightarrow> bool" where
  "only_directories [] = True"
| "only_directories ((n, f) # fs) =
     ((case f of Directory _ cs \<Rightarrow> only_directories cs | _ \<Rightarrow> False) \<and> only_directories fs)"

definition fails :: "'a res \<times> 'w \<Rightarrow> bool" where
  "fails r = (\<exists>e. fst r = Inl e)"

lemma fails_bindS: "fails (bindS m f w) \<longleftrightarrow> fails (m w) \<or> (\<exists>x w'. m w = (Inr x, w') \<and> fails (f x w'))"
  by (auto simp: bindS_def fails_def split: prod.split sum.split)

lemma fails_pair [simp]: "fails (Inl e, w)" "\<not> fails (Inr x, w)"
  by (simp_all add: fails_def)

lemma fails_throw [simp]: "fails (throw e w)"
  by (simp add: fails_def)

lemma not_fails: "\<not> fails (m w) \<Longrightarrow> \<exists>x w'. m w = (Inr x, w')"
  by (cases "m w"; cases "fst (m w)") (auto simp: fails_def)

lemma bindS_fails: "(\<And>x v. fails (f x v)) \<Longrightarrow> fails (bindS m f w)"
  using not_fails [of m w] by (auto simp: fails_bindS)

lemma fails_lift [simp]: "fails (lift r w) \<longleftrightarrow> (\<exists>e. r = Inl e)"
  by (cases r) (simp_all add: fails_def)

lemma fs_opener_methods [simp]:
  "m_writeLines (defaultOpener fs_methods) h data w = (Inl TypeError, w)"
  "m_close (defaultOpener fs_methods) h = fs_close h"
  "m_write (defaultOpener fs_methods) h = fs_write h"
  by (simp_all add: defaultOpener_def fs_methods_def install_fs_def methods.defs fs_writeLines_def)

lemma writeLines_fails: "fails (bindS (call (\<lambda>h. m_writeLines (defaultOpener fs_methods) h data) writer) f w)"
  by (cases writer) (auto simp: fails_bindS call_def fails_def)

text \<open>The descriptor is closed before it is written to.\<close>

lemma closed_write_fails: "fs_close h w = (Inr u, w') \<Longrightarrow> fails (fs_write h bs 0 (length bs) pos w')"
proof (cases h)
  case (FsHandle fd)
  assume "fs_close h w = (Inr u, w')"
  then have "w_fs w' = w_fs w\<lparr>fs_fds := filter (\<lambda>e. fst e \<noteq> fd) (fs_fds (w_fs w))\<rparr>"
    by (auto simp: fs_close_def FsHandle in_fs_def closeSync_def split: if_splits)
  moreover have "map_of (filter (\<lambda>e. fst e \<noteq> fd) xs) fd = None" for xs :: "(nat \<times> open_fd) list"
    by (induction xs) auto
  ultimately show ?thesis by (simp add: fs_write_def FsHandle in_fs_def writeSync_def fails_def)
qed (simp add: fs_write_def)

lemma NpyWriter_write_fails: "fails (NpyWriter_write (defaultOpener fs_methods) h wr data True w)"
proof -
  have "fails (bindS (fs_close h) (\<lambda>_. bindS (fs_write h bs 0 (length bs) pos) f) v)" for bs pos f v
    using not_fails [of "fs_close h" v] closed_write_fails by (fastforce simp: fails_bindS)
  then show ?thesis unfolding NpyWriter_write_def Let_def by - (rule bindS_fails, rule bindS_fails, simp)
qed

lemma dump_file_fails:
  "fails (dumpTensorFile (defaultOpener fs_methods) nt root p n st dims data w)"
  "fails (dumpCategoryFile (defaultOpener fs_methods) root p n st cats w)"
  "fails (dumpClassFile (defaultOpener fs_methods) root p n st cats w)"
  "fails (dumpLinksFile (defaultOpener fs_methods) root p n st ls w)"
proof -
  have w: "fails (bindS (call (\<lambda>h. NpyWriter_write (defaultOpener fs_methods) h wr d True) writer) f v)" for wr d writer f v
    by (cases writer) (auto simp: fails_bindS call_def NpyWriter_write_fails)
  show "fails (dumpTensorFile (defaultOpener fs_methods) nt root p n st dims data w)"
    unfolding dumpTensorFile_def Let_def
    by (intro bindS_fails) (auto intro!: bindS_fails w writeLines_fails split: jsval.split option.split)
qed (auto simp: dumpCategoryFile_def dumpClassFile_def dumpLinksFile_def Let_def intro!: bindS_fails writeLines_fails)

lemma dump_children_fails:
  "\<not> only_directories cs \<Longrightarrow> fails (dump_children (defaultOpener fs_methods) nt root p cs w)"
proof (induction "defaultOpener fs_methods" nt root p cs arbitrary: w rule: dump_children.induct)
  case (2 nt root dirPath childName child cs)
  show ?case
  proof (cases "\<exists>nm ch. child = Directory nm ch \<and> only_directories ch")
    case True
    then have "\<not> only_directories cs" using 2(3) by auto
    then show ?thesis unfolding dump_children.simps using 2(2) by (intro bindS_fails) blast
  next
    case False
    then have "fails ((case child of
          TensorFile _ dims data \<Rightarrow> dumpTensorFile (defaultOpener fs_methods) nt root dirPath childName (file_subtype child) dims data
        | CategoryFile _ categories \<Rightarrow> dumpCategoryFile (defaultOpener fs_methods) root dirPath childName (file_subtype child) categories
        | ClassFile _ categories \<Rightarrow> dumpClassFile (defaultOpener fs_methods) root dirPath childName (file_subtype child) categories
        | LinksFile _ ls \<Rightarrow> dumpLinksFile (defaultOpener fs_methods) root dirPath childName (file_subtype child) ls
        | Directory _ children \<Rightarrow> dump_children (defaultOpener fs_methods) nt root (directory_path dirPath childName) children) w)"
      using 2(1) by (cases child) (auto simp: dump_file_fails)
    then show ?thesis unfolding dump_children.simps fails_bindS by blast
  qed
qed simp

subsection \<open>Reading with the methods of the package\<close>

lemma package_opener_methods [simp]:
  "m_readLines (defaultOpener package_methods) (FsHandle fd) = throw TypeError"
  "m_read (defaultOpener package_methods) (FsHandle fd) buffer 0 n pos = ret (n, buffer)"
  by (simp_all add: defaultOpener_def package_methods_def install_fs_def install_tar_def methods.defs tar_readLines_def tar_read_def)

lemma open_file_handle:
  "open_file (defaultOpener m) root relPath True w = (Inr h, w') \<Longrightarrow> \<exists>fd. h = Some (FsHandle fd)"
  by (auto simp: defaultOpener_def methods.defs defaultOpener_file_def Let_def bindS_Inr)

lemma open_then_fails:
  "(\<And>fd v. fails (f (Some (FsHandle fd)) v)) \<Longrightarrow> fails (bindS (open_file (defaultOpener m) root relPath True) f w)"
  using not_fails [of "open_file (defaultOpener m) root relPath True" w] open_file_handle
  by (fastforce simp: fails_bindS)

lemma load_file_package_fails:
  "fails (load_file (defaultOpener package_methods) pf root dirPath name metadataOnly fileType subtype w)"
proof -
  have z: "readDataViewAsString (take 6 (zeros 10)) \<noteq> magicString" by (simp add: zeros_def readDataViewAsString_def magicString_def)
  then have h: "fails (readHeader (defaultOpener package_methods) (Some (FsHandle fd)) v)" for fd v
    by (simp add: readHeader_def)
  then have r: "fails (new_NpyReader (defaultOpener package_methods) (Some (FsHandle fd)) v)" for fd v
    by (simp add: new_NpyReader_def fails_bindS)
  have l: "fails (bindS (call (m_readLines (defaultOpener package_methods)) (Some (FsHandle fd))) f v)" for fd f and v :: world
    by simp
  have b: "fails (bindS (new_NpyReader (defaultOpener package_methods) (Some (FsHandle fd))) f v)" for fd f v
    unfolding fails_bindS by (rule disjI1, rule r)
  have t: "fails (loadTensorFile (defaultOpener package_methods) pf root dirPath name metadataOnly subtype w)"
    unfolding loadTensorFile_def Let_def
  proof (rule open_then_fails, goal_cases)
    case (1 fd v)
    show ?case
    proof (cases "subtype = ''default''")
      case True
      then show ?thesis unfolding if_P [OF True] by - (rule b)
    next
      case False
      show ?thesis
      proof (cases "subtype = ''csv''")
        case True
        show ?thesis unfolding if_not_P [OF False] if_P [OF True] by (rule l)
      next
        case no: False
        show ?thesis unfolding if_not_P [OF False] if_not_P [OF no] by (rule fails_throw)
      qed
    qed
  qed
  have "fails (loadCategoryFile (defaultOpener package_methods) root dirPath name subtype w)"
    "fails (loadClassFile (defaultOpener package_methods) root dirPath name subtype w)"
    "fails (loadLinksFile (defaultOpener package_methods) root dirPath name subtype w)"
    unfolding loadCategoryFile_def loadClassFile_def loadLinksFile_def Let_def by (rule open_then_fails, rule l)+
  then show ?thesis using t by (simp add: load_file_def)
qed
subsection \<open>Properties\<close>


text \<open>A category or class file, one name on each line, is read as its list of names, when the names
  are not empty, hold no line end or zero byte and neither begin nor end with a space.\<close>

theorem category_text_roundtrip:
  assumes "\<forall>l \<in> set ls. plain_line l \<and> trim l = l"
  shows "category_lines (readLinesFromDataView (text_bytes (concat (map (\<lambda>l. l @ [newline]) ls)))) = ls"
proof -
  have "map (trim \<circ> (\<lambda>l. l @ [newline])) ls = ls"
    using assms by (intro map_idI) (auto simp: plain_line_def trim_newline)
  moreover have "filter (\<lambda>l. l \<noteq> []) ls = ls" using assms by (auto simp: plain_line_def filter_id_conv)
  ultimately show ?thesis using assms by (simp add: readLines_text category_lines_def)
qed

theorem category_text_roundtrip_witness:
  "category_lines (readLinesFromDataView (text_bytes (concat (map (\<lambda>l. l @ [newline]) [''cat'', ''big dog''])))) =
     [''cat'', ''big dog'']"
proof (rule category_text_roundtrip)
  show "\<forall>l \<in> set [''cat'', ''big dog'']. plain_line l \<and> trim l = l" by code_simp
qed



text \<open>With the methods in effect when the package is loaded, those of \<^verbatim>\<open>tar-opener.js\<close>, no file can be
  loaded through the file system opener: the methods look for a buffer that its readers do not have.\<close>

theorem package_load_fails:
  "fails (load_file (defaultOpener package_methods) parse root dirPath name metadataOnly fileType subtype w)"
  by (rule load_file_package_fails)

end
