(* ===== verification/Npy_Correct.thy ===== *)
theory Npy_Correct
  imports Openers_Correct
begin

text \<open>
  The npy component: the layout of a written header, the round trip of the elements, and what the
  reader makes of the header that the writer wrote.
\<close>

subsection \<open>Layout of the header\<close>

lemma set_bytes_zeros:
  "n \<ge> length bs \<Longrightarrow> set_bytes (pre @ zeros n) (length pre) bs = Inr (pre @ bs @ zeros (n - length bs))"
  by (simp add: set_bytes_def zeros_def)

definition header_padding :: "int list \<Rightarrow> string \<Rightarrow> bool \<Rightarrow> bool \<Rightarrow> nat" where
  "header_padding shape dtype columnMajor bigEndian =
     (16 - length (header_text shape dtype columnMajor bigEndian) mod 16) mod 16"

definition padded_header :: "int list \<Rightarrow> string \<Rightarrow> bool \<Rightarrow> bool \<Rightarrow> string" where
  "padded_header shape dtype columnMajor bigEndian =
     header_text shape dtype columnMajor bigEndian @ replicate (header_padding shape dtype columnMajor bigEndian) CHR '' ''"

definition header_start :: "int \<Rightarrow> string" where
  "header_start version = magicString @ (if version = 1 then [CHR 0x01, CHR 0x00] else [CHR 0x02, CHR 0x00])"

lemma padded_multiple: "(n + (16 - n mod 16) mod 16) mod 16 = (0 :: nat)"
proof -
  have "(n + (16 - n mod 16) mod 16) mod 16 = (n mod 16 + (16 - n mod 16)) mod 16" by (metis mod_add_left_eq mod_add_right_eq)
  then show ?thesis by simp
qed

lemma length_padded_header: "length (padded_header shape dtype cm be) mod 16 = 0"
  by (simp add: padded_header_def header_padding_def padded_multiple)

lemma header_buffer_layout:
  "header_buffer shape dtype version cm be =
     Inr (text_bytes (header_start version) @
          le_bytes (if version = 1 then 2 else 4) (length (padded_header shape dtype cm be)) @
          text_bytes (padded_header shape dtype cm be))"
proof -
  define h where "h = padded_header shape dtype cm be"
  define v where "v = text_bytes (header_start version)"
  define n :: nat where "n = (if version = 1 then 2 else 4)"
  have lv: "length v = 8" by (simp add: v_def text_bytes_def header_start_def magicString_def)
  have 1: "writeStringToDataView (zeros (8 + (n + length h))) (header_start version) 0 = Inr (v @ zeros (n + length h), 8)"
    using set_bytes_zeros [of v "8 + (n + length h)" "[]"] lv
    by (simp add: writeStringToDataView_def v_def text_bytes_def)
  have 2: "set_bytes (v @ zeros (n + length h)) 8 (le_bytes n (length h)) = Inr (v @ le_bytes n (length h) @ zeros (length h))"
    using set_bytes_zeros [of "le_bytes n (length h)" "n + length h" v] lv by simp
  have 3: "writeStringToDataView (v @ le_bytes n (length h) @ zeros (length h)) h (8 + n) = Inr (v @ le_bytes n (length h) @ text_bytes h, 8 + n + length h)"
    using set_bytes_zeros [of "text_bytes h" "length h" "v @ le_bytes n (length h)"] lv
    by (simp add: writeStringToDataView_def text_bytes_def zeros_def)
  have h: "header_text shape dtype cm be @ replicate ((16 - length (header_text shape dtype cm be) mod 16) mod 16) CHR '' '' = h"
    by (simp add: h_def padded_header_def header_padding_def)
  have l: "length (header_text shape dtype cm be) + (16 - length (header_text shape dtype cm be) mod 16) mod 16 = length h"
    unfolding h [symmetric] by simp
  have m: "length h mod 16 = 0" unfolding h_def by (rule length_padded_header)
  have s: "magicString @ (if version = 1 then [CHR 0x01, CHR 0x00] else [CHR 0x02, CHR 0x00]) = header_start version"
    by (simp add: header_start_def)
  have tl: "length magicString + length (if version = 1 then [CHR 0x01, CHR 0x00] else [CHR 0x02, CHR 0x00]) + n + length h = 8 + (n + length h)"
    by (simp add: magicString_def)
  show ?thesis
    unfolding header_buffer_def Let_def l h s n_def [symmetric] tl using m
    by (simp add: 1 2 3 h_def [symmetric] v_def [symmetric] n_def [symmetric])
qed

subsection \<open>Elements\<close>

lemma chunks_concat:
  "\<forall>b \<in> set bss. length b = n \<Longrightarrow> chunks n (length bss) (concat bss) = bss"
  by (induction bss) auto

lemma f8_bytes: "of_nat (le_value (le_bytes 8 (unat x))) = (x :: num)"
proof -
  have "unat x < 256 ^ 8" using unsigned_less [of x, where 'a = nat] by simp
  then show ?thesis by (simp add: le_value_le_bytes)
qed

lemma f8_elements:
  "mapE (element_bytes ''f8'' False) data = Inr (map (\<lambda>x. le_bytes 8 (unat x)) data)"
  by (rule mapE_total) (simp add: element_bytes_def)

lemma f8_roundtrip:
  "typed_array ''f8'' (length data) (concat (map (\<lambda>x. le_bytes 8 (unat x)) data)) = Inr (Some (Float64Array data))"
  using chunks_concat [of "map (\<lambda>x. le_bytes 8 (unat x)) data" 8]
  by (simp add: typed_array_def comp_def f8_bytes)

subsection \<open>Replacements in the header\<close>

lemma strip_prefix_self [simp]: "strip_prefix t (t @ r) = Some r"
  by (induction t) auto

lemma strip_prefix_head: "t \<noteq> [] \<Longrightarrow> hd t \<noteq> c \<Longrightarrow> strip_prefix t (c # cs) = None"
  by (cases t) auto

lemma replace_first_skip:
  "t \<noteq> [] \<Longrightarrow> hd t \<notin> set xs \<Longrightarrow> replace_first t u (xs @ ys) = xs @ replace_first t u ys"
  by (induction xs) (auto simp: strip_prefix_head)

lemma replace_first_none: "t \<noteq> [] \<Longrightarrow> hd t \<notin> set xs \<Longrightarrow> replace_first t u xs = xs"
  using replace_first_skip [of t xs u "[]"] by simp

lemma replace_first_here: "t \<noteq> [] \<Longrightarrow> replace_first t u (t @ r) = u @ r"
proof -
  assume "t \<noteq> []"
  then obtain c cs where t: "t = c # cs" by (cases t) auto
  have "strip_prefix t (t @ r) = Some r" by simp
  then show ?thesis by (simp add: t)
qed

lemma replace_first_at:
  "t \<noteq> [] \<Longrightarrow> hd t \<notin> set xs \<Longrightarrow> replace_first t u (xs @ t @ r) = xs @ u @ r"
  by (simp add: replace_first_skip replace_first_here)

lemma replace_comma_brace_skip:
  assumes "CHR ''}'' \<notin> set xs" and "d \<noteq> CHR ''}''" and "d \<noteq> CHR '',''" and "\<not> is_space d"
  shows "replace_comma_brace (xs @ d # ys) = xs @ d # replace_comma_brace ys"
  using assms(1)
proof (induction xs)
  case Nil
  then show ?case using assms(3) by (auto split: list.split)
next
  case (Cons c xs)
  have "dropWhile is_space (xs @ d # ys) \<noteq> [] \<and> hd (dropWhile is_space (xs @ d # ys)) \<noteq> CHR ''}''"
    using Cons.prems assms(2,4) by (induction xs) auto
  then show ?case using Cons by (cases "dropWhile is_space (xs @ d # ys)") auto
qed

lemma replace_comma_paren_at:
  "CHR '')'' \<notin> set xs \<Longrightarrow> replace_comma_paren (xs @ '',)'' @ ys) = xs @ '']'' @ ys"
proof (induction xs)
  case (Cons c xs)
  then show ?case by (cases xs) auto
qed simp

subsection \<open>The header as JSON\<close>

lemma int_text_chars: "c \<in> set (int_text i) \<Longrightarrow> is_digit c \<or> c = CHR ''-''"
  using digits_of_digits by (auto simp: int_text_def list_all_iff split: if_splits)

lemma join_chars: "c \<in> set (join sep xs) \<Longrightarrow> c \<in> set sep \<or> (\<exists>x \<in> set xs. c \<in> set x)"
  by (induction sep xs rule: join.induct) auto

definition dims_text :: "int list \<Rightarrow> string" where
  "dims_text shape = join '','' (map int_text shape)"

lemma dims_text_chars: "c \<in> set (dims_text shape) \<Longrightarrow> is_digit c \<or> c = CHR ''-'' \<or> c = CHR '',''"
  using join_chars [of c "'',''" "map int_text shape"] int_text_chars by (auto simp: dims_text_def)

definition json_prefix :: "string \<Rightarrow> bool \<Rightarrow> bool \<Rightarrow> string" where
  "json_prefix dtype cm be =
     ''{'' @ [quote] @ ''descr'' @ [quote] @ '': '' @ [quote] @ (if be then ''>'' else ''<'') @ dtype @ [quote] @
     '', '' @ [quote] @ ''fortran_order'' @ [quote] @ '': '' @ (if cm then ''true'' else ''false'') @
     '', '' @ [quote] @ ''shape'' @ [quote] @ '': ''"

text \<open>What a data type has in common with plain text: none of the characters that are replaced.\<close>

definition plain_dtype :: "string \<Rightarrow> bool" where
  "plain_dtype dtype = list_all name_char dtype"

lemma DATA_TYPES_plain: "dtype \<in> set DATA_TYPES \<Longrightarrow> plain_dtype dtype"
proof -
  have "\<forall>d \<in> set DATA_TYPES. plain_dtype d" by code_simp
  then show "dtype \<in> set DATA_TYPES \<Longrightarrow> plain_dtype dtype" by blast
qed

lemma special_chars:
  "\<not> name_char CHR ''T''" "\<not> name_char CHR ''F''" "\<not> name_char CHR 0x27" "\<not> name_char CHR ''}''" "\<not> name_char CHR '')''"
  "\<not> name_char CHR ''(''" "\<not> name_char CHR 0x22" "\<not> name_char CHR 0x5C" "\<not> is_digit CHR ''T''" "\<not> is_digit CHR ''F''"
  "\<not> is_digit CHR 0x27" "\<not> is_digit CHR ''}''" "\<not> is_digit CHR '')''" "\<not> is_digit CHR ''(''"
  by code_simp+

definition text_prefix :: "string \<Rightarrow> bool \<Rightarrow> string" where
  "text_prefix dtype be =
     ''{'' @ apos @ ''descr'' @ apos @ '': '' @ apos @ (if be then ''>'' else ''<'') @ dtype @ apos @
     '', '' @ apos @ ''fortran_order'' @ apos @ '': ''"

definition text_middle :: string where
  "text_middle = '', '' @ apos @ ''shape'' @ apos @ '': ''"

definition text_rest :: "int list \<Rightarrow> nat \<Rightarrow> string" where
  "text_rest shape k = ''('' @ dims_text shape @ '',)'' @ '', }'' @ replicate k CHR '' ''"

lemma header_text_parts:
  "header_text shape dtype cm be @ replicate k CHR '' '' =
     text_prefix dtype be @ (if cm then ''True'' else ''False'') @ text_middle @ text_rest shape k"
  by (simp add: header_text_def text_prefix_def text_middle_def text_rest_def shape_text_def dims_text_def)

lemma json_prefix_parts:
  "json_prefix dtype cm be =
     replace_all CHR 0x27 quote (text_prefix dtype be) @ (if cm then ''true'' else ''false'') @ replace_all CHR 0x27 quote text_middle"
  if "plain_dtype dtype"
proof -
  have "replace_all CHR 0x27 quote dtype = dtype"
    using that special_chars(3) unfolding replace_all_def plain_dtype_def list_all_iff by (intro map_idI) auto
  then show ?thesis by (simp add: json_prefix_def text_prefix_def text_middle_def apos_def replace_all_def)
qed

definition replaced :: "char \<Rightarrow> bool" where
  "replaced c = (c \<in> {CHR ''T'', CHR ''F'', CHR ''}'', CHR '')'', CHR ''(''})"

lemma plain_dtype_replaced: "plain_dtype dtype \<Longrightarrow> list_all (\<lambda>c. \<not> replaced c) dtype"
  using special_chars by (auto simp: plain_dtype_def list_all_iff replaced_def)

lemma text_chars:
  assumes "plain_dtype dtype" and "replaced c"
  shows "c \<notin> set (text_prefix dtype be)" "c \<notin> set text_middle"
proof -
  have "list_all (\<lambda>c. \<not> replaced c) (''{'' @ apos @ ''descr'' @ apos @ '': '' @ apos @ (if be then ''>'' else ''<''))"
    by (cases be) (simp_all only: if_True if_False, code_simp+)
  moreover have "list_all (\<lambda>c. \<not> replaced c) (apos @ '', '' @ apos @ ''fortran_order'' @ apos @ '': '')" by code_simp
  ultimately have "list_all (\<lambda>c. \<not> replaced c) (text_prefix dtype be)"
    using plain_dtype_replaced [OF assms(1)] by (simp only: text_prefix_def list_all_append)
  then show "c \<notin> set (text_prefix dtype be)" using assms(2) by (auto simp: list_all_iff)
  have "list_all (\<lambda>c. \<not> replaced c) text_middle" by code_simp
  then show "c \<notin> set text_middle" using assms(2) by (auto simp: list_all_iff)
qed

lemma json_prefix_chars:
  assumes "plain_dtype dtype" and "c \<in> {CHR ''}'', CHR '')'', CHR ''(''}"
  shows "c \<notin> set (json_prefix dtype cm be)"
proof -
  have c: "replaced c" using assms(2) by (auto simp: replaced_def)
  have "list_all (\<lambda>c. \<not> replaced c) (''{'' @ [quote] @ ''descr'' @ [quote] @ '': '' @ [quote] @ (if be then ''>'' else ''<''))"
    by (cases be) (simp_all only: if_True if_False, code_simp+)
  moreover have "list_all (\<lambda>c. \<not> replaced c)
      ([quote] @ '', '' @ [quote] @ ''fortran_order'' @ [quote] @ '': '' @ (if cm then ''true'' else ''false'') @
       '', '' @ [quote] @ ''shape'' @ [quote] @ '': '')"
    by (cases cm) (simp_all only: if_True if_False, code_simp+)
  ultimately have "list_all (\<lambda>c. \<not> replaced c) (json_prefix dtype cm be)"
    using plain_dtype_replaced [OF assms(1)] by (simp only: json_prefix_def list_all_append)
  then show ?thesis using c by (auto simp: list_all_iff)
qed

lemma dims_text_not: "c \<in> {CHR ''T'', CHR ''F'', CHR ''}'', CHR '')'', CHR ''('', CHR 0x27} \<Longrightarrow> c \<notin> set (dims_text shape)"
  using dims_text_chars [of c shape] special_chars by auto

lemma text_rest_chars: "c \<in> {CHR ''T'', CHR ''F'', CHR 0x27} \<Longrightarrow> c \<notin> set (text_rest shape k)"
  using dims_text_not [of c shape] by (auto simp: text_rest_def)

lemma header_json_written:
  assumes "plain_dtype dtype"
  shows "header_json (header_text shape dtype cm be @ replicate k CHR '' '') =
           json_prefix dtype cm be @ ''['' @ dims_text shape @ ''] }'' @ replicate k CHR '' ''"
proof -
  let ?A = "text_prefix dtype be" and ?M = "text_middle" and ?R = "text_rest shape k"
  have rp: "replaced CHR ''T''" "replaced CHR ''F''" by code_simp+
  note A = text_chars(1) [OF assms, of _ be] and M = text_chars(2) [OF assms] and R = text_rest_chars [of _ shape k]
  have flag: "replace_first ''False'' ''false'' (replace_first ''True'' ''true'' (?A @ (if cm then ''True'' else ''False'') @ ?M @ ?R)) =
      ?A @ (if cm then ''true'' else ''false'') @ ?M @ ?R"
  proof (cases cm)
    case True
    have "replace_first ''True'' ''true'' (?A @ ''True'' @ ?M @ ?R) = ?A @ ''true'' @ ?M @ ?R"
      using A rp by (intro replace_first_at) auto
    moreover have "replace_first ''False'' ''false'' (?A @ ''true'' @ ?M @ ?R) = ?A @ ''true'' @ ?M @ ?R"
      using A M R rp by (intro replace_first_none) auto
    ultimately show ?thesis using True by simp
  next
    case False
    have "replace_first ''True'' ''true'' (?A @ ''False'' @ ?M @ ?R) = ?A @ ''False'' @ ?M @ ?R"
      using A M R rp by (intro replace_first_none) auto
    moreover have "replace_first ''False'' ''false'' (?A @ ''False'' @ ?M @ ?R) = ?A @ ''false'' @ ?M @ ?R"
      using A rp by (intro replace_first_at) auto
    ultimately show ?thesis using False by simp
  qed
  have app: "replace_all c d (xs @ ys) = replace_all c d xs @ replace_all c d ys" for c d xs ys by (simp add: replace_all_def)
  have idr: "replace_all CHR 0x27 quote ?R = ?R"
  proof -
    have "CHR 0x27 \<notin> set ?R" by (intro R) simp
    then show ?thesis unfolding replace_all_def by (intro map_idI) auto
  qed
  have q: "replace_all CHR 0x27 quote (?A @ (if cm then ''true'' else ''false'') @ ?M @ ?R) = json_prefix dtype cm be @ ?R"
    unfolding app idr json_prefix_parts [OF assms] by (simp add: replace_all_def)
  have brace: "replace_comma_brace (json_prefix dtype cm be @ ?R) =
      (json_prefix dtype cm be @ ''('' @ dims_text shape) @ '',)'' @ '' }'' @ replicate k CHR '' ''"
  proof -
    have "\<not> is_space CHR '')''" "\<not> is_space CHR ''}''" "is_space CHR '' ''" by code_simp+
    moreover have "CHR ''}'' \<notin> set (json_prefix dtype cm be @ ''('' @ dims_text shape @ '','')"
      using json_prefix_chars [OF assms] dims_text_not by auto
    ultimately show ?thesis
      using replace_comma_brace_skip [of "json_prefix dtype cm be @ ''('' @ dims_text shape @ '',''" "CHR '')''" "'', }'' @ replicate k CHR '' ''"]
      by (simp add: text_rest_def)
  qed
  have paren: "replace_comma_paren ((json_prefix dtype cm be @ ''('' @ dims_text shape) @ '',)'' @ '' }'' @ replicate k CHR '' '') =
      (json_prefix dtype cm be @ ''('' @ dims_text shape) @ '']'' @ '' }'' @ replicate k CHR '' ''"
    using json_prefix_chars [OF assms] dims_text_not by (intro replace_comma_paren_at) auto
  have open_b: "replace_first ''('' ''['' (json_prefix dtype cm be @ ''('' @ dims_text shape @ '']'' @ '' }'' @ replicate k CHR '' '') =
      json_prefix dtype cm be @ ''['' @ dims_text shape @ '']'' @ '' }'' @ replicate k CHR '' ''"
    using json_prefix_chars [OF assms] by (intro replace_first_at) auto
  show ?thesis
    unfolding header_json_def header_text_parts flag q brace paren using open_b by simp
qed

subsection \<open>Parsing the header\<close>

lemma skip_ws_simps [simp]: "skip_ws [] = []" "json_space c \<Longrightarrow> skip_ws (c # s) = skip_ws s"
  "\<not> json_space c \<Longrightarrow> skip_ws (c # s) = c # s"
  by (simp_all add: skip_ws_def)

lemma json_space_chars [simp]:
  "json_space CHR '' ''" "\<not> json_space quote" "\<not> json_space CHR ''{''" "\<not> json_space CHR ''}''" "\<not> json_space CHR ''[''"
  "\<not> json_space CHR '']''" "\<not> json_space CHR '',''" "\<not> json_space CHR '':''" "\<not> json_space CHR ''-''"
  "\<not> json_space CHR ''t''" "\<not> json_space CHR ''f''"
  by code_simp+

lemma json_space_digit [simp]: "is_digit c \<Longrightarrow> \<not> json_space c"
  by (auto simp: json_space_def is_digit_def)

definition json_plain :: "char \<Rightarrow> bool" where
  "json_plain c = (c \<noteq> quote \<and> 32 \<le> (of_char c :: nat) \<and> c \<noteq> CHR 0x5C)"

lemma parse_string_plain: "list_all json_plain xs \<Longrightarrow> parse_string (xs @ quote # r) = Inr (xs, r)"
  by (induction xs) (auto simp: json_plain_def)

lemma name_char_json: "name_char c \<Longrightarrow> json_plain c"
  by (auto simp: name_char_def name_start_def is_digit_def is_lower_def json_plain_def quote_def)

lemma parse_value_string:
  "list_all json_plain xs \<Longrightarrow> parse_value (quote # xs @ quote # r) = Inr (JStr xs, r)"
  by (simp add: parse_value.simps parse_string_plain)

lemma digits_of_head: "length (digits_of n) = 1 \<or> hd (digits_of n) \<noteq> CHR ''0''"
proof (induction n rule: digits_of.induct)
  case (1 n)
  have z: "(char_of (48 + m) :: char) \<noteq> CHR ''0''" if "0 < m" "m < 10" for m :: nat
  proof
    assume "(char_of (48 + m) :: char) = CHR ''0''"
    then have "(of_char (char_of (48 + m) :: char) :: nat) = of_char CHR ''0''" by simp
    then show False using that by simp
  qed
  show ?case
  proof (cases "n < 10")
    case False
    have "hd (digits_of (n div 10)) \<noteq> CHR ''0''"
    proof (cases "n div 10 < 10")
      case True
      then show ?thesis using z [of "n div 10"] False by (simp add: digits_of.simps [of "n div 10"] div_greater_zero_iff)
    next
      case F: False
      have "digits_of (n div 10) = digits_of (n div 10 div 10) @ [char_of (48 + n div 10 mod 10)]"
        using F by (subst digits_of.simps) simp
      then have "length (digits_of (n div 10)) \<noteq> 1" using digits_of_digits [of "n div 10 div 10"] by simp
      then show ?thesis using 1 False by blast
    qed
    moreover have "digits_of n = digits_of (n div 10) @ [char_of (48 + n mod 10)]" using False by (subst digits_of.simps) simp
    ultimately show ?thesis using digits_of_digits [of "n div 10"] by simp
  qed (subst (1) digits_of.simps, simp)
qed

definition json_stop :: "char \<Rightarrow> bool" where
  "json_stop c = (c = CHR '','' \<or> c = CHR '']'')"

lemma json_stop_facts: "json_stop c \<Longrightarrow> \<not> is_digit c \<and> c \<noteq> CHR ''.'' \<and> c \<noteq> CHR ''e'' \<and> c \<noteq> CHR ''E''"
proof -
  have "\<not> is_digit CHR '',''" "\<not> is_digit CHR '']''" by code_simp+
  then show "json_stop c \<Longrightarrow> \<not> is_digit c \<and> c \<noteq> CHR ''.'' \<and> c \<noteq> CHR ''e'' \<and> c \<noteq> CHR ''E''" by (auto simp: json_stop_def)
qed

lemma takeWhile_digits: "json_stop c \<Longrightarrow> takeWhile is_digit (digits_of n @ c # r) = digits_of n \<and> dropWhile is_digit (digits_of n @ c # r) = c # r"
  using digits_facts json_stop_facts [of c] by (simp add: takeWhile_append dropWhile_append)

lemma parse_number_int:
  assumes "json_stop c"
  shows "parse_number (int_text i @ c # r) = Inr (JInt i, c # r)"
proof -
  have ne: "digits_of n \<noteq> []" for n using digits_of_digits by simp
  have hd: "hd (digits_of n) \<noteq> CHR ''-''" for n using digits_facts not_digits ne by (metis list.set_sel(1))
  show ?thesis
  proof (cases "i < 0")
    case True
    then show ?thesis
      using takeWhile_digits [OF assms, of "nat (- i)" r] digits_of_head [of "nat (- i)"] json_stop_facts [OF assms] ne
      by (auto simp: parse_number_def int_text_def Let_def)
  next
    case False
    then show ?thesis
      using takeWhile_digits [OF assms, of "nat i" r] digits_of_head [of "nat i"] json_stop_facts [OF assms] ne hd
      by (auto simp: parse_number_def int_text_def Let_def)
  qed
qed

lemma int_text_hd: "\<exists>d ds. int_text i = d # ds \<and> (is_digit d \<or> d = CHR ''-'')"
proof -
  have "int_text i \<noteq> []" using digits_of_digits by (simp add: int_text_def)
  then obtain d ds where "int_text i = d # ds" by (cases "int_text i") auto
  then show ?thesis using int_text_chars [of d i] by auto
qed

lemma digit_start: "is_digit d \<or> d = CHR ''-'' \<Longrightarrow> \<not> json_space d \<and> d \<noteq> quote \<and> d \<noteq> CHR ''['' \<and> d \<noteq> CHR ''{'' \<and>
    d \<noteq> CHR ''n'' \<and> d \<noteq> CHR ''t'' \<and> d \<noteq> CHR ''f'' \<and> d \<noteq> CHR '']''"
proof -
  have "\<not> is_digit quote" "\<not> is_digit CHR ''[''" "\<not> is_digit CHR ''{''" "\<not> is_digit CHR ''n''" "\<not> is_digit CHR ''t''" "\<not> is_digit CHR ''f''"
    "\<not> is_digit CHR '']''" "quote \<noteq> CHR ''-''" by code_simp+
  then show "is_digit d \<or> d = CHR ''-'' \<Longrightarrow> \<not> json_space d \<and> d \<noteq> quote \<and> d \<noteq> CHR ''['' \<and> d \<noteq> CHR ''{'' \<and>
    d \<noteq> CHR ''n'' \<and> d \<noteq> CHR ''t'' \<and> d \<noteq> CHR ''f'' \<and> d \<noteq> CHR '']''" by auto
qed

lemma parse_value_int:
  assumes "json_stop c"
  shows "parse_value (int_text i @ c # r) = Inr (JInt i, c # r)"
proof -
  obtain d ds where d: "int_text i = d # ds" "is_digit d \<or> d = CHR ''-''" using int_text_hd by blast
  note n = digit_start [OF d(2)]
  have "strip_prefix ''null'' (d # ds @ c # r) = None" "strip_prefix ''true'' (d # ds @ c # r) = None"
    "strip_prefix ''false'' (d # ds @ c # r) = None" using n by (auto intro: strip_prefix_head)
  moreover have "skip_ws (d # ds @ c # r) = d # ds @ c # r" using n by simp
  ultimately show ?thesis
    using n parse_number_int [OF assms, of i r] d(1) by (simp add: parse_value.simps [of "d # ds @ c # r"])
qed

lemma parse_elements_ints:
  "shape \<noteq> [] \<Longrightarrow> parse_elements (dims_text shape @ CHR '']'' # r) = Inr (map JInt shape, r)"
proof (induction shape rule: induct_list012)
  case (2 i)
  have "json_stop CHR '']''" by code_simp
  then show ?case by (subst parse_elements.simps) (simp add: dims_text_def parse_value_int)
next
  case (3 i j js)
  have "json_stop CHR '',''" by code_simp
  then have v: "parse_value (int_text i @ CHR '','' # dims_text (j # js) @ CHR '']'' # r) =
      Inr (JInt i, CHR '','' # dims_text (j # js) @ CHR '']'' # r)" by (rule parse_value_int)
  have s: "dims_text (i # j # js) @ CHR '']'' # r = int_text i @ CHR '','' # dims_text (j # js) @ CHR '']'' # r"
    by (simp add: dims_text_def)
  show ?case unfolding s using 3 by (subst parse_elements.simps) (simp add: v)
qed simp

lemma parse_value_ints: "parse_value (''['' @ dims_text shape @ CHR '']'' # r) = Inr (JArr (map JInt shape), r)"
proof (cases "shape = []")
  case True
  have "CHR ''['' \<noteq> quote" by code_simp
  then show ?thesis using True by (simp add: parse_value.simps dims_text_def)
next
  case False
  then obtain i js where sh: "shape = i # js" by (cases shape) auto
  obtain d ds where d: "int_text i = d # ds" "is_digit d \<or> d = CHR ''-''" using int_text_hd by blast
  have "\<exists>es. dims_text shape = d # es" using d(1) sh by (cases js) (auto simp: dims_text_def)
  then obtain es where es: "dims_text shape = d # es" by blast
  have "CHR ''['' \<noteq> quote" by code_simp
  then show ?thesis
    using digit_start [OF d(2)] parse_elements_ints [OF False, of r] es by (simp add: parse_value.simps)
qed

lemma parse_value_ws: "json_space c \<Longrightarrow> parse_value (c # s) = parse_value s"
proof -
  assume c: "json_space c"
  have "length cs < length (c # s) \<and> length cs < length s" if "skip_ws s = d # cs" for d cs
    using that length_dropWhile_le [of json_space s] by (simp add: skip_ws_def)
  then show ?thesis
    using c by (cases "skip_ws s") (simp_all add: parse_value.simps [of "c # s"] parse_value.simps [of s] cong: list.case_cong)
qed

lemma parse_members_comma:
  assumes "parse_value V = Inr (v, CHR '','' # R)" and "length R < length V" and "list_all json_plain k"
    and ws: "list_all json_space ws"
  shows "parse_members (ws @ quote # k @ quote # CHR '':'' # V) ob = parse_members R (obj_put k v ob)"
proof -
  have "skip_ws (ws @ x) = skip_ws x" for x using ws by (induction ws) auto
  then show ?thesis
    using assms(1-3) by (subst parse_members.simps) (simp add: parse_string_plain)
qed

lemma parse_members_end:
  assumes "parse_value V = Inr (v, '' }'' @ R)" and "list_all json_plain k" and ws: "list_all json_space ws"
  shows "parse_members (ws @ quote # k @ quote # CHR '':'' # V) ob = Inr (obj_put k v ob, R)"
proof -
  have "skip_ws (ws @ x) = skip_ws x" for x using ws by (induction ws) auto
  then show ?thesis
    using assms(1-2) by (subst parse_members.simps) (simp add: parse_string_plain)
qed

lemma parse_value_flag:
  "parse_value ((if cm then ''true'' else ''false'') @ r) = Inr (JBool cm, r)"
proof -
  have "CHR ''t'' \<noteq> quote" "CHR ''f'' \<noteq> quote" by code_simp+
  then show ?thesis by (subst parse_value.simps) simp
qed

lemma JSON_header:
  assumes "plain_dtype dtype"
  shows "JSON_parse (json_prefix dtype cm be @ ''['' @ dims_text shape @ ''] }'' @ replicate k CHR '' '') =
    Inr (JObj [(''descr'', JStr ((if be then CHR ''>'' else CHR ''<'') # dtype)), (''fortran_order'', JBool cm),
               (''shape'', JArr (map JInt shape))])"
proof -
  let ?e = "if be then CHR ''>'' else CHR ''<''"
  define S3 where "S3 = CHR '' '' # ''['' @ dims_text shape @ ''] }'' @ replicate k CHR '' ''"
  define S2 where "S2 = CHR '' '' # (if cm then ''true'' else ''false'') @ CHR '','' # CHR '' '' # quote # ''shape'' @ quote # CHR '':'' # S3"
  define S1 where "S1 = CHR '' '' # quote # (?e # dtype) @ quote # CHR '','' # CHR '' '' # quote # ''fortran_order'' @ quote # CHR '':'' # S2"
  have e: "json_plain ?e" by (cases be) (simp_all only: if_True if_False, code_simp+)
  have d: "list_all json_plain (?e # dtype)" using e assms name_char_json by (auto simp: plain_dtype_def list_all_iff)
  have v3: "parse_value S3 = Inr (JArr (map JInt shape), '' }'' @ replicate k CHR '' '')"
    using parse_value_ints [of shape "'' }'' @ replicate k CHR '' ''"] by (simp add: S3_def parse_value_ws)
  have v2: "parse_value S2 = Inr (JBool cm, CHR '','' # CHR '' '' # quote # ''shape'' @ quote # CHR '':'' # S3)"
    unfolding S2_def parse_value_ws [OF json_space_chars(1)] by (rule parse_value_flag)
  have v1: "parse_value S1 = Inr (JStr (?e # dtype), CHR '','' # CHR '' '' # quote # ''fortran_order'' @ quote # CHR '':'' # S2)"
    unfolding S1_def parse_value_ws [OF json_space_chars(1)] by (rule parse_value_string [OF d])
  have k: "list_all json_plain ''shape''" "list_all json_plain ''fortran_order''" "list_all json_plain ''descr''" by code_simp+
  have ws: "list_all json_space '' ''" by simp
  have m3: "parse_members ('' '' @ quote # ''shape'' @ quote # CHR '':'' # S3) ob =
      Inr (obj_put ''shape'' (JArr (map JInt shape)) ob, replicate k CHR '' '')" for ob
    by (rule parse_members_end [OF v3 k(1) ws])
  have m2: "parse_members ('' '' @ quote # ''fortran_order'' @ quote # CHR '':'' # S2) ob =
      parse_members ('' '' @ quote # ''shape'' @ quote # CHR '':'' # S3) (obj_put ''fortran_order'' (JBool cm) ob)" for ob
    using v2 by (intro parse_members_comma [OF _ _ k(2) ws]) (simp_all add: S2_def)
  have m1: "parse_members (quote # ''descr'' @ quote # CHR '':'' # S1) [] =
      parse_members ('' '' @ quote # ''fortran_order'' @ quote # CHR '':'' # S2) (obj_put ''descr'' (JStr (?e # dtype)) [])"
    using parse_members_comma [OF _ _ k(3), of S1 "JStr (?e # dtype)" "'' '' @ quote # ''fortran_order'' @ quote # CHR '':'' # S2" "[]" "[]"] v1
    by (simp add: S1_def)
  define ob where "ob = obj_put ''shape'' (JArr (map JInt shape)) (obj_put ''fortran_order'' (JBool cm) (obj_put ''descr'' (JStr (?e # dtype)) []))"
  have m: "parse_members (quote # ''descr'' @ quote # CHR '':'' # S1) [] = Inr (ob, replicate k CHR '' '')"
    unfolding m1 m2 m3 ob_def ..
  have "index_of_key ''shape'' = None" "index_of_key ''fortran_order'' = None" "index_of_key ''descr'' = None" by code_simp+
  then have ob: "ob = [(''descr'', JStr (?e # dtype)), (''fortran_order'', JBool cm), (''shape'', JArr (map JInt shape))]"
    by (simp add: ob_def obj_put_def keys_def)
  have t: "json_prefix dtype cm be @ ''['' @ dims_text shape @ ''] }'' @ replicate k CHR '' '' =
      CHR ''{'' # quote # ''descr'' @ quote # CHR '':'' # S1"
    by (cases be; cases cm) (simp_all add: json_prefix_def S1_def S2_def S3_def)
  have q: "CHR ''{'' \<noteq> quote" "CHR ''}'' \<noteq> quote" by code_simp+
  have pv: "parse_value (CHR ''{'' # quote # ''descr'' @ quote # CHR '':'' # S1) = Inr (JObj ob, replicate k CHR '' '')"
    using q m by (subst parse_value.simps) simp
  have "skip_ws (replicate k CHR '' '') = []" by (induction k) auto
  then show ?thesis unfolding t JSON_parse_def pv ob by simp
qed

subsection \<open>A text without its closing brace\<close>

lemma set_skip_ws: "set (skip_ws s) \<subseteq> set s"
  unfolding skip_ws_def by (rule set_dropWhileD [THEN subsetI])

lemma strip_prefix_set: "strip_prefix t s = Some r \<Longrightarrow> set r \<subseteq> set s"
  by (induction t s rule: strip_prefix.induct) (auto split: if_splits)

lemma parse_string_set: "parse_string s = Inr (x, r) \<Longrightarrow> set r \<subseteq> set s"
proof (induction "length s" arbitrary: s x r rule: less_induct)
  case less
  obtain c cs where s: "s = c # cs" using less.prems by (cases s) auto
  have IH: "set r \<subseteq> set t" if "bindE (parse_string t) (\<lambda>(s, r). Inr (f s, r)) = Inr (x, r)" "length t < length s" for t f
    using less.hyps [OF that(2)] that(1) by (auto simp: bindE_eq_Inr)
  consider "c = quote" | "c \<noteq> quote" "c \<noteq> CHR 0x5C" | "c \<noteq> quote" "c = CHR 0x5C" by blast
  then show ?case
  proof cases
    case 1
    then show ?thesis using less.prems s by auto
  next
    case 2
    then have "bindE (parse_string cs) (\<lambda>(s, r). Inr (c # s, r)) = Inr (x, r)" using less.prems s by (auto split: if_splits)
    from IH [OF this] show ?thesis using s by auto
  next
    case 3
    then obtain e ds where cs: "cs = e # ds" using less.prems s by (auto split: list.splits if_splits)
    let ?m = "map_of [(quote, quote), (CHR 0x5C, CHR 0x5C), (CHR ''/'', CHR ''/''), (CHR ''b'', CHR 0x08),
      (CHR ''f'', CHR 0x0C), (CHR ''n'', CHR 0x0A), (CHR ''r'', CHR 0x0D), (CHR ''t'', CHR 0x09)] e"
    show ?thesis
    proof (cases ?m)
      case (Some d)
      then have "bindE (parse_string ds) (\<lambda>(s, r). Inr (d # s, r)) = Inr (x, r)"
        using less.prems 3 unfolding s cs by (simp del: map_of.simps split: if_splits)
      from IH [OF this] show ?thesis using s cs by auto
    next
      case None
      then obtain h1 h2 h3 h4 fs y where "ds = h1 # h2 # h3 # h4 # fs" "bindE (parse_string fs) (\<lambda>(s, r). Inr (y # s, r)) = Inr (x, r)"
        using less.prems 3 unfolding s cs by (auto simp del: map_of.simps split: if_splits list.splits option.splits)
      then show ?thesis using IH [of fs "\<lambda>s. y # s"] s cs by auto
    qed
  qed
qed

lemma parse_number_set: "parse_number s = Inr (v, r) \<Longrightarrow> set r \<subseteq> set s"
  by (auto simp: parse_number_def Let_def split: if_splits dest: set_dropWhileD; cases s; auto dest: set_dropWhileD)

lemma parse_sets:
  "parse_value s = Inr (v, r) \<Longrightarrow> set r \<subseteq> set s"
  "parse_elements s' = Inr (vs, r) \<Longrightarrow> set r \<subseteq> set s'"
  "parse_members t ob = Inr (ob', r) \<Longrightarrow> set r \<subseteq> set t \<and> CHR ''}'' \<in> set t"
proof (induction s and s' and t ob arbitrary: v r and vs r and ob' r rule: parse_value_parse_elements_parse_members.induct)
  case (1 s)
  obtain c cs where sk: "skip_ws s = c # cs" using "1.prems" by (cases "skip_ws s") (auto simp: parse_value.simps)
  have sub: "set cs \<subseteq> set s" using set_skip_ws [of s] sk by simp
  note P = "1.prems" [unfolded parse_value.simps [of s] sk list.case]
  consider "c = quote" | "c \<noteq> quote" "c = CHR ''[''" | "c \<noteq> quote" "c = CHR ''{''"
    | "c \<noteq> quote" "c \<noteq> CHR ''[''" "c \<noteq> CHR ''{''" by blast
  then show ?case
  proof cases
    case 1
    then show ?thesis using P sub parse_string_set [of cs] by (auto simp: bindE_eq_Inr)
  next
    case 2
    then obtain d ds where ds: "skip_ws cs = d # ds" using P by (cases "skip_ws cs") auto
    then have sub': "set ds \<subseteq> set cs" using set_skip_ws [of cs] by auto
    show ?thesis
    proof (cases "d = CHR '']''")
      case True
      then show ?thesis using P 2 ds sub sub' by auto
    next
      case False
      then obtain vs where "parse_elements cs = Inr (vs, r)" "length cs < length s"
        using P 2 ds by (auto simp: bindE_eq_Inr split: if_splits)
      then show ?thesis using "1.IH"(1) [OF sk 2(1,2) ds False] sub by blast
    qed
  next
    case 3
    have n: "CHR ''{'' \<noteq> CHR ''[''" by simp
    obtain d ds where ds: "skip_ws cs = d # ds" using P 3 by (cases "skip_ws cs") auto
    then have sub': "set ds \<subseteq> set cs" using set_skip_ws [of cs] by auto
    show ?thesis
    proof (cases "d = CHR ''}''")
      case True
      then show ?thesis using P 3 ds sub sub' by auto
    next
      case False
      then obtain ob where "parse_members cs [] = Inr (ob, r)" "length cs < length s"
        using P 3 ds by (auto simp: bindE_eq_Inr split: if_splits)
      then show ?thesis using "1.IH"(2) [OF sk 3(1) _ 3(2) ds False] 3(2) sub n by blast
    qed
  next
    case 4
    have "set r \<subseteq> set (c # cs)"
      using P 4 strip_prefix_set [of "''null''" "c # cs"] strip_prefix_set [of "''true''" "c # cs"]
        strip_prefix_set [of "''false''" "c # cs"] parse_number_set [of "c # cs"]
      by (simp only: if_False) (auto split: option.splits)
    then show ?thesis using set_skip_ws [of s] sk by auto
  qed
next
  case (2 s)
  note P = "2.prems" [unfolded parse_elements.simps [of s]]
  then obtain v r1 where v: "parse_value s = Inr (v, r1)" by (auto simp: bindE_eq_Inr)
  then have s1: "set r1 \<subseteq> set s" by (rule "2.IH"(1))
  obtain c cs where sk: "skip_ws r1 = c # cs" using P v by (cases "skip_ws r1") auto
  have sub: "set cs \<subseteq> set s" using set_skip_ws [of r1] sk s1 by auto
  show ?case
  proof (cases "c = CHR '']''")
    case True
    then show ?thesis using P v sk sub by auto
  next
    case False
    then obtain vs' where "parse_elements cs = Inr (vs', r)" "c = CHR '','' \<and> length cs < length s"
      using P v sk by (auto simp: bindE_eq_Inr split: if_splits)
    then show ?thesis using "2.IH"(2) [OF v refl sk False] sub by blast
  qed
next
  case (3 s ob)
  note P = "3.prems" [unfolded parse_members.simps [of s]]
  obtain q qs where q: "skip_ws s = q # qs" using P by (cases "skip_ws s") auto
  then have qq: "q = quote" using P by (auto split: if_splits)
  then obtain k r1 where k: "parse_string qs = Inr (k, r1)" using P q by (auto simp: bindE_eq_Inr)
  obtain c cs where c: "skip_ws r1 = c # cs" using P q qq k by (cases "skip_ws r1") auto
  then have cc: "\<not> (c \<noteq> CHR '':'' \<or> \<not> length cs < length s)" using P q qq k by (auto split: if_splits)
  then obtain v r2 where v: "parse_value cs = Inr (v, r2)" using P q qq k c by (auto simp: bindE_eq_Inr)
  obtain d ds where d: "skip_ws r2 = d # ds" using P q qq k c cc v by (cases "skip_ws r2") auto
  have "set r1 \<subseteq> set s" using parse_string_set [OF k] set_skip_ws [of s] q by auto
  then have "set cs \<subseteq> set s" using set_skip_ws [of r1] c by auto
  moreover have "set r2 \<subseteq> set cs" using "3.IH"(1) [OF q _ k refl c cc v] qq by blast
  ultimately have sub: "set (d # ds) \<subseteq> set s" using set_skip_ws [of r2] d by auto
  show ?case
  proof (cases "d = CHR ''}''")
    case True
    then show ?thesis using P q qq k c cc v d sub by auto
  next
    case False
    then have "d = CHR '','' \<and> length ds < length s" "parse_members ds (obj_put k v ob) = Inr (ob', r)"
      using P q qq k c cc v d by (auto split: if_splits)
    moreover have "\<not> q \<noteq> quote" using qq by simp
    ultimately have "set r \<subseteq> set ds \<and> CHR ''}'' \<in> set ds" using "3.IH"(2) [OF q _ k refl c cc v refl d False] by simp
    then show ?thesis using sub by auto
  qed
qed

lemma JSON_parse_object_brace:
  assumes "JSON_parse s = Inr v" and "skip_ws s = CHR ''{'' # cs"
  shows "CHR ''}'' \<in> set s"
proof -
  have q: "CHR ''{'' \<noteq> quote" by code_simp
  have sub: "set cs \<subseteq> set s" using set_skip_ws [of s] assms(2) by simp
  obtain r where p: "parse_value s = Inr (v, r)" using assms(1) by (auto simp: JSON_parse_def bindE_eq_Inr split: if_splits)
  note P = p [unfolded parse_value.simps [of s] assms(2) list.case]
  obtain d ds where d: "skip_ws cs = d # ds" using P q by (cases "skip_ws cs") auto
  show ?thesis
  proof (cases "d = CHR ''}''")
    case True
    then show ?thesis using set_skip_ws [of cs] d sub by auto
  next
    case False
    then obtain ob where "parse_members cs [] = Inr (ob, r)" using P q d by (auto simp: bindE_eq_Inr split: if_splits)
    then show ?thesis using parse_sets(3) sub by blast
  qed
qed

lemma replacements_brace:
  assumes "CHR ''}'' \<notin> set s"
  shows "CHR ''}'' \<notin> set (header_json s)"
proof -
  have rf: "set (replace_first t u xs) \<subseteq> set u \<union> set xs" for t u xs
    by (induction t u xs rule: replace_first.induct) (auto split: option.splits dest: strip_prefix_set [THEN subsetD])
  have rc: "replace_comma_brace xs = xs" if "CHR ''}'' \<notin> set xs" for xs
    using that
  proof (induction xs)
    case (Cons c xs)
    have "CHR ''}'' \<notin> set (dropWhile is_space xs)" using Cons.prems by (auto dest: set_dropWhileD)
    then show ?case using Cons by (cases "dropWhile is_space xs") (auto simp del: dropWhile_eq_Nil_conv)
  qed simp
  have rp: "set (replace_comma_paren xs) \<subseteq> insert CHR '']'' (set xs)" for xs
    by (induction xs rule: replace_comma_paren.induct) (auto dest: list.set_sel(2))
  have "CHR ''}'' \<notin> set (replace_first ''True'' ''true'' s)" using rf [of "''True''" "''true''" s] assms by auto
  then have "CHR ''}'' \<notin> set (replace_first ''False'' ''false'' (replace_first ''True'' ''true'' s))"
    using rf [of "''False''" "''false''" "replace_first ''True'' ''true'' s"] by auto
  then have 1: "CHR ''}'' \<notin> set (replace_all CHR 0x27 quote (replace_first ''False'' ''false'' (replace_first ''True'' ''true'' s)))"
    by (auto simp: replace_all_def quote_def)
  let ?s = "replace_all CHR 0x27 quote (replace_first ''False'' ''false'' (replace_first ''True'' ''true'' s))"
  have "CHR ''}'' \<notin> set (replace_comma_paren ?s)" using rp [of ?s] 1 by auto
  then show ?thesis
    unfolding header_json_def rc [OF 1] using rf [of "''(''" "''[''" "replace_comma_paren ?s"] by auto
qed

subsection \<open>Reading a written header\<close>

lemma readDataViewAsString_text: "CHR 0x00 \<notin> set s \<Longrightarrow> readDataViewAsString (text_bytes s) = s"
proof -
  assume "CHR 0x00 \<notin> set s"
  then have "takeWhile (\<lambda>b. b \<noteq> 0) (map byte_of_char s) = map byte_of_char s"
    by (auto simp: byte_of_char_0 takeWhile_eq_all_conv)
  moreover have "map char_of_byte (map byte_of_char s) = s" by (simp add: comp_def)
  ultimately show ?thesis unfolding readDataViewAsString_def text_bytes_def by (simp only:)
qed

lemma header_text_chars:
  assumes "plain_dtype dtype"
  shows "CHR 0x00 \<notin> set (header_text shape dtype cm be)" "CHR ''}'' \<notin> set (butlast (header_text shape dtype cm be))"
    "\<exists>cs. header_text shape dtype cm be = CHR ''{'' # CHR 0x27 # cs"
proof -
  have z: "\<not> name_char CHR 0x00" "\<not> is_digit CHR 0x00" by code_simp+
  have d: "CHR 0x00 \<notin> set dtype" using assms z unfolding plain_dtype_def list_all_iff by blast
  have dm: "CHR 0x00 \<notin> set (dims_text shape)" using dims_text_chars [of "CHR 0x00" shape] z by auto
  have h: "header_text shape dtype cm be = text_prefix dtype be @ (if cm then ''True'' else ''False'') @ text_middle @ text_rest shape 0"
    using header_text_parts [of shape dtype cm be 0] by simp
  show "CHR 0x00 \<notin> set (header_text shape dtype cm be)"
    unfolding h using d dm by (simp add: text_prefix_def text_middle_def text_rest_def apos_def)
  have rp: "replaced CHR ''}''" by code_simp
  have "butlast (header_text shape dtype cm be) =
      text_prefix dtype be @ (if cm then ''True'' else ''False'') @ text_middle @ ''('' @ dims_text shape @ '',), ''"
    unfolding h by (simp add: text_rest_def butlast_append)
  then show "CHR ''}'' \<notin> set (butlast (header_text shape dtype cm be))"
    using text_chars [OF assms rp] dims_text_not [of "CHR ''}''" shape] by simp
  show "\<exists>cs. header_text shape dtype cm be = CHR ''{'' # CHR 0x27 # cs" by (simp add: header_text_def apos_def)
qed

lemma header_json_start: "\<exists>cs. header_json (CHR ''{'' # CHR 0x27 # s) = CHR ''{'' # cs"
proof -
  have 1: "replace_first (t # ts) u (CHR ''{'' # xs) = CHR ''{'' # replace_first (t # ts) u xs" if "t \<noteq> CHR ''{''" for t ts u xs
    using that by simp
  have 2: "\<exists>ys. replace_comma_brace (CHR ''{'' # xs) = CHR ''{'' # ys" for xs by (auto split: list.split)
  have 3: "\<exists>ys. replace_comma_paren (CHR ''{'' # xs) = CHR ''{'' # ys" for xs by simp
  have 4: "replace_all CHR 0x27 quote (CHR ''{'' # xs) = CHR ''{'' # replace_all CHR 0x27 quote xs" for xs by (simp add: replace_all_def)
  obtain a where a: "replace_first ''False'' ''false'' (replace_first ''True'' ''true'' (CHR ''{'' # CHR 0x27 # s)) = CHR ''{'' # a"
    by (simp only: 1 char.inject HOL.simp_thms not_False_eq_True)
  obtain b where b: "replace_comma_brace (CHR ''{'' # replace_all CHR 0x27 quote a) = CHR ''{'' # b" using 2 by blast
  obtain c where c: "replace_comma_paren (CHR ''{'' # b) = CHR ''{'' # c" using 3 by blast
  have "replace_first ''('' ''['' (CHR ''{'' # c) = CHR ''{'' # replace_first ''('' ''['' c" by (rule 1) simp
  then show ?thesis unfolding header_json_def a 4 b c by blast
qed

lemma take_padded_header:
  "10 \<le> header_padding shape dtype cm be \<Longrightarrow>
     take (length (padded_header shape dtype cm be) - 10) (padded_header shape dtype cm be) =
       header_text shape dtype cm be @ replicate (header_padding shape dtype cm be - 10) CHR '' ''"
  "\<not> 10 \<le> header_padding shape dtype cm be \<Longrightarrow>
     \<exists>n. take (length (padded_header shape dtype cm be) - 10) (padded_header shape dtype cm be) =
       take n (butlast (header_text shape dtype cm be)) \<and> n = length (header_text shape dtype cm be) + header_padding shape dtype cm be - 10"
  by (auto simp: padded_header_def butlast_conv_take min_def)

lemma length_header_text: "50 \<le> length (header_text shape dtype cm be)"
  by (simp add: header_text_def apos_def shape_text_def)

definition read_back :: "int list \<Rightarrow> string \<Rightarrow> bool \<Rightarrow> bool \<Rightarrow> npy_header" where
  "read_back shape dtype cm be =
     \<lparr>hd_bigEndian = be, hd_columnMajor = Some (JBool cm), hd_dtype = dtype, hd_shape = Some (JArr (map JInt shape)),
      hd_version = 1, hd_pos = 10 + length (padded_header shape dtype cm be)\<rparr>"

text \<open>The typed array that the elements become.\<close>

definition stored_data :: "string \<Rightarrow> num list \<Rightarrow> npy_data" where
  "stored_data dtype data =
     (if dtype = ''f8'' then Float64Array data
      else if dtype = ''f4'' then Float32Array (map (\<lambda>x. of_nat (num_to_float32 x)) data)
      else if dtype = ''i4'' then Int32Array (map (\<lambda>x. of_nat (num_to_int 32 x)) data)
      else if dtype = ''i2'' then Int16Array (map (\<lambda>x. of_nat (num_to_int 16 x)) data)
      else Int8Array (map (\<lambda>x. of_nat (num_to_int 8 x)) data))"

lemma of_nat_le_bytes: "8 * n = LENGTH('a::len) \<Longrightarrow> of_nat (le_value (le_bytes n v)) = (of_nat v :: 'a word)"
proof -
  assume "8 * n = LENGTH('a)"
  then have "(256 :: nat) ^ n = 2 ^ LENGTH('a)" using power_mult [of "2 :: nat" 8 n] by simp
  then show "of_nat (le_value (le_bytes n v)) = (of_nat v :: 'a word)"
    by (simp add: le_value_le_bytes word_of_nat_eq_iff take_bit_eq_mod)
qed

lemma typed_array_stored:
  assumes "dtype \<in> set DATA_TYPES" and "mapE (element_bytes dtype False) data = Inr els" and "data \<noteq> []"
  shows "typed_array dtype (length data) (concat els) = Inr (Some (stored_data dtype data)) \<and>
    (\<exists>n. BYTES_PER_ELEMENT dtype = Some n \<and> length (concat els) = length data * n)"
proof -
  have e: "els = map (\<lambda>x. le_bytes n (g x)) data" "chunks n (length data) (concat els) = map (\<lambda>x. le_bytes n (g x)) data"
      "length (concat els) = length data * n"
    if "\<And>x. element_bytes dtype False x = Inr (le_bytes n (g x))" for n g
  proof -
    show 1: "els = map (\<lambda>x. le_bytes n (g x)) data" using assms(2) mapE_total [of data "element_bytes dtype False" "\<lambda>x. le_bytes n (g x)"] that by simp
    show "chunks n (length data) (concat els) = map (\<lambda>x. le_bytes n (g x)) data"
      using chunks_concat [of "map (\<lambda>x. le_bytes n (g x)) data" n] unfolding 1 by simp
    show "length (concat els) = length data * n" unfolding 1 by (induction data) auto
  qed
  have "dtype \<noteq> ''i8''" using assms(2,3) by (cases data) (auto simp: element_bytes_def)
  then consider "dtype = ''f8''" | "dtype = ''f4''" | "dtype = ''i4''" | "dtype = ''i2''" | "dtype = ''i1''"
    using assms(1) by (auto simp: DATA_TYPES_def)
  then show ?thesis
  proof cases
    case 1
    have el: "element_bytes dtype False x = Inr (le_bytes 8 (unat x))" for x by (simp add: 1 element_bytes_def)
    show ?thesis using e(2) [OF el] e(3) [OF el] 1
      by (simp add: typed_array_def stored_data_def BYTES_PER_ELEMENT_def comp_def of_nat_le_bytes del: length_concat le_bytes.simps One_nat_def)
  next
    case 2
    have el: "element_bytes dtype False x = Inr (le_bytes 4 (num_to_float32 x))" for x by (simp add: 2 element_bytes_def)
    show ?thesis using e(2) [OF el] e(3) [OF el] 2
      by (simp add: typed_array_def stored_data_def BYTES_PER_ELEMENT_def comp_def of_nat_le_bytes del: length_concat le_bytes.simps One_nat_def)
  next
    case 3
    have el: "element_bytes dtype False x = Inr (le_bytes 4 (num_to_int 32 x))" for x by (simp add: 3 element_bytes_def)
    show ?thesis using e(2) [OF el] e(3) [OF el] 3
      by (simp add: typed_array_def stored_data_def BYTES_PER_ELEMENT_def comp_def of_nat_le_bytes del: length_concat le_bytes.simps One_nat_def)
  next
    case 4
    have el: "element_bytes dtype False x = Inr (le_bytes 2 (num_to_int 16 x))" for x by (simp add: 4 element_bytes_def)
    show ?thesis using e(2) [OF el] e(3) [OF el] 4
      by (simp add: typed_array_def stored_data_def BYTES_PER_ELEMENT_def comp_def of_nat_le_bytes del: length_concat le_bytes.simps One_nat_def)
  next
    case 5
    have el: "element_bytes dtype False x = Inr (le_bytes 1 (num_to_int 8 x))" for x by (simp add: 5 element_bytes_def)
    show ?thesis using e(2) [OF el] e(3) [OF el] 5
      by (simp add: typed_array_def stored_data_def BYTES_PER_ELEMENT_def comp_def of_nat_le_bytes del: length_concat le_bytes.simps One_nat_def)
  qed
qed

context byte_reader
begin

lemma read_header_written:
  assumes p: "plain_dtype dtype" and L: "length (padded_header shape dtype cm be) < 65536"
    and b: "header_buffer shape dtype 1 cm be = Inr buf" and c: "contents f w = Some (buf @ rest)"
  shows "if 10 \<le> header_padding shape dtype cm be
    then readHeader m (Some f) w = (Inr (read_back shape dtype cm be), w)
    else fails (readHeader m (Some f) w)"
proof -
  define h where "h = padded_header shape dtype cm be"
  define x where "x = text_bytes magicString @ [1, 0] @ zeros 2"
  define t where "t = take (length h - 10) h"
  have hl: "10 \<le> length h" using length_header_text [of shape dtype cm be] by (simp add: h_def padded_header_def)
  have buf: "buf = text_bytes (header_start 1) @ le_bytes 2 (length h) @ text_bytes h"
    using b header_buffer_layout [of shape dtype 1 cm be] by (simp add: h_def)
  have st: "text_bytes (header_start 1) = text_bytes magicString @ [1, 0]"
    by (simp add: header_start_def text_bytes_def byte_of_char_def)
  have lm: "length (text_bytes magicString) = 6" by (simp add: text_bytes_def magicString_def)
  have z: "CHR 0x00 \<notin> set magicString" by (simp add: magicString_def)
  have r1: "m_read m f (zeros 10) 0 8 0 w = (Inr (8, x), w)"
    using read_range [OF c, of 0 8 2] lm by (simp add: buf st x_def)
  have r2: "m_read m f (zeros 2) 0 2 8 w = (Inr (2, le_bytes 2 (length h)), w)"
    using read_range [OF c, of 8 2 0] lm by (simp add: buf st zeros_def)
  have r3: "m_read m f (zeros (length h - 10)) 0 (length h - 10) 10 w = (Inr (length h - 10, text_bytes t), w)"
  proof -
    have d: "drop 10 buf = text_bytes h" and n: "length buf = 10 + length h" using lm unfolding buf st by (simp_all add: text_bytes_def)
    have l: "length (text_bytes h) = length h" by (simp add: text_bytes_def)
    have t: "take (length h - 10) (text_bytes h) = text_bytes t" by (simp add: t_def text_bytes_def take_map)
    show ?thesis
      using read_range [OF c, of 10 "length h - 10" 0] lm hl l
      by (simp add: d t n zeros_def)
  qed
  have lv: "le_value (le_bytes 2 (length h)) = length h" using L by (simp add: le_value_le_bytes h_def)
  have mg: "readDataViewAsString (take 6 x) = magicString"
    using lm readDataViewAsString_text [OF z] by (simp add: x_def)
  have v: "unat (x ! 6) = 1" "unat (x ! 7) = 0"
    using lm by (simp_all add: x_def nth_append)
  have "set t \<subseteq> set h" unfolding t_def by (rule set_take_subset)
  moreover have "CHR 0x00 \<notin> set h" using header_text_chars(1) [OF p] by (simp add: h_def padded_header_def)
  ultimately have tz: "readDataViewAsString (text_bytes t) = t" by (intro readDataViewAsString_text) blast
  have run: "readHeader m (Some f) w =
      (bindE (JSON_parse (header_json t)) (\<lambda>header. header_fields header 1 (length h + 10)), w)"
    using hl by (cases "JSON_parse (header_json t)") (simp_all add: readHeader_def r1 r2 r3 mg v lv tz Let_def version_accepted_def add.commute)
  show ?thesis
  proof (cases "10 \<le> header_padding shape dtype cm be")
    case True
    then have "JSON_parse (header_json t) =
        Inr (JObj [(''descr'', JStr ((if be then CHR ''>'' else CHR ''<'') # dtype)), (''fortran_order'', JBool cm),
               (''shape'', JArr (map JInt shape))])"
      unfolding t_def h_def take_padded_header(1) [OF True] header_json_written [OF p] by (intro JSON_header p)
    then show ?thesis using True by (simp add: run header_fields_def read_back_def h_def)
  next
    case False
    then obtain n where n: "t = take n (butlast (header_text shape dtype cm be))"
      "n = length (header_text shape dtype cm be) + header_padding shape dtype cm be - 10"
      using take_padded_header(2) by (auto simp: t_def h_def)
    have nb: "CHR ''}'' \<notin> set t" using header_text_chars(2) [OF p] set_take_subset unfolding n(1) by fastforce
    obtain cs where cs: "header_text shape dtype cm be = CHR ''{'' # CHR 0x27 # cs" using header_text_chars(3) [OF p] by blast
    have "2 \<le> n" "cs \<noteq> []" using n(2) length_header_text [of shape dtype cm be] cs by auto
    then obtain ds where ds: "t = CHR ''{'' # CHR 0x27 # ds" unfolding n(1) cs by (cases n; cases "n - 1") auto
    obtain es where es: "header_json t = CHR ''{'' # es" using header_json_start ds by blast
    have "JSON_parse (header_json t) \<noteq> Inr v" for v
      using JSON_parse_object_brace [of "header_json t" v es] replacements_brace [OF nb] es by auto
    then obtain e where "JSON_parse (header_json t) = Inl e" by (cases "JSON_parse (header_json t)") auto
    then show ?thesis using False by (simp add: run)
  qed
qed

end
subsection \<open>Whole files\<close>

text \<open>What a file holds after its header and its elements are written.\<close>

definition npy_bytes :: "int list \<Rightarrow> string \<Rightarrow> bool \<Rightarrow> bool \<Rightarrow> num list \<Rightarrow> byte list res" where
  "npy_bytes shape dtype columnMajor bigEndian data =
     bindE (header_buffer shape dtype 1 columnMajor bigEndian) (\<lambda>header.
     bindE (mapE (element_bytes dtype bigEndian) data) (\<lambda>elements.
     Inr (header @ concat elements)))"

lemma js_ints_map [simp]: "js_ints (map JInt ns) = Some ns"
  by (simp add: js_ints_def list_all_iff comp_def)

context byte_reader
begin

lemma npy_read:
  assumes t: "dtype \<in> set DATA_TYPES" and L: "length (padded_header shape dtype cm False) < 65536"
    and p: "10 \<le> header_padding shape dtype cm False" and n: "numberOfElements shape = int (length data)" and d: "data \<noteq> []"
    and b: "npy_bytes shape dtype cm False data = Inr bs" and c: "contents f w = Some bs"
  shows "\<exists>self self' w'. new_NpyReader m (Some f) w = (Inr self, w) \<and> rd_dtype self = dtype \<and>
    rd_shape self = Some (JArr (map JInt shape)) \<and>
    NpyReader_read m f self close w = (Inr (Some (stored_data dtype data), self'), w') \<and> (\<not> close \<longrightarrow> w' = w)"
proof -
  obtain header els where h: "header_buffer shape dtype 1 cm False = Inr header"
    and els: "mapE (element_bytes dtype False) data = Inr els" and bs: "bs = header @ concat els"
    using b by (auto simp: npy_bytes_def bindE_eq_Inr)
  have rh: "readHeader m (Some f) w = (Inr (read_back shape dtype cm False), w)"
    using read_header_written [OF DATA_TYPES_plain [OF t] L h, of f w] c p by (simp add: bs)
  obtain k where k: "BYTES_PER_ELEMENT dtype = Some k" "length (concat els) = length data * k"
      "typed_array dtype (length data) (concat els) = Inr (Some (stored_data dtype data))"
    using typed_array_stored [OF t els d] by blast
  have hl: "length header = 10 + length (padded_header shape dtype cm False)"
    using h header_buffer_layout [of shape dtype 1 cm False] by (auto simp: text_bytes_def header_start_def magicString_def)
  let ?self = "\<lparr>rd_shape = Some (JArr (map JInt shape)), rd_dtype = dtype, rd_columnMajor = Some (JBool cm), rd_bigEndian = False,
      rd_version = 1, rd_pos = length header\<rparr>"
  have 1: "new_NpyReader m (Some f) w = (Inr ?self, w)"
    by (simp add: new_NpyReader_def rh read_back_def hl del: map_map)
  have r: "m_read m f (zeros (length data * k)) 0 (length data * k) (length header) w = (Inr (length data * k, concat els), w)"
    using read_exact [of f w bs "length header" "length data * k"] c k(2) by (simp add: bs del: length_concat)
  have nn: "0 \<le> int (length data) * int k" by simp
  obtain w' where cl: "(if close then m_close m f else ret ()) w = (Inr (), w')" "\<not> close \<longrightarrow> w' = w"
    using close_reader [OF c] by (cases close) auto
  have "NpyReader_read m f ?self close w = (Inr (Some (stored_data dtype data), ?self\<lparr>rd_pos := length bs\<rparr>), w')"
    using k(2) nn by (simp add: throw_if_def not_less NpyReader_read_def shape_elements_def n k(1,3) r cl(1) bs Let_def nat_mult_distrib bindS_def del: length_concat)
  then show ?thesis using 1 cl(2) by fastforce
qed

end

context byte_writer
begin

lemma npy_write:
  assumes t: "dtype \<in> set DATA_TYPES" and n: "numberOfElements shape = int (length data)"
    and b: "npy_bytes shape dtype cm be data = Inr bs" and s: "stored f w = Some []"
  shows "\<exists>self v self' w'. new_NpyWriter m (Some f) shape dtype cm be 1 w = (Inr self, v) \<and>
    NpyWriter_write m f self data False v = (Inr self', w') \<and> stored f w' = Some bs \<and> frame w' = frame w \<and>
    wr_pos self' = length bs"
proof -
  obtain header els where h: "header_buffer shape dtype 1 cm be = Inr header"
    and els: "mapE (element_bytes dtype be) data = Inr els" and bs: "bs = header @ concat els"
    using b by (auto simp: npy_bytes_def bindE_eq_Inr)
  obtain v where v: "m_write m f header 0 (length header) 0 w = (Inr (length header), v)" "stored f v = Some header" "frame v = frame w"
    using append_bytes [OF s, of header] by auto
  let ?self = "\<lparr>wr_shape = shape, wr_dtype = dtype, wr_columnMajor = cm, wr_bigEndian = be, wr_version = 1, wr_pos = length header\<rparr>"
  have 1: "new_NpyWriter m (Some f) shape dtype cm be 1 w = (Inr ?self, v)"
    using t by (simp add: new_NpyWriter_def writeHeader_def h v(1) version_accepted_def throw_if_def)
  obtain w' where w': "m_write m f (concat els) 0 (length (concat els)) (length header) v = (Inr (length (concat els)), w')"
      "stored f w' = Some bs" "frame w' = frame w"
    using v(3) append_bytes [OF v(2), of "concat els"] unfolding bs by metis
  have "NpyWriter_write m f ?self data False v = (Inr (?self\<lparr>wr_pos := length bs\<rparr>), w')"
    using w'(1) by (simp add: NpyWriter_write_def els n Let_def bs throw_if_def del: length_concat)
  then show ?thesis using 1 w'(2,3) by fastforce
qed

end
subsection \<open>Properties\<close>

text \<open>C29. The header that \<^verbatim>\<open>writeHeader\<close> makes never fails its own assertion: the magic string and the version,
  the length of the dictionary in 2 or 4 bytes, and the dictionary padded to a multiple of 16. The
  length that a reader finds is taken modulo the size of its field, so it is wrong from 65536 on.\<close>

theorem header_layout:
  "\<exists>lengthField dict.
     header_buffer shape dtype version cm be = Inr (text_bytes (header_start version) @ lengthField @ text_bytes dict) \<and>
     take (length (header_text shape dtype cm be)) dict = header_text shape dtype cm be \<and> length dict mod 16 = 0 \<and>
     length dict < length (header_text shape dtype cm be) + 16 \<and>
     le_value lengthField = length dict mod (if version = 1 then 65536 else 4294967296)"
proof (intro exI conjI)
  show "header_buffer shape dtype version cm be = Inr (text_bytes (header_start version) @
      le_bytes (if version = 1 then 2 else 4) (length (padded_header shape dtype cm be)) @ text_bytes (padded_header shape dtype cm be))"
    by (rule header_buffer_layout)
  show "length (padded_header shape dtype cm be) mod 16 = 0" by (rule length_padded_header)
qed (simp_all add: padded_header_def header_padding_def le_value_le_bytes)

text \<open>C30. \<^verbatim>\<open>readHeader\<close> reads the dictionary 10 bytes short. It gives back exactly the fields that were written
  when the padding is at least 10 spaces long, and raises an exception for every other header.\<close>

theorem header_read_back:
  assumes "dtype \<in> set DATA_TYPES" and "length (padded_header shape dtype cm be) < 65536"
    and "header_buffer shape dtype 1 cm be = Inr buf"
  shows "if 10 \<le> header_padding shape dtype cm be
    then readHeader tar_methods (Some (TarHandle (buf @ rest))) w = (Inr (read_back shape dtype cm be), w)
    else fails (readHeader tar_methods (Some (TarHandle (buf @ rest))) w)"
  using assms by (intro tar_bytes.read_header_written) (auto simp: DATA_TYPES_plain tar_contents_Some)

definition no_world :: world where
  "no_world = \<lparr>w_fs = \<lparr>fs_tree = DirNode [], fs_cwd = [], fs_fds = [], fs_next = 3\<rparr>, w_struct = TObj []\<rparr>"

theorem header_read_back_witness:
  "\<exists>buf. header_buffer [2] ''f8'' 1 False False = Inr buf \<and>
     fails (readHeader tar_methods (Some (TarHandle (buf @ zeros 16))) no_world)"
proof -
  obtain buf where b: "header_buffer [2] ''f8'' 1 False False = Inr buf" using header_buffer_layout by blast
  have t: "''f8'' \<in> set DATA_TYPES" by code_simp
  have l: "length (header_text [2] ''f8'' False False) = 57"
    by (simp add: header_text_def apos_def shape_text_def int_text_def digits_of.simps)
  have n: "\<not> 10 \<le> header_padding [2] ''f8'' False False" and L: "length (padded_header [2] ''f8'' False False) < 65536"
    by (simp_all add: header_padding_def padded_header_def l)
  have "fails (readHeader tar_methods (Some (TarHandle (buf @ zeros 16))) no_world)"
    by (rule header_read_back [OF t L b, of "zeros 16" no_world, unfolded if_not_P [OF n]])
  then show ?thesis using b by blast
qed



end
