(* ===== verification/Load_Correct.thy ===== *)
theory Load_Correct
  imports Npy_Correct
begin

text \<open>
  Loading a data set: a tree of files that stores a data set, in the sense of \<open>stores\<close>, is loaded as that
  data set, through any opener that is a \<open>tree_reader\<close>. The file system opener and the archive
  opener both are, each with its own methods.
\<close>
subsection \<open>Extensions\<close>

text \<open>The ends of two texts are the same as far as both go.\<close>

definition same_end :: "string \<Rightarrow> string \<Rightarrow> bool" where
  "same_end x y = (let n = min (length x) (length y) in drop (length x - n) x = drop (length y - n) y)"

lemma ends_with_same_end: "ends_with (k @ x) y \<Longrightarrow> same_end x y"
proof -
  assume e: "ends_with (k @ x) y"
  show ?thesis
  proof (cases "length y \<le> length x")
    case True
    then show ?thesis using e by (auto simp: ends_with_def same_end_def Let_def min_def)
  next
    case False
    have y: "drop (length (k @ x) - length y) (k @ x) = y" and len: "length y \<le> length k + length x"
      using e by (simp_all add: ends_with_def)
    have "drop (length y - length x) (drop (length (k @ x) - length y) (k @ x)) = x" using False len by simp
    then have "drop (length y - length x) y = x" by (simp only: y)
    then show ?thesis using False by (simp add: same_end_def Let_def min_def)
  qed
qed

lemma ends_with_self [simp]: "ends_with (k @ x) x"
  by (simp add: ends_with_def)

text \<open>Names that no extension can be cut from.\<close>

definition base_name :: "string \<Rightarrow> bool" where
  "base_name k = (entry_name k \<and> index_of_key k = None \<and> list_all (\<lambda>(t, s, ext). \<not> ends_with k ext) TYPE_EXTENSIONS)"

subsection \<open>Trees that store data sets\<close>

definition holds_file :: "(string \<Rightarrow> num) \<Rightarrow> bool \<Rightarrow> string \<Rightarrow> byte list \<Rightarrow> string \<Rightarrow> ds_file \<Rightarrow> bool" where
  "holds_file parse meta e bs k f =
     (let ls = readLinesFromDataView bs
      in case f of
           TensorFile _ dims data \<Rightarrow>
             e = k @ ''.ten.npy'' \<and>
               (\<exists>shape cm xs. npy_bytes shape ''f8'' cm False xs = Inr bs \<and> length (padded_header shape ''f8'' cm False) < 65536 \<and>
                  10 \<le> header_padding shape ''f8'' cm False \<and> numberOfElements shape = int (length xs) \<and> xs \<noteq> [] \<and>
                  dims = JArr (map JInt shape) \<and> data = (if meta then None else Some xs)) \<or>
             e = k @ ''.ten.csv'' \<and>
               (\<exists>xs n. csv_rows parse [] ls [] None = Inr (xs, n) \<and> dims = csv_shape (length ls) n \<and> data = Some xs)
         | CategoryFile _ categories \<Rightarrow> e = k @ ''.cat.txt'' \<and> category_lines ls = categories
         | ClassFile _ categories \<Rightarrow> e = k @ ''.class.txt'' \<and> category_lines ls = categories \<and> distinct categories
         | LinksFile _ lnks \<Rightarrow> e = k @ ''.links.csv'' \<and> loadLinks_lines ls [] = Inr lnks
         | Directory _ _ \<Rightarrow> False)"

fun stores :: "(string \<Rightarrow> num) \<Rightarrow> bool \<Rightarrow> (string \<times> fnode) list \<Rightarrow> (string \<times> ds_file) list \<Rightarrow> bool" where
  "stores parse meta [] [] = True"
| "stores parse meta ((e, n) # es) ((k, f) # fs) =
     (base_name k \<and> entry_name e \<and> file_name f = k \<and> k \<notin> set (map fst fs) \<and> e \<notin> set (map fst es) \<and>
      (case (n, f) of
         (DirNode ds, Directory _ cs) \<Rightarrow> e = k \<and> stores parse meta ds cs
       | (FileNode bs, _) \<Rightarrow> holds_file parse meta e bs k f
       | _ \<Rightarrow> False) \<and>
      stores parse meta es fs)"
| "stores parse meta _ _ = False"

fun depth :: "(string \<times> ds_file) list \<Rightarrow> nat" where
  "depth [] = 0"
| "depth ((k, f) # fs) = max (case f of Directory _ cs \<Rightarrow> Suc (depth cs) | _ \<Rightarrow> 0) (depth fs)"

subsection \<open>Files\<close>

lemma csv_rows_path: "csv_rows parse p ls xs n = Inr r \<Longrightarrow> csv_rows parse q ls xs n = Inr r"
  by (induction parse p ls xs n rule: csv_rows.induct) (auto simp: Let_def split: if_splits)

lemma fold_set_add_distinct: "distinct (ys @ xs) \<Longrightarrow> fold set_add xs ys = ys @ xs"
  by (induction xs arbitrary: ys) (auto simp: set_add_def)

lemma extension_types:
  "(t, s, ''.ten.npy'') \<in> set TYPE_EXTENSIONS \<Longrightarrow> t = ''tensor'' \<and> s = ''default''"
  "(t, s, ''.ten.csv'') \<in> set TYPE_EXTENSIONS \<Longrightarrow> t = ''tensor'' \<and> s = ''csv''"
  "(t, s, ''.cat.txt'') \<in> set TYPE_EXTENSIONS \<Longrightarrow> t = ''category'' \<and> s = ''default''"
  "(t, s, ''.class.txt'') \<in> set TYPE_EXTENSIONS \<Longrightarrow> t = ''class'' \<and> s = ''default''"
  "(t, s, ''.links.csv'') \<in> set TYPE_EXTENSIONS \<Longrightarrow> t = ''links'' \<and> s = ''default''"
  by (simp_all add: TYPE_EXTENSIONS_def)

lemma type_extensions:
  "type_extension ''tensor'' ''default'' = ''.ten.npy''" "type_extension ''tensor'' ''csv'' = ''.ten.csv''"
  "type_extension ''category'' ''default'' = ''.cat.txt''" "type_extension ''class'' ''default'' = ''.class.txt''"
  "type_extension ''links'' ''default'' = ''.links.csv''"
  by (simp_all add: type_extension_def TYPE_EXTENSIONS_def)

lemma load_file_types:
  "load_file op parse root p k meta ''tensor'' s = loadTensorFile op parse root p k meta s"
  "load_file op parse root p k meta ''category'' s = loadCategoryFile op root p k s"
  "load_file op parse root p k meta ''class'' s = loadClassFile op root p k s"
  "load_file op parse root p k meta ''links'' s = loadLinksFile op root p k s"
  by (simp_all add: load_file_def)

lemma extensions_apart:
  "list_all (\<lambda>(t, s, x). list_all (\<lambda>(t', s', y). x = y \<or> \<not> same_end x y) TYPE_EXTENSIONS) TYPE_EXTENSIONS"
  "distinct (map (\<lambda>(t, s, x). x) TYPE_EXTENSIONS)"
  by code_simp+

lemma other_extensions:
  assumes T: "TYPE_EXTENSIONS = pre @ (t, s, ext) # post"
  shows "list_all (\<lambda>(t', s', x). \<not> ends_with (k @ ext) x) pre"
proof -
  have "\<not> ends_with (k @ ext) x" if "(t', s', x) \<in> set pre" for t' s' x
  proof
    assume "ends_with (k @ ext) x"
    then have se: "same_end ext x" by (rule ends_with_same_end)
    have a: "(t, s, ext) \<in> set TYPE_EXTENSIONS" "(t', s', x) \<in> set TYPE_EXTENSIONS" using that unfolding T by simp_all
    have "ext = x \<or> \<not> same_end ext x"
      using bspec [OF bspec [OF extensions_apart(1) [unfolded list_all_iff] a(1), unfolded prod.case] a(2)] by simp
    then have "x = ext" using se by simp
    moreover have "x \<in> (\<lambda>(t, s, x). x) ` set pre" using that by force
    moreover have "ext \<notin> (\<lambda>(t, s, x). x) ` set pre" using extensions_apart(2) [unfolded T] by simp
    ultimately show False by simp
  qed
  then show ?thesis by (auto simp: list_all_iff)
qed

lemma extension_members:
  "(''tensor'', ''default'', ''.ten.npy'') \<in> set TYPE_EXTENSIONS" "(''tensor'', ''csv'', ''.ten.csv'') \<in> set TYPE_EXTENSIONS"
  "(''category'', ''default'', ''.cat.txt'') \<in> set TYPE_EXTENSIONS" "(''class'', ''default'', ''.class.txt'') \<in> set TYPE_EXTENSIONS"
  "(''links'', ''default'', ''.links.csv'') \<in> set TYPE_EXTENSIONS"
  by (simp_all add: TYPE_EXTENSIONS_def)

lemma holds_file_extension: "holds_file parse meta e bs k f \<Longrightarrow> \<exists>t s ext. (t, s, ext) \<in> set TYPE_EXTENSIONS \<and> e = k @ ext"
  unfolding holds_file_def Let_def by (cases f; simp only: ds_file.case) (use extension_members in blast)+

lemma foldS_append: "foldS f (xs @ ys) s w = bindS (foldS f xs s) (foldS f ys) w"
  by (induction xs arbitrary: s w) (auto simp: bindS_def split: prod.split sum.split)

context tree_reader
begin

lemma open_entry:
  assumes "fs_lookup (tree w) (ps @ [e]) = Inr (FileNode bs)" and "\<forall>p \<in> set ps. entry_name p" and "entry_name e"
  obtains h w' where "open_file op root (path_join (join ''/'' ps) e) True w = (Inr (Some h), w')" "tree w' = tree w"
    "contents h w' = Some bs"
  using open_reader [OF assms(1)] assms(2,3) path_join_entries [OF assms(2,3)] by auto

lemma load_text_file:
  assumes l: "fs_lookup (tree w) (ps @ [e]) = Inr (FileNode bs)" and n: "\<forall>p \<in> set ps. entry_name p" "entry_name e"
    and h: "holds_file parse meta e bs k f" and nm: "file_name f = k"
    and te: "(t, s, ext) \<in> set TYPE_EXTENSIONS" "e = k @ ext"
  shows "\<exists>w'. load_file op parse root (join ''/'' ps) k meta t s w = (Inr f, w') \<and> tree w' = tree w"
proof -
  obtain fh v where o: "open_file op root (path_join (join ''/'' ps) e) True w = (Inr (Some fh), v)" "tree v = tree w" "contents fh v = Some bs"
    using open_entry [OF l n] by blast
  have s1: "bindS (open_file op root (path_join (join ''/'' ps) (k @ ext)) True) g w = g (Some fh) v" for g
    using o(1) te(2) by (simp add: bindS_step)
  have s2: "bindS (m_readLines op fh) g v = g (readLinesFromDataView bs) v" for g
    using read_lines [OF o(3)] by (simp add: bindS_step)
  show ?thesis
  proof (cases f)
    case (TensorFile x dims data)
    from h consider (npy) shape cm xs where "e = k @ ''.ten.npy''" "npy_bytes shape ''f8'' cm False xs = Inr bs"
        "length (padded_header shape ''f8'' cm False) < 65536" "10 \<le> header_padding shape ''f8'' cm False"
        "numberOfElements shape = int (length xs)" "xs \<noteq> []" "dims = JArr (map JInt shape)" "data = (if meta then None else Some xs)" | (csv) xs n where "e = k @ ''.ten.csv''"
        "csv_rows parse [] (readLinesFromDataView bs) [] None = Inr (xs, n)" "dims = csv_shape (length (readLinesFromDataView bs)) n" "data = Some xs"
      unfolding TensorFile holds_file_def Let_def ds_file.case by blast
    then show ?thesis
    proof cases
      case npy
      then have ext: "ext = ''.ten.npy''" using te(2) by simp
      have t: "''f8'' \<in> set DATA_TYPES" by (simp add: DATA_TYPES_def)
      obtain self self' where r: "new_NpyReader op (Some fh) v = (Inr self, v)" "rd_dtype self = ''f8''"
          "rd_shape self = Some (JArr (map JInt shape))" "NpyReader_read op fh self False v = (Inr (Some (stored_data ''f8'' xs), self'), v)"
        using npy_read [OF t npy(3-6,2) o(3), where close = False] by blast
      obtain u where u: "m_close op fh v = (Inr (), u)" "tree u = tree v" using close_reader [OF o(3)] close_tree [OF o(3)] by blast
      have sd: "stored_data ''f8'' xs = Float64Array xs" by (simp add: stored_data_def)
      show ?thesis using o(2) u(2) nm
        by (cases meta) (simp_all add: extension_types(1) [OF te(1) [unfolded ext]] load_file_types loadTensorFile_def type_extensions Let_def
            s1 [unfolded ext] bindS_step [of "new_NpyReader op (Some fh)", OF r(1)] TensorFile npy(7,8) sd r(2,3)
            bindS_step [of "m_close op fh", OF u(1)] bindS_step [of "NpyReader_read op fh self False", OF r(4)])
    next
      case csv
      then have ext: "ext = ''.ten.csv''" using te(2) by simp
      show ?thesis using o(2) csv_rows_path [OF csv(2)] nm
        by (simp add: extension_types(2) [OF te(1) [unfolded ext]] load_file_types loadTensorFile_def type_extensions Let_def
            s1 [unfolded ext] s2 TensorFile csv(3,4))
    qed
  next
    case (CategoryFile x cats)
    then have c: "e = k @ ''.cat.txt''" "category_lines (readLinesFromDataView bs) = cats" using h by (simp_all add: holds_file_def)
    then have ext: "ext = ''.cat.txt''" using te(2) by simp
    show ?thesis using o(2) nm
      by (simp add: extension_types(3) [OF te(1) [unfolded ext]] load_file_types loadCategoryFile_def type_extensions Let_def
            s1 [unfolded ext] s2 CategoryFile c(2))
  next
    case (ClassFile x cats)
    then have c: "e = k @ ''.class.txt''" "category_lines (readLinesFromDataView bs) = cats" "distinct cats"
      using h by (simp_all add: holds_file_def)
    then have ext: "ext = ''.class.txt''" using te(2) by simp
    show ?thesis using o(2) nm fold_set_add_distinct [of "[]" cats] c(3)
      by (simp add: extension_types(4) [OF te(1) [unfolded ext]] load_file_types loadClassFile_def type_extensions Let_def
            s1 [unfolded ext] s2 ClassFile c(2))
  next
    case (LinksFile x lnks)
    then have c: "e = k @ ''.links.csv''" "loadLinks_lines (readLinesFromDataView bs) [] = Inr lnks" using h by (simp_all add: holds_file_def)
    then have ext: "ext = ''.links.csv''" using te(2) by simp
    show ?thesis using o(2) nm
      by (simp add: extension_types(5) [OF te(1) [unfolded ext]] load_file_types loadLinksFile_def type_extensions Let_def
            s1 [unfolded ext] s2 LinksFile c(2))
  next
    case (Directory x cs)
    then show ?thesis using h by (simp add: holds_file_def)
  qed
qed

lemma try_skips:
  "list_all (\<lambda>(t, s, ext). \<not> ends_with nm ext) tes \<Longrightarrow> foldS (try_extension op parse root d meta) tes (nm, c) w = (Inr (nm, c), w)"
  by (induction tes) (auto simp: try_extension_def bindS_def)

lemma load_entry_file:
  assumes l: "fs_lookup (tree w) (ps @ [e]) = Inr (FileNode bs)" and n: "\<forall>p \<in> set ps. entry_name p" "entry_name e"
    and h: "holds_file parse meta e bs k f" and nm: "file_name f = k" and k: "base_name k"
  shows "\<exists>w'. foldS (try_extension op parse root (join ''/'' ps) meta) TYPE_EXTENSIONS (e, None) w = (Inr (k, Some f), w') \<and> tree w' = tree w"
proof -
  obtain t s ext where te: "(t, s, ext) \<in> set TYPE_EXTENSIONS" "e = k @ ext"
    using holds_file_extension [OF h] by blast
  obtain pre post where T: "TYPE_EXTENSIONS = pre @ (t, s, ext) # post" using te(1) by (meson split_list)
  have "list_all (\<lambda>(t', s', x). \<not> ends_with e x) pre" unfolding te(2) by (rule other_extensions [OF T])
  then have 1: "foldS (try_extension op parse root (join ''/'' ps) meta) pre (e, None) w = (Inr (e, None), w)" by (rule try_skips)
  obtain w' where w': "load_file op parse root (join ''/'' ps) k meta t s w = (Inr f, w')" "tree w' = tree w"
    using load_text_file [OF l n h nm te] by blast
  then have 2: "try_extension op parse root (join ''/'' ps) meta (t, s, ext) (e, None) w = (Inr (k, Some f), w')"
    by (simp add: try_extension_def te(2) bindS_def)
  have "list_all (\<lambda>(t, s, ext). \<not> ends_with k ext) TYPE_EXTENSIONS" using k by (simp add: base_name_def)
  then have "list_all (\<lambda>(t, s, ext). \<not> ends_with k ext) post" unfolding T by simp
  then have 3: "foldS (try_extension op parse root (join ''/'' ps) meta) post (k, Some f) w' = (Inr (k, Some f), w')" by (rule try_skips)
  show ?thesis unfolding T foldS_append using 1 2 3 w'(2) by (simp add: bindS_def)
qed

end
subsection \<open>Directories\<close>

lemma stores_distinct: "stores parse meta es fs \<Longrightarrow> distinct (map fst es)"
  by (induction parse meta es fs rule: stores.induct) auto

lemma obj_put_new: "k \<notin> set (map fst ob) \<Longrightarrow> index_of_key k = None \<Longrightarrow> obj_put k v ob = ob @ [(k, v)]"
  by (simp add: obj_put_def keys_def)

definition load_entry ::
  "('w, 'h) opener \<Rightarrow> (string \<Rightarrow> num) \<Rightarrow> string \<Rightarrow> bool \<Rightarrow> nat \<Rightarrow> string \<Rightarrow> string \<Rightarrow> (string \<times> ds_file) list \<Rightarrow>
   ('w, (string \<times> ds_file) list) io" where
  "load_entry op parse root meta n dirPath entry children =
     bindS (foldS (try_extension op parse root dirPath meta) TYPE_EXTENSIONS (entry, None)) (\<lambda>(childName, child).
     bindS (case child of Some f \<Rightarrow> ret f | None \<Rightarrow> loadDirectory n op parse root dirPath childName meta) (\<lambda>f.
     ret (obj_put childName f children)))"

lemma loadDirectory_Suc:
  "loadDirectory (Suc n) op parse root relPath name meta =
     bindS (open_dir op root (directory_path relPath name) True) (\<lambda>dirlist.
     bindS (foldS (load_entry op parse root meta n (directory_path relPath name)) dirlist []) (\<lambda>children.
     ret (Directory name children)))"
  unfolding loadDirectory.simps Let_def load_entry_def by (rule refl)

context tree_reader
begin

lemma load_subdirectory:
  assumes IH: "\<And>acc w. \<forall>(e, n) \<in> set ds. fs_lookup (tree w) ((ps @ [k]) @ [e]) = Inr n \<Longrightarrow> set (map fst acc) \<inter> set (map fst cs) = {} \<Longrightarrow>
      \<exists>w'. foldS (load_entry op parse root meta m (join ''/'' (ps @ [k]))) (map fst ds) acc w = (Inr (acc @ cs), w') \<and> tree w' = tree w"
    and l: "fs_lookup (tree w) (ps @ [k]) = Inr (DirNode ds)" and p: "\<forall>p \<in> set ps. entry_name p" and k: "base_name k"
    and d: "distinct (map fst ds)"
  shows "\<exists>w'. load_entry op parse root meta (Suc m) (join ''/'' ps) k acc w = (Inr (obj_put k (Directory k cs) acc), w') \<and> tree w' = tree w"
proof -
  have kn: "entry_name k" "list_all (\<lambda>(t, s, ext). \<not> ends_with k ext) TYPE_EXTENSIONS" using k by (simp_all add: base_name_def)
  have dp: "directory_path (join ''/'' ps) k = join ''/'' (ps @ [k])"
    using path_join_entries [OF p kn(1)] kn(1) by (simp add: directory_path_def entry_name_def)
  have n: "\<forall>p \<in> set (ps @ [k]). entry_name p" using p kn(1) by auto
  have "fs_lookup (tree w) ((ps @ [k]) @ [e]) = Inr n" if "(e, n) \<in> set ds" for e n
    using l d that fs_lookup_append [of "tree w" "ps @ [k]" "[e]"] by simp
  then obtain w' where w': "foldS (load_entry op parse root meta m (join ''/'' (ps @ [k]))) (map fst ds) [] w = (Inr cs, w')" "tree w' = tree w"
    using IH [of w "[]"] by auto
  have "loadDirectory (Suc m) op parse root (join ''/'' ps) k meta w = (Inr (Directory k cs), w')"
    unfolding loadDirectory_Suc dp bindS_step [of "open_dir op root (join ''/'' (ps @ [k])) True", OF open_directory [OF l n]]
      bindS_step [of "foldS (load_entry op parse root meta m (join ''/'' (ps @ [k]))) (map fst ds) []", OF w'(1)] by simp
  then show ?thesis using w'(2) try_skips [OF kn(2)] by (simp add: load_entry_def bindS_def)
qed

lemma load_children:
  "stores parse meta es fs \<Longrightarrow> \<forall>(e, n) \<in> set es. fs_lookup (tree w) (ps @ [e]) = Inr n \<Longrightarrow> \<forall>p \<in> set ps. entry_name p \<Longrightarrow>
   depth fs \<le> n \<Longrightarrow> set (map fst acc) \<inter> set (map fst fs) = {} \<Longrightarrow>
   \<exists>w'. foldS (load_entry op parse root meta n (join ''/'' ps)) (map fst es) acc w = (Inr (acc @ fs), w') \<and> tree w' = tree w"
proof (induction parse meta es fs arbitrary: n ps acc w rule: stores.induct)
  case (2 parse meta e nd es k f fs)
  have s: "base_name k" "entry_name e" "file_name f = k" "k \<notin> set (map fst fs)" "stores parse meta es fs" using "2.prems"(1) by auto
  have l: "fs_lookup (tree w) (ps @ [e]) = Inr nd" using "2.prems"(2) by simp
  have "\<exists>v. load_entry op parse root meta n (join ''/'' ps) e acc w = (Inr (obj_put k f acc), v) \<and> tree v = tree w"
  proof (cases nd)
    case (FileNode bs)
    then have h: "holds_file parse meta e bs k f" using "2.prems"(1) by simp
    obtain v where "foldS (try_extension op parse root (join ''/'' ps) meta) TYPE_EXTENSIONS (e, None) w = (Inr (k, Some f), v)" "tree v = tree w"
      using load_entry_file [OF l [unfolded FileNode] "2.prems"(3) s(2) h s(3,1)] by blast
    then show ?thesis by (simp add: load_entry_def bindS_def)
  next
    case (DirNode ds)
    then obtain x cs where f: "f = Directory x cs" "e = k" "stores parse meta ds cs" using "2.prems"(1) by (cases f) auto
    then obtain m where m: "n = Suc m" "depth cs \<le> m" using "2.prems"(4) by (cases n) auto
    have p: "\<forall>p \<in> set (ps @ [k]). entry_name p" using "2.prems"(3) s(1) by (auto simp: base_name_def)
    have "\<exists>w'. load_entry op parse root meta (Suc m) (join ''/'' ps) k acc w = (Inr (obj_put k (Directory k cs) acc), w') \<and> tree w' = tree w"
      by (rule load_subdirectory [OF _ l [unfolded f(2) DirNode] "2.prems"(3) s(1) stores_distinct [OF f(3)]])
        (use "2.IH"(1) [OF refl DirNode f(1) f(3) _ p m(2)] f in blast)
    then show ?thesis using f s(3) m(1) by simp
  qed
  then obtain v where v: "load_entry op parse root meta n (join ''/'' ps) e acc w = (Inr (obj_put k f acc), v)" "tree v = tree w" by blast
  have a: "obj_put k f acc = acc @ [(k, f)]" using "2.prems"(5) s(1) by (intro obj_put_new) (auto simp: base_name_def)
  have "\<exists>w'. foldS (load_entry op parse root meta n (join ''/'' ps)) (map fst es) (acc @ [(k, f)]) v = (Inr ((acc @ [(k, f)]) @ fs), w') \<and> tree w' = tree v"
    using "2.prems"(2-5) s(4,5) v(2) by (intro "2.IH"(2)) auto
  then show ?case using v by (simp add: a bindS_step)
qed auto

lemma load_stored:
  assumes "stores parse meta es fs" and "tree w = DirNode es" and "depth fs < n"
  shows "\<exists>w'. loadDataset n op parse root meta w = (Inr \<lparr>ds_root = root, ds_directory = Directory [] fs\<rparr>, w') \<and> tree w' = tree w"
proof -
  obtain m where m: "n = Suc m" "depth fs \<le> m" using assms(3) by (cases n) auto
  have "map_of es e = Some nd" if "(e, nd) \<in> set es" for e nd using that stores_distinct [OF assms(1)] by simp
  then have "\<forall>(e, nd) \<in> set es. fs_lookup (tree w) ([] @ [e]) = Inr nd" using assms(2) by auto
  then obtain w' where w': "foldS (load_entry op parse root meta m (join ''/'' [])) (map fst es) [] w = (Inr ([] @ fs), w')" "tree w' = tree w"
    using load_children [OF assms(1), of w "[]" m "[]"] m(2) by auto
  have o: "open_dir op root [] True w = (Inr (map fst es), w)" using open_directory [of w "[]" es] assms(2) by simp
  have "loadDirectory n op parse root [] [] meta w = (Inr (Directory [] fs), w')"
    using w'(1) unfolding m(1) loadDirectory_Suc by (simp add: directory_path_def bindS_step [of "open_dir op root [] True", OF o] bindS_step)
  then show ?thesis using w'(2) by (simp add: loadDataset_def bindS_step)
qed

end
subsection \<open>Data sets through both openers\<close>

text \<open>C39. A data set stored as a tree of files, below an absolute path of the file system or in the object
  tree of an archive, is loaded: with more fuel than the nesting of the directories, loading returns, and
  the result is exactly the stored data set, its files in the order of the directory entries, every
  file under its name without the extension and with the contents that its bytes stand for; both openers
  return the same directory.\<close>

theorem stored_dataset_loads:
  assumes "stores parse meta es fs" and "depth fs < n"
    and "fs_subtree P w = DirNode es" and "archive_tree (w_struct w) = DirNode es"
  shows "fst (loadDataset n (defaultOpener fs_methods) parse (path_text P) meta w) =
           Inr \<lparr>ds_root = path_text P, ds_directory = Directory [] fs\<rparr> \<and>
         fst (loadDataset n (newOpener tar_methods) parse [] meta w) = Inr \<lparr>ds_root = [], ds_directory = Directory [] fs\<rparr>"
proof -
  obtain v where "loadDataset n (defaultOpener fs_methods) parse (path_text P) meta w =
      (Inr \<lparr>ds_root = path_text P, ds_directory = Directory [] fs\<rparr>, v)"
    using fs_tree_reader.load_stored [OF assms(1,3,2)] by blast
  moreover obtain v where "loadDataset n (newOpener tar_methods) parse [] meta w = (Inr \<lparr>ds_root = [], ds_directory = Directory [] fs\<rparr>, v)"
    using tar_tree_reader.load_stored [OF assms(1,4,2)] by blast
  ultimately show ?thesis by simp
qed

definition sample_archive :: tnode where
  "sample_archive =
     TObj [(''a.cat.txt'', TBuf (text_bytes ''red'')),
           (''s'', TObj [(''b.class.txt'', TBuf (text_bytes ''x'')), (''l.links.csv'', TBuf [])]),
           (''m.ten.csv'', TBuf (text_bytes ''1,2''))]"

definition sample_files :: "(string \<times> ds_file) list" where
  "sample_files =
     [(''a'', CategoryFile ''a'' [''red'']),
      (''s'', Directory ''s'' [(''b'', ClassFile ''b'' [''x'']), (''l'', LinksFile ''l'' [])]),
      (''m'', TensorFile ''m'' (JArr [JInt 2]) (Some [1, 2]))]"

lemma sample_stored:
  "stores (\<lambda>t. if t = ''1'' then 1 else 2) False
     [(''a.cat.txt'', FileNode (text_bytes ''red'')),
      (''s'', DirNode [(''b.class.txt'', FileNode (text_bytes ''x'')), (''l.links.csv'', FileNode [])]),
      (''m.ten.csv'', FileNode (text_bytes ''1,2''))] sample_files"
proof -
  have 1: "readLinesFromDataView (text_bytes ''red'') = [''red'']" "readLinesFromDataView (text_bytes ''x'') = [''x'']"
    "readLinesFromDataView [] = []" "readLinesFromDataView (text_bytes ''1,2'') = [''1,2'']" by code_simp+
  have 2: "category_lines [''red''] = [''red'']" "category_lines [''x''] = [''x'']" "loadLinks_lines [] [] = Inr []"
    "csv_rows (\<lambda>t. if t = ''1'' then 1 else 2) [] [''1,2''] [] None = Inr ([1, 2], Some 2)" "csv_shape 1 (Some 2) = JArr [JInt 2]"
    by code_simp+
  have 3: "base_name ''a''" "base_name ''s''" "base_name ''b''" "base_name ''l''" "base_name ''m''" by code_simp+
  have 4: "entry_name ''a.cat.txt''" "entry_name ''s''" "entry_name ''b.class.txt''" "entry_name ''l.links.csv''" "entry_name ''m.ten.csv''" by code_simp+
  show ?thesis using 3 4 by (simp add: sample_files_def holds_file_def Let_def 1 2 csv_shape_def)
qed

theorem stored_dataset_loads_witness:
  "fst (loadDataset 2 (defaultOpener fs_methods) (\<lambda>t. if t = ''1'' then 1 else 2) (path_text [''d'']) False
      \<lparr>w_fs = \<lparr>fs_tree = DirNode [(''d'', archive_tree sample_archive)], fs_cwd = [], fs_fds = [], fs_next = 3\<rparr>, w_struct = sample_archive\<rparr>) =
     Inr \<lparr>ds_root = path_text [''d''], ds_directory = Directory [] sample_files\<rparr> \<and>
   fst (loadDataset 2 (newOpener tar_methods) (\<lambda>t. if t = ''1'' then 1 else 2) [] False
      \<lparr>w_fs = \<lparr>fs_tree = DirNode [(''d'', archive_tree sample_archive)], fs_cwd = [], fs_fds = [], fs_next = 3\<rparr>, w_struct = sample_archive\<rparr>) =
     Inr \<lparr>ds_root = [], ds_directory = Directory [] sample_files\<rparr>"
proof (rule stored_dataset_loads [OF sample_stored])
  show "depth sample_files < 2" by (simp add: sample_files_def)
  have "entry_name ''d''" by code_simp
  then show "fs_subtree [''d''] \<lparr>w_fs = \<lparr>fs_tree = DirNode [(''d'', archive_tree sample_archive)], fs_cwd = [], fs_fds = [], fs_next = 3\<rparr>, w_struct = sample_archive\<rparr> =
      DirNode [(''a.cat.txt'', FileNode (text_bytes ''red'')),
        (''s'', DirNode [(''b.class.txt'', FileNode (text_bytes ''x'')), (''l.links.csv'', FileNode [])]),
        (''m.ten.csv'', FileNode (text_bytes ''1,2''))]"
    by (simp add: fs_subtree_def sample_archive_def)
qed (simp add: sample_archive_def)

end
