(* ===== verification/Infer.thy ===== *)
theory Infer
  imports Dataset Schema_Types
begin

text \<open>
  \<^verbatim>\<open>Dataset.prototype.inferSchema\<close> of \<^verbatim>\<open>src/dataset.js\<close>: the root directory is split into samples and
  classes, then the samples are visited one after the other. The variables that live across
  samples are the record \<open>infer_state\<close>; each stage of the loop body is one definition here, in the
  order of the source, and \<open>infer_sample\<close> composes them. The schema constructors are those of theory
  \<open>Schema_Types\<close>, so their checks apply to what is inferred.
\<close>

subsection \<open>The root directory\<close>

definition sample_path :: "string list \<Rightarrow> string" where
  "sample_path parts = join ''/'' ([] # parts)"

definition quoted :: "string \<Rightarrow> string" where
  "quoted s = apos @ s @ apos"

record root_files =
  rf_samples :: "(string \<times> ds_file) list obj"
  rf_classes :: "sclass obj"
  rf_classSets :: "string list obj"

definition root_child :: "string \<times> ds_file \<Rightarrow> root_files \<Rightarrow> root_files res" where
  "root_child kc rf =
     (case kc of (childName, child) \<Rightarrow>
        (case child of
           Directory _ cs \<Rightarrow> Inr (rf\<lparr>rf_samples := obj_put childName cs (rf_samples rf)\<rparr>)
         | ClassFile _ categories \<Rightarrow>
             bindE (new_Class (JInt (int (length categories))) JNull) (\<lambda>c.
             Inr (rf\<lparr>rf_classes := obj_put childName c (rf_classes rf),
                     rf_classSets := obj_put childName (fold set_add categories []) (rf_classSets rf)\<rparr>))
         | _ \<Rightarrow> Inl (dataset_error (''Files of type '' @ quoted (file_type child) @ '' are unexpected in dataset root.'')
                     (sample_path [childName]))))"

definition root_children :: "(string \<times> ds_file) list \<Rightarrow> root_files res" where
  "root_children cs = foldE root_child cs \<lparr>rf_samples = [], rf_classes = [], rf_classSets = []\<rparr>"

subsection \<open>Names of a sample\<close>

record infer_state =
  schNodes :: "node obj"
  firstSample :: bool
  linksFileFound :: bool
  schCyclic :: bool
  schFanin :: bool
  schUndirected :: bool

definition of_type :: "string \<Rightarrow> (string \<times> ds_file) list \<Rightarrow> (string \<times> ds_file) list" where
  "of_type t cs = filter (\<lambda>(k, c). file_type c = t) cs"

definition sample_nodes :: "(string \<times> ds_file) list \<Rightarrow> string list" where
  "sample_nodes cs = map fst (filter (\<lambda>(k, c). file_type c \<noteq> ''links'') cs)"

text \<open>The comparison of two sets of names, at the root of a sample and again in each node. Sets of
  which neither contains the other pass.\<close>

definition check_same_names :: "string list \<Rightarrow> string list \<Rightarrow> string list \<Rightarrow> unit res" where
  "check_same_names schemaSet sampleSet prefix =
     (let schemaSuperset = isSuperset schemaSet sampleSet; sampleSuperset = isSuperset sampleSet schemaSet
      in if schemaSuperset \<and> sampleSuperset then Inr ()
         else if schemaSuperset then
           Inl (dataset_error ''Item expected but not found.'' (sample_path (prefix @ [hd (difference schemaSet sampleSet)])))
         else if sampleSuperset then
           Inl (dataset_error ''Item found but not expected.'' (sample_path (prefix @ [hd (difference sampleSet schemaSet)])))
         else Inr ())"

definition check_links_files :: "string \<Rightarrow> (string \<times> ds_file) list \<Rightarrow> infer_state \<Rightarrow> infer_state res" where
  "check_links_files sampleName cs st =
     (let found = (linksFileFound st \<or> of_type ''links'' cs \<noteq> [])
      in if (of_type ''links'' cs \<noteq> []) \<noteq> found then
           Inl (dataset_error ''Links file not found in all data samples.'' (sample_path [sampleName]))
         else Inr (st\<lparr>linksFileFound := found\<rparr>))"

subsection \<open>Singleton nodes\<close>

definition type_error :: "string \<Rightarrow> string list \<Rightarrow> js_error" where
  "type_error childName parts =
     dataset_error (''Node '' @ quoted childName @ '' not the same type in all samples.'') (sample_path parts)"

definition field_type :: "field \<Rightarrow> string" where
  "field_type f = (case f of Tensor _ _ _ \<Rightarrow> ''tensor'' | Category _ _ \<Rightarrow> ''category'')"

definition singleton_node :: "field \<Rightarrow> node res" where
  "singleton_node f = new_Node (JBool True) (Dict [(''field'', f)]) NullArg JNull"

text \<open>The test on the node of the same name in the earlier samples; the result is its field.\<close>

definition same_singleton :: "string \<Rightarrow> string \<Rightarrow> string \<Rightarrow> infer_state \<Rightarrow> field res" where
  "same_singleton t sampleName childName st =
     (case get (schNodes st) childName of
        Own nd \<Rightarrow>
          if \<not> isSingleton nd \<or> length (node_fields nd) > 1 then Inl (type_error childName [sampleName])
          else
            (case map_of (node_fields nd) ''field'' of
               None \<Rightarrow> Inl TypeError
             | Some f \<Rightarrow> if field_type f \<noteq> t then Inl (type_error childName [sampleName]) else Inr f)
      | _ \<Rightarrow> Inl TypeError)"

definition infer_tensor :: "string \<Rightarrow> string \<times> ds_file \<Rightarrow> infer_state \<Rightarrow> infer_state res" where
  "infer_tensor sampleName kc st =
     (case kc of (childName, child) \<Rightarrow>
        if firstSample st then
          bindE (new_Tensor (dimensions child) JNull JNull) (\<lambda>f.
          bindE (singleton_node f) (\<lambda>nd.
          Inr (st\<lparr>schNodes := obj_put childName nd (schNodes st)\<rparr>)))
        else
          bindE (same_singleton ''tensor'' sampleName childName st) (\<lambda>f.
          if \<not> arraysEqual (map dim_to_js (tensor_dim f)) (dimensions child) then
            Inl (dataset_error ''Tensor dimensions mismatch.'' (sample_path [sampleName, childName]))
          else Inr st))"

text \<open>The first class that has all the categories.\<close>

fun infer_class :: "string list obj \<Rightarrow> string list \<Rightarrow> string option" where
  "infer_class [] categories = None"
| "infer_class ((className, categorySet) # cs) categories =
     (if belongsToSet categories categorySet then Some className else infer_class cs categories)"

definition find_class :: "string list obj \<Rightarrow> string list \<Rightarrow> string list \<Rightarrow> string res" where
  "find_class classSets categories parts =
     (case infer_class classSets categories of
        None \<Rightarrow> Inl (dataset_error ''Category file does not match any class.'' (sample_path parts))
      | Some c \<Rightarrow> Inr c)"

definition infer_category :: "string list obj \<Rightarrow> string \<Rightarrow> string \<times> ds_file \<Rightarrow> infer_state \<Rightarrow> infer_state res" where
  "infer_category classSets sampleName kc st =
     (case kc of (childName, child) \<Rightarrow>
        bindE (find_class classSets (file_categories child) [sampleName, childName]) (\<lambda>cls.
        if firstSample st then
          bindE (new_Category (JStr cls) JNull) (\<lambda>f.
          bindE (singleton_node f) (\<lambda>nd.
          Inr (st\<lparr>schNodes := obj_put childName nd (schNodes st)\<rparr>)))
        else
          bindE (same_singleton ''category'' sampleName childName st) (\<lambda>f.
          if categoryClass f \<noteq> cls then
            Inl (dataset_error ''Category class mismatch.'' (sample_path [sampleName, childName]))
          else Inr st)))"

subsection \<open>Nodes with instances\<close>

text \<open>\<^verbatim>\<open>dimensions[0]\<close> and \<^verbatim>\<open>dimensions.slice(1)\<close>\<close>

definition first_dimension :: "jsval \<Rightarrow> jsval option res" where
  "first_dimension v =
     (case v of
        JArr xs \<Rightarrow> Inr (case xs of [] \<Rightarrow> None | x # _ \<Rightarrow> Some x)
      | JStr s \<Rightarrow> Inr (case s of [] \<Rightarrow> None | c # _ \<Rightarrow> Some (JStr [c]))
      | JObj ob \<Rightarrow> Inr (map_of ob ''0'')
      | JNull \<Rightarrow> Inl TypeError
      | _ \<Rightarrow> Inr None)"

definition other_dimensions :: "jsval \<Rightarrow> jsval res" where
  "other_dimensions v = (case v of JArr xs \<Rightarrow> Inr (JArr (tl xs)) | JStr s \<Rightarrow> Inr (JStr (tl s)) | _ \<Rightarrow> Inl TypeError)"

text \<open>The instance counts of the nodes; \<open>None\<close> is a count that is undefined.\<close>

type_synonym counts = "jsval option obj"

text \<open>Two counts are the same value: equal, and not two arrays or objects.\<close>

definition same_count :: "jsval option \<Rightarrow> jsval option \<Rightarrow> bool" where
  "same_count a b = (a = b \<and> (case a of Some (JArr _) \<Rightarrow> False | Some (JObj _) \<Rightarrow> False | _ \<Rightarrow> True))"

definition count_instances :: "string \<Rightarrow> jsval option \<Rightarrow> js_error \<Rightarrow> counts \<Rightarrow> counts res" where
  "count_instances childName cnt mismatch counts =
     (case get counts childName of
        Proto \<Rightarrow> Inl mismatch
      | Own (Some v) \<Rightarrow>
          if truthy v then if same_count (Some v) cnt then Inr counts else Inl mismatch
          else Inr (obj_put childName cnt counts)
      | _ \<Rightarrow> Inr (obj_put childName cnt counts))"

text \<open>The field of an earlier sample under the same name. An inherited name gives something without a
  \<^verbatim>\<open>fieldType\<close>.\<close>

definition same_field :: "string \<Rightarrow> string \<Rightarrow> string list \<Rightarrow> string \<Rightarrow> field obj \<Rightarrow> field res" where
  "same_field t childName parts nodeChildName fs =
     (case get fs nodeChildName of
        Own f \<Rightarrow> if field_type f \<noteq> t then Inl (type_error childName parts) else Inr f
      | Proto \<Rightarrow> Inl (type_error childName parts)
      | Undef \<Rightarrow> Inl TypeError)"

definition infer_field ::
  "string list obj \<Rightarrow> bool \<Rightarrow> string \<Rightarrow> string \<Rightarrow> string \<times> ds_file \<Rightarrow> field obj \<times> counts \<Rightarrow> (field obj \<times> counts) res" where
  "infer_field classSets first sampleName childName kc st =
     (case (kc, st) of ((nodeChildName, nodeChild), (fs, counts)) \<Rightarrow>
        let parts = [sampleName, childName, nodeChildName]
        in (case nodeChild of
              TensorFile _ dims _ \<Rightarrow>
                bindE (first_dimension dims) (\<lambda>cnt.
                bindE (count_instances childName cnt
                         (dataset_error ''Tensor instance count mismatch.'' (sample_path parts)) counts) (\<lambda>counts.
                if first then
                  bindE (other_dimensions dims) (\<lambda>ds.
                  bindE (new_Tensor ds JNull JNull) (\<lambda>f.
                  Inr (obj_put nodeChildName f fs, counts)))
                else
                  bindE (same_field ''tensor'' childName parts nodeChildName fs) (\<lambda>f.
                  bindE (other_dimensions dims) (\<lambda>ds.
                  if \<not> arraysEqual (map dim_to_js (tensor_dim f)) ds then
                    Inl (dataset_error ''Tensor dimensions mismatch.'' (sample_path parts))
                  else Inr (fs, counts)))))
            | CategoryFile _ categories \<Rightarrow>
                bindE (find_class classSets categories parts) (\<lambda>cls.
                bindE (count_instances childName (Some (JInt (int (length categories))))
                         (dataset_error ''Category instance count mismatch.'' (sample_path parts)) counts) (\<lambda>counts.
                if first then
                  bindE (new_Category (JStr cls) JNull) (\<lambda>f. Inr (obj_put nodeChildName f fs, counts))
                else
                  bindE (same_field ''category'' childName parts nodeChildName fs) (\<lambda>f.
                  if categoryClass f \<noteq> cls then
                    Inl (dataset_error ''Category class mismatch.'' (sample_path parts))
                  else Inr (fs, counts))))
            | _ \<Rightarrow>
                Inl (dataset_error (''Files of type '' @ quoted (file_type nodeChild) @ '' are unexpected in node directory.'')
                      (sample_path parts))))"

text \<open>One node directory. In every sample the node is built anew from its fields, without links.\<close>

definition infer_node ::
  "string list obj \<Rightarrow> string \<Rightarrow> string \<times> ds_file \<Rightarrow> infer_state \<times> counts \<Rightarrow> (infer_state \<times> counts) res" where
  "infer_node classSets sampleName kc stc =
     (case (kc, stc) of ((childName, child), (st, counts)) \<Rightarrow>
        bindE (if firstSample st then Inr []
               else
                 (case get (schNodes st) childName of
                    Own nd \<Rightarrow> if isSingleton nd then Inl (type_error childName [sampleName]) else Inr (node_fields nd)
                  | _ \<Rightarrow> Inl TypeError)) (\<lambda>fs.
        bindE (if firstSample st then Inr ()
               else check_same_names (keys fs) (map fst (dir_children child)) [sampleName, childName]) (\<lambda>_.
        bindE (foldE (infer_field classSets (firstSample st) sampleName childName) (dir_children child) (fs, counts)) (\<lambda>(fs, counts).
        bindE (new_Node (JBool False) (Dict fs) NullArg JNull) (\<lambda>nd.
        Inr (st\<lparr>schNodes := obj_put childName nd (schNodes st)\<rparr>, counts))))))"

subsection \<open>Links\<close>

text \<open>Without a links file every node with instances gets one link to itself.\<close>

definition implicit_link :: "string \<times> node \<Rightarrow> infer_state \<Rightarrow> infer_state res" where
  "implicit_link kn st =
     (case kn of (nodeName, nd) \<Rightarrow>
        if isSingleton nd then Inr st
        else
          bindE (new_Link (JInt 1)) (\<lambda>l.
          Inr (st\<lparr>schNodes := obj_put nodeName (nd\<lparr>node_links := obj_put nodeName l (node_links nd)\<rparr>) (schNodes st),
                  schUndirected := False\<rparr>)))"

definition unknown_node :: "string \<Rightarrow> string \<Rightarrow> js_error" where
  "unknown_node dstNodeName sampleName =
     dataset_error (''Link references unknown node '' @ quoted dstNodeName @ ''.'') (sample_path [sampleName])"

definition singleton_target :: "string \<Rightarrow> string \<Rightarrow> js_error" where
  "singleton_target dstNodeName sampleName =
     dataset_error (''Link references singleton node '' @ quoted dstNodeName @ ''.'') (sample_path [sampleName])"

definition widen :: "int \<Rightarrow> link \<Rightarrow> link" where
  "widen cnt l =
     (let l = (if cnt < link_lower l then l\<lparr>link_lower := cnt\<rparr> else l)
      in case link_upper l of Fin h \<Rightarrow> if cnt > h then l\<lparr>link_upper := Fin cnt\<rparr> else l | Inf \<Rightarrow> l)"

text \<open>One entry of the link counts. What an inherited name denotes is no node and has no links.\<close>

definition infer_link :: "string \<Rightarrow> string \<times> nat \<Rightarrow> node obj \<Rightarrow> node obj res" where
  "infer_link sampleName kc nds =
     (case kc of (key, n) \<Rightarrow>
        let parts = split_on CHR '' '' key; dstNodeName = parts ! 1; cnt = int n
        in bindE (loadInstnceId (hd parts)) (\<lambda>src.
           let srcNodeName = inst_node src; srcNode = get nds srcNodeName; dstNode = get nds dstNodeName;
               is_singleton = (\<lambda>x. case x of Own nd \<Rightarrow> isSingleton nd | _ \<Rightarrow> False)
           in if srcNode = Undef then Inl (unknown_node dstNodeName sampleName)
              else if is_singleton srcNode then Inl (singleton_target dstNodeName sampleName)
              else if dstNode = Undef then Inl (unknown_node dstNodeName sampleName)
              else if is_singleton dstNode then Inl (singleton_target dstNodeName sampleName)
              else
                (case srcNode of
                   Own nd \<Rightarrow>
                     bindE (case get (node_links nd) dstNodeName of
                              Own l \<Rightarrow> Inr l
                            | Undef \<Rightarrow> new_Link (JInt cnt)
                            | Proto \<Rightarrow> Inl TypeError) (\<lambda>l.
                     Inr (obj_put srcNodeName (nd\<lparr>node_links := obj_put dstNodeName (widen cnt l) (node_links nd)\<rparr>) nds))
                 | _ \<Rightarrow> Inl TypeError)))"

text \<open>\<^verbatim>\<open>count >= nodeInstanceCount[nodeName]\<close>: undefined compares as false, null as 0. A count that is a
  text, an array or an object is outside the model.\<close>

definition overflows :: "int \<Rightarrow> jsval option lookup \<Rightarrow> bool res" where
  "overflows cnt c =
     (case c of
        Own (Some v) \<Rightarrow>
          (case v of
             JInt n \<Rightarrow> Inr (n \<le> cnt)
           | JFrac m e \<Rightarrow> Inr (m \<le> cnt * 2 ^ e)
           | JNull \<Rightarrow> Inr (0 \<le> cnt)
           | JBool b \<Rightarrow> Inr ((if b then 1 else 0) \<le> cnt)
           | _ \<Rightarrow> Inl Unmodelled)
      | _ \<Rightarrow> Inr False)"

definition check_index :: "string \<Rightarrow> counts \<Rightarrow> string \<times> int \<Rightarrow> unit \<Rightarrow> unit res" where
  "check_index sampleName counts kc u =
     (case kc of (nodeName, cnt) \<Rightarrow>
        bindE (overflows cnt (get counts nodeName)) (\<lambda>over.
        if over then
          Inl (DatasetException
                 (TextWith (''Found link index '' @ int_text cnt @ '' to node with '')
                    (case map_of counts nodeName of Some (Some v) \<Rightarrow> v | _ \<Rightarrow> JNull) '' instances.'')
                 (sample_path [sampleName]))
        else Inr ()))"

definition infer_links :: "string \<Rightarrow> counts \<Rightarrow> links \<Rightarrow> infer_state \<Rightarrow> infer_state res" where
  "infer_links sampleName counts ls st =
     bindE (throw_if (counts = []) (dataset_error ''Link file found but no non-singleton nodes.'' (sample_path [sampleName]))) (\<lambda>_.
     bindE (foldE (infer_link sampleName) (getLinkDestinationCounts ls) (schNodes st)) (\<lambda>nds.
     bindE (foldE (check_index sampleName counts) (getMaxIndicesPerNode ls) ()) (\<lambda>_.
     let undir = (if schUndirected st then isUndirected ls else False);
         fan = (if schFanin st then True else isFanin undir ls)
     in bindE (if schCyclic st then Inr True else isCyclic undir ls) (\<lambda>cyc.
        Inr (st\<lparr>schNodes := nds, schUndirected := undir, schFanin := fan, schCyclic := cyc\<rparr>)))))"

definition links_stage :: "string \<Rightarrow> (string \<times> ds_file) list \<Rightarrow> counts \<Rightarrow> infer_state \<Rightarrow> infer_state res" where
  "links_stage sampleName cs counts st =
     (case of_type ''links'' cs of
        [] \<Rightarrow> foldE implicit_link (schNodes st) st
      | [(k, f)] \<Rightarrow> infer_links sampleName counts (file_links f) st
      | _ \<Rightarrow> Inl (dataset_error ''At most one links file per data sample is allowed.'' (sample_path [sampleName])))"

subsection \<open>Samples and the schema\<close>

definition infer_sample ::
  "string list obj \<Rightarrow> string \<times> (string \<times> ds_file) list \<Rightarrow> infer_state \<Rightarrow> infer_state res" where
  "infer_sample classSets sc st =
     (case sc of (sampleName, cs) \<Rightarrow>
        bindE (check_links_files sampleName cs st) (\<lambda>st.
        bindE (if firstSample st then Inr ()
               else check_same_names (keys (schNodes st)) (sample_nodes cs) [sampleName]) (\<lambda>_.
        bindE (foldE (infer_tensor sampleName) (of_type ''tensor'' cs) st) (\<lambda>st.
        bindE (foldE (infer_category classSets sampleName) (of_type ''category'' cs) st) (\<lambda>st.
        bindE (foldE (infer_node classSets sampleName) (of_type ''directory'' cs) (st, [])) (\<lambda>(st, counts).
        bindE (links_stage sampleName cs counts st) (\<lambda>st.
        Inr (st\<lparr>firstSample := False\<rparr>))))))))"

definition initial_state :: infer_state where
  "initial_state =
     \<lparr>schNodes = [], firstSample = True, linksFileFound = False, schCyclic = False, schFanin = False, schUndirected = True\<rparr>"

definition inferSchema :: "dataset \<Rightarrow> schema res" where
  "inferSchema d =
     bindE (root_children (dir_children (ds_directory d))) (\<lambda>rf.
     bindE (foldE (infer_sample (rf_classSets rf)) (rf_samples rf) initial_state) (\<lambda>st.
     new_Schema (Dict (schNodes st)) (Dict (rf_classes rf)) (JBool (schCyclic st)) (JBool (schUndirected st))
       (JBool (schFanin st)) JNull))"

end
