(* ===== verification/Links_Correct.thy ===== *)
theory Links_Correct
  imports Links
begin

text \<open>
  Correctness of the links component: reading back what was written, the fan-in and symmetry
  tests, and the two depth-first searches of \<^verbatim>\<open>isCyclic\<close>. The specification of the searches is in
  terms of the edge relation of the links: the directed search finds a cycle of the relation,
  the undirected one an edge whose ends stay connected without it.
\<close>

subsection \<open>The edge relation\<close>

definition edge_of :: "dlink \<Rightarrow> string \<times> string" where
  "edge_of l = (dumpInstanceId (link_src l), dumpInstanceId (link_dst l))"

definition links_rel :: "links \<Rightarrow> (string \<times> string) set" where
  "links_rel ls = edge_of ` set (map snd ls)"

definition succs :: "(string, string list) jmap \<Rightarrow> string \<Rightarrow> string list" where
  "succs adjacency x = (case map_of adjacency x of Some ys \<Rightarrow> ys | None \<Rightarrow> [])"

definition adj_rel :: "(string, string list) jmap \<Rightarrow> (string \<times> string) set" where
  "adj_rel adjacency = {(x, y). y \<in> set (succs adjacency x)}"

lemma succs_add: "succs (add_adjacent l adjacency) x =
    succs adjacency x @ (if dumpInstanceId (link_src l) = x then [dumpInstanceId (link_dst l)] else [])"
  by (auto simp: succs_def add_adjacent_def Let_def split: option.split)

lemma succs_fold: "succs (fold add_adjacent ls adjacency) x =
    succs adjacency x @ map (\<lambda>l. dumpInstanceId (link_dst l)) (filter (\<lambda>l. dumpInstanceId (link_src l) = x) ls)"
  by (induction ls arbitrary: adjacency) (simp_all add: succs_add)

lemma succs_links: "succs (link_adjacency ls) x =
    map (\<lambda>l. dumpInstanceId (link_dst l)) (filter (\<lambda>l. dumpInstanceId (link_src l) = x) ls)"
  unfolding link_adjacency_def succs_fold by (simp add: succs_def)

lemma adj_rel_links: "adj_rel (link_adjacency (map snd ls)) = links_rel ls"
  by (force simp: adj_rel_def succs_links links_rel_def edge_of_def)

lemma set_link_nodes_fold:
  "set (fold (\<lambda>l ns. set_add (dumpInstanceId (link_dst l)) (set_add (dumpInstanceId (link_src l)) ns)) ls ns) =
     set ns \<union> fst ` edge_of ` set ls \<union> snd ` edge_of ` set ls"
  by (induction ls arbitrary: ns) (auto simp: edge_of_def)

lemma set_link_nodes: "set (link_nodes (map snd ls)) = Field (links_rel ls)"
  unfolding link_nodes_def set_link_nodes_fold by (auto simp: Field_def links_rel_def Domain_fst Range_snd)

subsection \<open>The directed search\<close>

text \<open>The stack between the copies of the ancestors: above the copy of an ancestor lie the
  successors it pushed that are still to be met, and its other successors are done (in \<open>F\<close>).\<close>

fun stack_ok :: "(string \<times> string) set \<Rightarrow> string set \<Rightarrow> string list \<Rightarrow> string list \<Rightarrow> bool" where
  "stack_ok E F [] stack = (length stack \<le> 1)"
| "stack_ok E F (a # as) stack =
     (a \<notin> set as \<and>
      (\<exists>new rest. stack = new @ a # rest \<and> (\<forall>y \<in> set new. (a, y) \<in> E \<and> y \<notin> set (a # as)) \<and>
         (\<forall>y. (a, y) \<in> E \<longrightarrow> y \<in> F \<union> set new) \<and> stack_ok E F as (a # rest)))"

declare stack_ok.simps(2) [simp del]

lemma stack_okE:
  assumes "stack_ok E F (a # as) stack"
  obtains new rest where "a \<notin> set as" "stack = new @ a # rest" "\<forall>y \<in> set new. (a, y) \<in> E \<and> y \<notin> set (a # as)"
    "\<forall>y. (a, y) \<in> E \<longrightarrow> y \<in> F \<union> set new" "stack_ok E F as (a # rest)"
  using assms unfolding stack_ok.simps by blast

lemma stack_okI:
  "a \<notin> set as \<Longrightarrow> stack = new @ a # rest \<Longrightarrow> \<forall>y \<in> set new. (a, y) \<in> E \<and> y \<notin> set (a # as) \<Longrightarrow>
   \<forall>y. (a, y) \<in> E \<longrightarrow> y \<in> F \<union> set new \<Longrightarrow> stack_ok E F as (a # rest) \<Longrightarrow> stack_ok E F (a # as) stack"
  unfolding stack_ok.simps by blast

lemma stack_ok_mono: "stack_ok E F as stack \<Longrightarrow> F \<subseteq> F' \<Longrightarrow> stack_ok E F' as stack"
proof (induction as arbitrary: stack)
  case (Cons a as)
  from Cons.prems(1) obtain new rest where "a \<notin> set as" "stack = new @ a # rest"
    "\<forall>y \<in> set new. (a, y) \<in> E \<and> y \<notin> set (a # as)" "\<forall>y. (a, y) \<in> E \<longrightarrow> y \<in> F \<union> set new"
    "stack_ok E F as (a # rest)" by (rule stack_okE)
  then show ?case using Cons.IH Cons.prems(2) by (intro stack_okI [of a as stack new rest]) blast+
qed simp

lemma stack_ok_distinct: "stack_ok E F as stack \<Longrightarrow> distinct as"
  by (induction as arbitrary: stack) (auto elim: stack_okE)

text \<open>What lies on top of an ancestor's copy is the copy itself or a successor of it.\<close>

lemma stack_ok_hd:
  assumes "stack_ok E F (a # as) (x # stack)"
  shows "x = a \<or> (a, x) \<in> E \<and> x \<notin> set (a # as)"
  using assms
proof (rule stack_okE)
  fix new rest assume "x # stack = new @ a # rest" "\<forall>y \<in> set new. (a, y) \<in> E \<and> y \<notin> set (a # as)"
  then show ?thesis by (cases new) auto
qed

lemma stack_ok_reach: "stack_ok E F (a # as) stack \<Longrightarrow> b \<in> set as \<Longrightarrow> (b, a) \<in> E\<^sup>+"
proof (induction as arbitrary: a stack)
  case (Cons c cs)
  from Cons.prems(1) obtain rest where s: "stack_ok E F (c # cs) (a # rest)" and ne: "a \<noteq> c"
    by (auto elim: stack_okE)
  then have "(c, a) \<in> E" using stack_ok_hd [OF s] by blast
  then show ?case using Cons.IH [OF s] Cons.prems(2) by (cases "b = c") (auto intro: trancl_into_trancl)
qed simp

text \<open>The top of the stack when it is new.\<close>

lemma stack_ok_top:
  assumes "stack_ok E F as (x # stack)" and "x \<notin> set as" and "b \<in> set as"
  shows "(b, x) \<in> E\<^sup>+"
proof (cases as)
  case (Cons a as')
  then have "(a, x) \<in> E" using stack_ok_hd assms(1,2) by fastforce
  moreover have "b = a \<or> (b, a) \<in> E\<^sup>+" using stack_ok_reach assms(1,3) unfolding Cons by fastforce
  ultimately show ?thesis by (auto intro: trancl_into_trancl)
qed (use assms(3) in simp)

lemma stack_ok_push:
  assumes "stack_ok E F as (x # stack)" and "x \<notin> set as"
    and "\<forall>y \<in> set new. (x, y) \<in> E \<and> y \<notin> set (x # as)" and "\<forall>y. (x, y) \<in> E \<longrightarrow> y \<in> F \<union> set new"
  shows "stack_ok E F (x # as) (new @ x # stack)"
  using assms by (intro stack_okI) auto

text \<open>The top of the stack when it is met again: it is the last ancestor, and done.\<close>

lemma stack_ok_pop:
  assumes "stack_ok E F as (x # stack)" and "x \<in> set as"
  shows "\<exists>as'. as = x # as' \<and> stack_ok E (insert x F) as' stack \<and> (\<forall>y. (x, y) \<in> E \<longrightarrow> y \<in> F)"
proof -
  obtain a as' where as: "as = a # as'" using assms(2) by (cases as) auto
  have x: "x = a" using stack_ok_hd assms unfolding as by blast
  from assms(1) [unfolded as] obtain new rest where st: "x # stack = new @ a # rest" and new: "\<forall>y \<in> set new. y \<notin> set (a # as')"
    and sc: "\<forall>y. (a, y) \<in> E \<longrightarrow> y \<in> F \<union> set new" and ok: "stack_ok E F as' (a # rest)" and ne: "a \<notin> set as'"
    by (rule stack_okE) blast
  have nil: "new = []" using st new x by (cases new) auto
  then have rest: "stack = rest" using st by simp
  have "stack_ok E (insert x F) as' stack"
  proof (cases as')
    case Nil
    then show ?thesis using ok rest by simp
  next
    case (Cons b bs)
    from ok [unfolded Cons] obtain new' rest' where n: "b \<notin> set bs" "a # rest = new' @ b # rest'"
      "\<forall>y \<in> set new'. (b, y) \<in> E \<and> y \<notin> set (b # bs)"
      "\<forall>y. (b, y) \<in> E \<longrightarrow> y \<in> F \<union> set new'" "stack_ok E F bs (b # rest')" by (rule stack_okE)
    obtain new'' where new'': "new' = a # new''" using n(2) ne Cons by (cases new') auto
    show ?thesis
      unfolding Cons
    proof (rule stack_okI [OF n(1)])
      show "stack = new'' @ b # rest'" using n(2) new'' rest by simp
      show "\<forall>y \<in> set new''. (b, y) \<in> E \<and> y \<notin> set (b # bs)" using n(3) new'' by simp
      show "\<forall>y. (b, y) \<in> E \<longrightarrow> y \<in> insert x F \<union> set new''" using n(4) new'' x by auto
      show "stack_ok E (insert x F) bs (b # rest')" by (rule stack_ok_mono [OF n(5)]) blast
    qed
  qed
  then show ?thesis using sc nil x as by auto
qed

lemma directed_loop_sound:
  "directed_loop adjacency nodes ancestors stack \<Longrightarrow> stack_ok (adj_rel adjacency) UNIV (rev ancestors) stack \<Longrightarrow>
   \<exists>x. (x, x) \<in> (adj_rel adjacency)\<^sup>+"
proof (induction adjacency nodes ancestors stack rule: directed_loop.induct)
  case (1 adjacency nodes ancestors)
  then show ?case by (cases nodes) auto
next
  case (2 adjacency nodes ancestors x stack)
  let ?E = "adj_rel adjacency"
  show ?case
  proof (cases "x \<in> set ancestors")
    case True
    obtain as' where as': "rev ancestors = x # as'" "stack_ok ?E UNIV as' stack"
      using stack_ok_pop [OF "2.prems"(2)] True by (auto simp: insert_UNIV)
    have "x \<notin> set as'" using stack_ok_distinct [OF "2.prems"(2)] as'(1) by simp
    moreover have "ancestors = rev as' @ [x]" using as'(1) by (metis rev.simps(2) rev_rev_ident)
    ultimately have "rev (set_delete x ancestors) = as'" by (simp add: set_delete_def)
    then show ?thesis using "2.IH"(2) True "2.prems"(1) as'(2) by simp
  next
    case False
    have adj: "(case map_of adjacency x of None \<Rightarrow> [] | Some ys \<Rightarrow> ys) = succs adjacency x" by (simp add: succs_def)
    have anc: "set_add x ancestors = ancestors @ [x]" using False by (simp add: set_add_def)
    show ?thesis
    proof (cases "list_ex (\<lambda>y. y \<in> set (set_add x ancestors)) (succs adjacency x)")
      case True
      then obtain y where y: "(x, y) \<in> ?E" "y = x \<or> y \<in> set ancestors" by (auto simp: list_ex_iff adj_rel_def)
      then have "y = x \<or> (y, x) \<in> ?E\<^sup>+" using stack_ok_top [OF "2.prems"(2)] False by auto
      then show ?thesis using y(1) by (auto intro: trancl_into_trancl2)
    next
      case no: False
      let ?new = "rev (filter (\<lambda>y. y \<in> set (set_delete x nodes)) (succs adjacency x))"
      have "stack_ok ?E UNIV (x # rev ancestors) (?new @ x # stack)"
        using no False by (intro stack_ok_push [OF "2.prems"(2)]) (auto simp: list_ex_iff adj_rel_def)
      then show ?thesis using "2.IH"(1) [OF False refl refl adj [symmetric]] no "2.prems"(1) False
        by (simp add: adj Let_def anc)
    qed
  qed
qed

text \<open>Completeness: the finished nodes are closed under successors and on no cycle.\<close>

definition finished_ok :: "(string \<times> string) set \<Rightarrow> string set \<Rightarrow> bool" where
  "finished_ok E F = (E `` F \<subseteq> F \<and> (\<forall>x \<in> F. (x, x) \<notin> E\<^sup>+))"

lemma finished_ok_insert:
  assumes F: "finished_ok E F" and x: "\<forall>y. (x, y) \<in> E \<longrightarrow> y \<in> F"
  shows "finished_ok E (insert x F)"
proof -
  have closed: "z \<in> F" if "(y, z) \<in> E\<^sup>*" "y \<in> F" for y z
    using that F by (induction rule: rtrancl_induct) (auto simp: finished_ok_def)
  have "(x, x) \<notin> E\<^sup>+"
  proof
    assume cyc: "(x, x) \<in> E\<^sup>+"
    then obtain y where "(x, y) \<in> E" "(y, x) \<in> E\<^sup>*" by (auto dest: tranclD)
    then have "x \<in> F" using x closed by blast
    then show False using cyc F by (simp add: finished_ok_def)
  qed
  then show ?thesis using F x by (auto simp: finished_ok_def)
qed

lemma directed_loop_complete:
  assumes "\<not> directed_loop adjacency nodes ancestors stack"
    and "stack_ok (adj_rel adjacency) F (rev ancestors) stack" and "finished_ok (adj_rel adjacency) F"
    and "adj_rel adjacency \<subseteq> N \<times> N" and "N \<subseteq> set nodes \<union> F \<union> set ancestors"
  shows "(x, x) \<notin> (adj_rel adjacency)\<^sup>+"
  using assms
proof (induction adjacency nodes ancestors stack arbitrary: F rule: directed_loop.induct)
  case (1 adjacency nodes ancestors)
  have anc: "ancestors = []" using "1.prems"(2) by (cases "rev ancestors") (auto elim: stack_okE)
  show ?case
  proof (cases nodes)
    case Nil
    then have "N \<subseteq> F" using "1.prems"(5) anc by simp
    show ?thesis
    proof
      assume "(x, x) \<in> (adj_rel adjacency)\<^sup>+"
      moreover from this have "x \<in> N" using "1.prems"(4) by (meson SigmaD1 subset_iff tranclD)
      ultimately show False using \<open>N \<subseteq> F\<close> "1.prems"(3) by (auto simp: finished_ok_def)
    qed
  next
    case (Cons n ns)
    have "\<not> directed_loop adjacency nodes [] [n]" using "1.prems"(1) Cons by simp
    then show ?thesis
      using "1.IH" [OF Cons, of F] "1.prems"(3-5) anc by simp
  qed
next
  case (2 adjacency nodes ancestors x stack)
  let ?E = "adj_rel adjacency"
  show ?case
  proof (cases "x \<in> set ancestors")
    case True
    obtain as' where as': "rev ancestors = x # as'" "stack_ok ?E (insert x F) as' stack" "\<forall>y. (x, y) \<in> ?E \<longrightarrow> y \<in> F"
      using stack_ok_pop [OF "2.prems"(2)] True by auto
    have "x \<notin> set as'" using stack_ok_distinct [OF "2.prems"(2)] as'(1) by simp
    moreover have "ancestors = rev as' @ [x]" using as'(1) by (metis rev.simps(2) rev_rev_ident)
    ultimately have "rev (set_delete x ancestors) = as'" by (simp add: set_delete_def)
    moreover have "\<not> directed_loop adjacency nodes (set_delete x ancestors) stack" using "2.prems"(1) True by simp
    moreover have "N \<subseteq> set nodes \<union> insert x F \<union> set (set_delete x ancestors)" using "2.prems"(5) by auto
    ultimately show ?thesis
      using "2.IH"(2) [of "insert x F"] True as'(2) finished_ok_insert [OF "2.prems"(3) as'(3)] "2.prems"(4) by simp
  next
    case False
    have adj: "(case map_of adjacency x of None \<Rightarrow> [] | Some ys \<Rightarrow> ys) = succs adjacency x" by (simp add: succs_def)
    have anc: "set_add x ancestors = ancestors @ [x]" using False by (simp add: set_add_def)
    let ?new = "rev (filter (\<lambda>y. y \<in> set (set_delete x nodes)) (succs adjacency x))"
    have no: "\<not> list_ex (\<lambda>y. y \<in> set (set_add x ancestors)) (succs adjacency x)"
      and rec: "\<not> directed_loop adjacency (set_delete x nodes) (ancestors @ [x]) (?new @ x # stack)"
      using "2.prems"(1) False by (auto simp: adj Let_def anc split: if_splits)
    have "y \<in> F \<union> set ?new" if "(x, y) \<in> ?E" for y
      using that no "2.prems"(4,5) by (auto simp: list_ex_iff adj_rel_def)
    then have "stack_ok ?E F (x # rev ancestors) (?new @ x # stack)"
      using no False by (intro stack_ok_push [OF "2.prems"(2)]) (auto simp: list_ex_iff adj_rel_def)
    moreover have "N \<subseteq> set (set_delete x nodes) \<union> F \<union> set (ancestors @ [x])" using "2.prems"(5) by auto
    ultimately show ?thesis
      using "2.IH"(1) [OF False refl refl adj [symmetric], of F] no rec "2.prems"(3,4)
      by (simp add: anc)
  qed
qed

lemma links_rel_nodes: "links_rel ls \<subseteq> set (link_nodes (map snd ls)) \<times> set (link_nodes (map snd ls))"
  by (auto simp: set_link_nodes Field_def)

lemma directed_loop_decides:
  "directed_loop (link_adjacency (map snd ls)) (link_nodes (map snd ls)) [] [] \<longleftrightarrow> (\<exists>x. (x, x) \<in> (links_rel ls)\<^sup>+)"
proof
  let ?A = "link_adjacency (map snd ls)"
  show "\<exists>x. (x, x) \<in> (links_rel ls)\<^sup>+" if "directed_loop ?A (link_nodes (map snd ls)) [] []"
    using directed_loop_sound [OF that] by (simp add: adj_rel_links)
  show "directed_loop ?A (link_nodes (map snd ls)) [] []" if "\<exists>x. (x, x) \<in> (links_rel ls)\<^sup>+"
  proof (rule ccontr)
    assume no: "\<not> directed_loop ?A (link_nodes (map snd ls)) [] []"
    have "(x, x) \<notin> (adj_rel ?A)\<^sup>+" for x
      using links_rel_nodes [of ls]
      by (intro directed_loop_complete [OF no, where F = "{}" and N = "set (link_nodes (map snd ls))"])
        (auto simp: finished_ok_def adj_rel_links)
    then show False using that by (auto simp: adj_rel_links)
  qed
qed

subsection \<open>The undirected search\<close>

text \<open>An undirected graph is a symmetric relation. It has a cycle when the ends of some edge stay
  connected without it (an edge from a node to itself is a cycle).\<close>

definition undirected_cycle :: "(string \<times> string) set \<Rightarrow> bool" where
  "undirected_cycle E = (\<exists>(a, b) \<in> E. (a, b) \<in> (E - {(a, b), (b, a)})\<^sup>*)"

text \<open>A new leaf closes no cycle.\<close>

lemma leaf_path:
  assumes "(u, v) \<in> (R \<union> {(p, x), (x, p)})\<^sup>*" and "R \<subseteq> C \<times> C" and "x \<notin> C" and "u \<noteq> x"
  shows "if v = x then (u, p) \<in> R\<^sup>* else (u, v) \<in> R\<^sup>*"
  using assms
proof (induction rule: rtrancl_induct)
  case (step v w)
  have ih: "if v = x then (u, p) \<in> R\<^sup>* else (u, v) \<in> R\<^sup>*" using step by blast
  show ?case
  proof (cases "(v, w) \<in> R")
    case True
    then have "v \<noteq> x" "w \<noteq> x" using step.prems by auto
    then show ?thesis using ih True by (auto intro: rtrancl_into_rtrancl)
  next
    case False
    then have "v = p \<and> w = x \<or> v = x \<and> w = p" using step.hyps(2) by auto
    then show ?thesis using ih by (auto split: if_splits)
  qed
qed simp

lemma leaf_acyclic:
  assumes T: "T \<subseteq> C \<times> C" and x: "x \<notin> C" and p: "p \<in> C" and ac: "\<not> undirected_cycle T"
  shows "\<not> undirected_cycle (T \<union> {(p, x), (x, p)})"
proof
  let ?T = "T \<union> {(p, x), (x, p)}"
  assume "undirected_cycle ?T"
  then obtain a b where ab: "(a, b) \<in> ?T" "(a, b) \<in> (?T - {(a, b), (b, a)})\<^sup>*"
    unfolding undirected_cycle_def by blast
  have px: "p \<noteq> x" using x p by auto
  have no: "(p, x) \<notin> T\<^sup>*" "(x, p) \<notin> T\<^sup>*"
  proof -
    show "(p, x) \<notin> T\<^sup>*"
    proof
      assume "(p, x) \<in> T\<^sup>*"
      then show False using px T x by (cases rule: rtranclE) auto
    qed
    show "(x, p) \<notin> T\<^sup>*"
    proof
      assume "(x, p) \<in> T\<^sup>*"
      then show False using px T x by (cases rule: converse_rtranclE) auto
    qed
  qed
  show False
  proof (cases "(a, b) \<in> T")
    case True
    have "?T - {(a, b), (b, a)} \<subseteq> (T - {(a, b), (b, a)}) \<union> {(p, x), (x, p)}" by auto
    then have "(a, b) \<in> (T - {(a, b), (b, a)} \<union> {(p, x), (x, p)})\<^sup>*"
      using ab(2) rtrancl_mono by blast
    moreover have "a \<noteq> x" and bx: "b \<noteq> x" using True T x by auto
    moreover have "T - {(a, b), (b, a)} \<subseteq> C \<times> C" using T by blast
    ultimately have "if b = x then (a, p) \<in> (T - {(a, b), (b, a)})\<^sup>* else (a, b) \<in> (T - {(a, b), (b, a)})\<^sup>*"
      using x by (intro leaf_path)
    then have "(a, b) \<in> (T - {(a, b), (b, a)})\<^sup>*" using bx by (simp only: if_False)
    then show False using ac True by (auto simp: undirected_cycle_def)
  next
    case False
    then have "a = p \<and> b = x \<or> a = x \<and> b = p" using ab(1) by auto
    moreover have "?T - {(p, x), (x, p)} \<subseteq> T" by auto
    ultimately have "(a, b) \<in> T\<^sup>*" using ab(2) rtrancl_mono [of "?T - {(p, x), (x, p)}" T] by (auto simp: insert_commute)
    then show False using \<open>a = p \<and> b = x \<or> a = x \<and> b = p\<close> no by auto
  qed
qed

text \<open>The state of the search: \<open>V\<close> are the visited nodes, \<open>C\<close> those of the current component and
  \<open>T\<close> the edges walked, in both directions.\<close>

definition forest_ok :: "(string \<times> string) set \<Rightarrow> string set \<Rightarrow> string set \<Rightarrow> (string \<times> string) set \<Rightarrow> (string \<times> string) list \<Rightarrow> bool" where
  "forest_ok E V C T stack =
     (T \<subseteq> E \<and> T \<subseteq> V \<times> V \<and> sym T \<and> \<not> undirected_cycle T \<and>
      C \<subseteq> V \<and> C \<times> C \<subseteq> T\<^sup>* \<and> E `` (V - C) \<subseteq> V - C \<and>
      distinct stack \<and> (\<forall>(p, y) \<in> set stack. (p, y) \<in> E \<and> p \<in> C \<and> (p, y) \<notin> T) \<and>
      (\<forall>(a, b) \<in> E. a \<in> V \<longrightarrow> (a, b) \<in> T \<or> (a, b) \<in> set stack \<or> (b, a) \<in> set stack))"

lemma forest_okD:
  assumes "forest_ok E V C T stack"
  shows "T \<subseteq> E" "T \<subseteq> V \<times> V" "sym T" "\<not> undirected_cycle T" "C \<subseteq> V" "C \<times> C \<subseteq> T\<^sup>*" "E `` (V - C) \<subseteq> V - C"
    and "distinct stack" "(p, y) \<in> set stack \<Longrightarrow> (p, y) \<in> E \<and> p \<in> C \<and> (p, y) \<notin> T"
    and "(a, b) \<in> E \<Longrightarrow> a \<in> V \<Longrightarrow> (a, b) \<in> T \<or> (a, b) \<in> set stack \<or> (b, a) \<in> set stack"
  using assms unfolding forest_ok_def by auto

lemma forest_okI:
  assumes "T \<subseteq> E" "T \<subseteq> V \<times> V" "sym T" "\<not> undirected_cycle T" "C \<subseteq> V" "C \<times> C \<subseteq> T\<^sup>*" "E `` (V - C) \<subseteq> V - C"
    and "distinct stack" "\<And>p y. (p, y) \<in> set stack \<Longrightarrow> (p, y) \<in> E \<and> p \<in> C \<and> (p, y) \<notin> T"
    and "\<And>a b. (a, b) \<in> E \<Longrightarrow> a \<in> V \<Longrightarrow> (a, b) \<in> T \<or> (a, b) \<in> set stack \<or> (b, a) \<in> set stack"
  shows "forest_ok E V C T stack"
  using assms unfolding forest_ok_def by blast

lemma distinct_pairs: "distinct (map (Pair x) ys) = distinct ys"
  by (simp add: distinct_map inj_on_def)

lemma forest_ok_start:
  assumes f: "forest_ok E V C T []" and x: "x \<notin> V" and adj: "set adj = E `` {x}" "distinct adj"
  shows "forest_ok E (insert x V) {x} T (rev (map (Pair x) adj))"
proof (rule forest_okI)
  note D = forest_okD [OF f]
  show "E `` (insert x V - {x}) \<subseteq> insert x V - {x}" using D(2,10) x by fastforce
  show "(a, b) \<in> T \<or> (a, b) \<in> set (rev (map (Pair x) adj)) \<or> (b, a) \<in> set (rev (map (Pair x) adj))"
    if "(a, b) \<in> E" "a \<in> insert x V" for a b
    using that D(10) [of a b] adj(1) by (cases "a = x") auto
  show "(q, y) \<in> E \<and> q \<in> {x} \<and> (q, y) \<notin> T" if "(q, y) \<in> set (rev (map (Pair x) adj))" for q y
    using that adj(1) D(2) x by auto
qed (use forest_okD [OF f] adj in \<open>auto simp: distinct_pairs\<close>)

lemma forest_ok_hit:
  assumes f: "forest_ok E V C T ((p, x) # stack)" and x: "x \<in> V" and E: "sym E"
  shows "undirected_cycle E"
proof -
  note D = forest_okD [OF f]
  have e: "(p, x) \<in> E" "p \<in> C" "(p, x) \<notin> T" using D(9) [of p x] by auto
  have "(x, p) \<in> E" using e(1) E by (rule symD [rotated])
  then have "x \<in> C" using D(7) x e(2) by blast
  then have "(p, x) \<in> T\<^sup>*" using D(6) e(2) by blast
  moreover have "(x, p) \<notin> T" using e(3) D(3) by (blast dest: symD)
  then have "T \<subseteq> E - {(p, x), (x, p)}" using D(1) e(3) by blast
  ultimately have "(p, x) \<in> (E - {(p, x), (x, p)})\<^sup>*" using rtrancl_mono by blast
  then show ?thesis using e(1) unfolding undirected_cycle_def by blast
qed

lemma forest_ok_visit:
  assumes f: "forest_ok E V C T ((p, x) # stack)" and x: "x \<notin> V" and E: "sym E"
    and adj: "set adj = E `` {x} - {p}" "distinct adj"
  shows "forest_ok E (insert x V) (insert x C) (T \<union> {(p, x), (x, p)}) (rev (map (Pair x) adj) @ stack)"
proof (rule forest_okI)
  let ?T = "T \<union> {(p, x), (x, p)}"
  note D = forest_okD [OF f]
  have e: "(p, x) \<in> E" "p \<in> C" using D(9) [of p x] by auto
  have e': "(x, p) \<in> E" using e(1) E by (rule symD [rotated])
  have pV: "p \<in> V" using e(2) D(5) by blast
  have nT: "(x, y) \<notin> T" "(y, x) \<notin> T" for y using D(2) x by auto
  have mono: "T\<^sup>* \<subseteq> ?T\<^sup>*" by (rule rtrancl_mono) blast
  have "(x, c) \<in> ?T\<^sup>*" "(c, x) \<in> ?T\<^sup>*" if "c \<in> C" for c
  proof -
    have "(p, c) \<in> T\<^sup>*" "(c, p) \<in> T\<^sup>*" using D(6) e(2) that by blast+
    then have "(p, c) \<in> ?T\<^sup>*" "(c, p) \<in> ?T\<^sup>*" using mono by blast+
    then show "(x, c) \<in> ?T\<^sup>*" "(c, x) \<in> ?T\<^sup>*" by (auto intro: converse_rtrancl_into_rtrancl rtrancl_into_rtrancl)
  qed
  then show "insert x C \<times> insert x C \<subseteq> ?T\<^sup>*" using D(6) mono by blast
  show "\<not> undirected_cycle ?T" using leaf_acyclic [OF D(2) x pV D(4)] .
  have "insert x V - insert x C = V - C" using x by auto
  then show "E `` (insert x V - insert x C) \<subseteq> insert x V - insert x C" using D(7) by simp
  show "?T \<subseteq> E" using D(1) e(1) e' by blast
  show "?T \<subseteq> insert x V \<times> insert x V" using D(2) pV by blast
  show "sym ?T" using D(3) by (auto simp: sym_def)
  show "insert x C \<subseteq> insert x V" using D(5) by blast
  have old: "(q, y) \<in> E \<and> q \<in> C \<and> (q, y) \<notin> T" if "(q, y) \<in> set stack" for q y using D(9) [of q y] that by simp
  show "distinct (rev (map (Pair x) adj) @ stack)" using D(8) old D(5) x adj(2) by (auto simp: distinct_pairs)
  show "(q, y) \<in> E \<and> q \<in> insert x C \<and> (q, y) \<notin> ?T" if "(q, y) \<in> set (rev (map (Pair x) adj) @ stack)" for q y
  proof (cases "(q, y) \<in> set stack")
    case True
    then show ?thesis using old [OF True] D(5,8) x by auto
  next
    case False
    then show ?thesis using that adj(1) nT pV x by auto
  qed
  show "(a, b) \<in> ?T \<or> (a, b) \<in> set (rev (map (Pair x) adj) @ stack) \<or> (b, a) \<in> set (rev (map (Pair x) adj) @ stack)"
    if "(a, b) \<in> E" "a \<in> insert x V" for a b
    using that D(10) [of a b] adj(1) by (cases "a = x") auto
qed

lemma forest_ok_end: "forest_ok E V C T [] \<Longrightarrow> E \<subseteq> V \<times> V \<Longrightarrow> \<not> undirected_cycle E"
proof -
  assume f: "forest_ok E V C T []" and E: "E \<subseteq> V \<times> V"
  then have "E = T" using forest_okD(1,10) [OF f] by auto
  then show ?thesis using forest_okD(4) [OF f] by simp
qed

lemma undirected_loop_decides:
  assumes "sym (adj_rel adjacency)" and "adj_rel adjacency \<subseteq> N \<times> N"
    and "\<And>x. x \<in> N \<Longrightarrow> \<exists>ys. map_of adjacency x = Some ys \<and> distinct ys"
    and "forest_ok (adj_rel adjacency) (N - set nodes) C T stack" and "set nodes \<subseteq> N"
  shows "undirected_loop adjacency nodes stack = Inr (undirected_cycle (adj_rel adjacency))"
  using assms
proof (induction adjacency nodes stack arbitrary: C T rule: undirected_loop.induct)
  case (1 adjacency nodes)
  let ?E = "adj_rel adjacency"
  show ?case
  proof (cases nodes)
    case Nil
    then show ?thesis using forest_ok_end [OF "1.prems"(4)] "1.prems"(2) by simp
  next
    case (Cons x xs)
    then have x: "x \<in> N" "x \<in> set nodes" using "1.prems"(5) by auto
    then obtain ys where ys: "map_of adjacency x = Some ys" "distinct ys" using "1.prems"(3) by blast
    have E: "set ys = ?E `` {x}" using ys by (auto simp: adj_rel_def succs_def)
    have V: "N - set (set_delete x nodes) = insert x (N - set nodes)" using x by auto
    have "forest_ok ?E (N - set (set_delete x nodes)) {x} T (rev (map (Pair x) ys))"
      unfolding V using x E ys(2) by (intro forest_ok_start [OF "1.prems"(4)]) auto
    then show ?thesis
      using "1.IH" [OF Cons ys(1) "1.prems"(1-3)] "1.prems"(5) Cons ys(1) by auto
  qed
next
  case (2 adjacency nodes p x stack)
  let ?E = "adj_rel adjacency"
  have e: "(p, x) \<in> ?E" using forest_okD(9) [OF "2.prems"(4), of p x] by simp
  then have x: "x \<in> N" using "2.prems"(2) by blast
  show ?case
  proof (cases "x \<in> set nodes")
    case False
    then show ?thesis using forest_ok_hit [OF "2.prems"(4) _ "2.prems"(1)] x by simp
  next
    case True
    obtain ys where ys: "map_of adjacency x = Some ys" "distinct ys" using x "2.prems"(3) by blast
    let ?ys = "filter (\<lambda>y. y \<noteq> p) ys"
    have E: "set ?ys = ?E `` {x} - {p}" using ys by (auto simp: adj_rel_def succs_def)
    have V: "N - set (set_delete x nodes) = insert x (N - set nodes)" using x True by auto
    have "forest_ok ?E (N - set (set_delete x nodes)) (insert x C) (T \<union> {(p, x), (x, p)}) (rev (map (Pair x) ?ys) @ stack)"
      unfolding V using True E ys(2) by (intro forest_ok_visit [OF "2.prems"(4) _ "2.prems"(1)]) auto
    then show ?thesis
      using "2.IH" [OF _ ys(1) "2.prems"(1-3)] "2.prems"(5) True ys(1) by auto
  qed
qed

subsection \<open>The links of a data sample\<close>

text \<open>The text of a link is split back at its blank, and the text of a reference at its slash.\<close>

definition plain_name :: "string \<Rightarrow> bool" where
  "plain_name s = list_all name_char s"

definition plain_link :: "dlink \<Rightarrow> bool" where
  "plain_link l =
     (plain_name (inst_node (link_src l)) \<and> 0 \<le> inst_index (link_src l) \<and>
      plain_name (inst_node (link_dst l)) \<and> 0 \<le> inst_index (link_dst l))"

text \<open>Links under their own text.\<close>

definition canonical_links :: "links \<Rightarrow> bool" where
  "canonical_links ls = (distinct (map fst ls) \<and> (\<forall>(k, l) \<in> set ls. k = dump_Link l \<and> plain_link l))"

lemma blank_is_space [simp]: "is_space CHR '' ''"
  by code_simp

lemma slash_chars [simp]: "\<not> is_space CHR ''/''" "\<not> name_char CHR ''/''"
  by code_simp+

lemma name_char_not_space: "name_char c \<Longrightarrow> \<not> is_space c"
  by (auto simp: name_char_def name_start_def is_digit_def is_lower_def is_space_def)

lemma dumpInstanceId_chars:
  assumes "plain_name (inst_node x)" and "0 \<le> inst_index x" and "c \<in> set (dumpInstanceId x)"
  shows "\<not> is_space c"
proof -
  have "c \<in> set (inst_node x) \<or> c = CHR ''/'' \<or> c \<in> set (digits_of (nat (inst_index x)))"
    using assms(3) unfolding dumpInstanceId_def int_text_nonneg [OF assms(2)] by auto
  then show ?thesis
  proof (elim disjE)
    assume "c \<in> set (inst_node x)"
    then have "name_char c" using assms(1) unfolding plain_name_def list_all_iff by blast
    then show ?thesis by (rule name_char_not_space)
  next
    assume "c \<in> set (digits_of (nat (inst_index x)))"
    then show ?thesis using name_char_not_space digit_facts digits_facts by blast
  qed simp
qed

lemma dumpInstanceId_nonempty [simp]: "dumpInstanceId x \<noteq> []"
  by (simp add: dumpInstanceId_def)

lemma loadInstnceId_dump:
  assumes "plain_name (inst_node x)" and "0 \<le> inst_index x"
  shows "loadInstnceId (dumpInstanceId x) = Inr x"
proof -
  have "CHR ''/'' \<notin> set (inst_node x)" "CHR ''/'' \<notin> set (digits_of (nat (inst_index x)))"
    using assms(1) digit_facts digits_facts slash_chars(2) unfolding plain_name_def list_all_iff by blast+
  then have "split_on CHR ''/'' (dumpInstanceId x) = [inst_node x, digits_of (nat (inst_index x))]"
    using assms(2) by (simp add: dumpInstanceId_def int_text_nonneg split_on_append split_on_single)
  then show ?thesis using assms(2) by (simp add: loadInstnceId_def new_InstanceId_def)
qed

lemma split_dump_Link:
  assumes "plain_link l"
  shows "split_on CHR '' '' (dump_Link l) = [dumpInstanceId (link_src l), dumpInstanceId (link_dst l)]"
    and "words (dump_Link l) = [dumpInstanceId (link_src l), dumpInstanceId (link_dst l)]"
proof -
  let ?s = "dumpInstanceId (link_src l)" and ?d = "dumpInstanceId (link_dst l)"
  have c: "\<forall>c \<in> set ?s. \<not> is_space c" "\<forall>c \<in> set ?d. \<not> is_space c"
    using assms dumpInstanceId_chars unfolding plain_link_def by blast+
  then have b: "CHR '' '' \<notin> set ?s" "CHR '' '' \<notin> set ?d" using blank_is_space by blast+
  have d: "dump_Link l = ?s @ CHR '' '' # ?d" by (simp add: dump_Link_def)
  show "split_on CHR '' '' (dump_Link l) = [?s, ?d]"
    unfolding d split_on_append [OF b(1)] split_on_single [OF b(2)] by (rule refl)
  have "words (join '' '' [?s, ?d]) = [?s, ?d]" using c by (intro words_join) auto
  then show "words (dump_Link l) = [?s, ?d]" by (simp add: dump_Link_def)
qed

lemma reference_format_dump:
  assumes "plain_name (inst_node x)" and "0 \<le> inst_index x"
  shows "reference_format (dumpInstanceId x)"
proof -
  have "dropWhile name_char (dumpInstanceId x) = CHR ''/'' # digits_of (nat (inst_index x))"
    using assms by (simp add: dumpInstanceId_def plain_name_def list_all_iff dropWhile_append int_text_nonneg)
  then show ?thesis using digits_of_digits by (simp add: reference_format_def)
qed

lemma load_Link_dump:
  assumes "plain_link l"
  shows "load_Link (dump_Link l) = Inr l" and "normalize_space (dump_Link l) = dump_Link l" and "dump_Link l \<noteq> []"
proof -
  note p = assms [unfolded plain_link_def] and s = split_dump_Link [OF assms]
  have "link_format (dump_Link l)" using p s(2) by (simp add: link_format_def reference_format_dump)
  then show "load_Link (dump_Link l) = Inr l" using p s(1) by (simp add: load_Link_def loadInstnceId_dump)
  show "normalize_space (dump_Link l) = dump_Link l" unfolding normalize_space_def s(2) by (simp add: dump_Link_def)
  show "dump_Link l \<noteq> []" by (simp add: dump_Link_def)
qed

lemma jmap_set_new: "k \<notin> set (map fst m) \<Longrightarrow> jmap_set k v m = m @ [(k, v)]"
  by (induction k v m rule: jmap_set.induct) auto

lemma loadLinks_lines_dump:
  "canonical_links (ls @ ms) \<Longrightarrow> loadLinks_lines (dumpLinks_lines ms) ls = Inr (ls @ ms)"
proof (induction ms arbitrary: ls)
  case (Cons kl ms)
  obtain k l where kl: "kl = (k, l)" by (cases kl)
  have k: "k = dump_Link l" "plain_link l" "k \<notin> set (map fst ls)" using Cons.prems kl by (auto simp: canonical_links_def)
  have "loadLinks_lines (dumpLinks_lines ms) (ls @ [(k, l)]) = Inr (ls @ (k, l) # ms)"
    using Cons.IH [of "ls @ [(k, l)]"] Cons.prems kl by simp
  then show ?case
    using k load_Link_dump [OF k(2)] by (simp add: dumpLinks_lines_def kl jmap_set_new Let_def)
qed (simp add: dumpLinks_lines_def)

text \<open>On canonical links, \<^verbatim>\<open>isUndirected\<close> is symmetry of the edge relation.\<close>

lemma dump_Link_eq:
  assumes "plain_link l" and "plain_link l'"
  shows "dump_Link l = dump_Link l' \<longleftrightarrow> edge_of l = edge_of l'"
proof
  assume "dump_Link l = dump_Link l'"
  then have "split_on CHR '' '' (dump_Link l) = split_on CHR '' '' (dump_Link l')" by simp
  then show "edge_of l = edge_of l'" unfolding split_dump_Link(1) [OF assms(1)] split_dump_Link(1) [OF assms(2)] edge_of_def by simp
next
  assume "edge_of l = edge_of l'"
  then show "dump_Link l = dump_Link l'" unfolding edge_of_def dump_Link_def by simp
qed

lemma isUndirected_sym:
  assumes "canonical_links ls"
  shows "isUndirected ls \<longleftrightarrow> sym (links_rel ls)"
proof -
  have pl: "plain_link l" if "l \<in> snd ` set ls" for l using that assms by (auto simp: canonical_links_def)
  have ks: "fst ` set ls = dump_Link ` snd ` set ls" using assms by (force simp: canonical_links_def image_iff)
  have rev: "plain_link (getReverse l)" "edge_of (getReverse l) = (snd (edge_of l), fst (edge_of l))"
    if "l \<in> snd ` set ls" for l using pl [OF that] by (auto simp: plain_link_def getReverse_def edge_of_def)
  have "dump_Link (getReverse l) \<in> fst ` set ls \<longleftrightarrow> (snd (edge_of l), fst (edge_of l)) \<in> links_rel ls"
    if "l \<in> snd ` set ls" for l
    unfolding ks links_rel_def using rev [OF that] dump_Link_eq [OF rev(1) [OF that] pl] by (auto simp: image_iff)
  then have "isUndirected ls \<longleftrightarrow> (\<forall>l \<in> snd ` set ls. (snd (edge_of l), fst (edge_of l)) \<in> links_rel ls)"
    by (auto simp: isUndirected_def list_all_iff)
  also have "\<dots> \<longleftrightarrow> (\<forall>e \<in> links_rel ls. (snd e, fst e) \<in> links_rel ls)"
    unfolding links_rel_def by simp
  also have "\<dots> \<longleftrightarrow> sym (links_rel ls)" by (force simp: sym_def)
  finally show ?thesis .
qed

lemma undirected_adjacency:
  assumes "canonical_links ls" and "sym (links_rel ls)" and x: "x \<in> set (link_nodes (map snd ls))"
  shows "\<exists>ys. map_of (link_adjacency (map snd ls)) x = Some ys \<and> distinct ys"
proof -
  let ?out = "filter (\<lambda>l. dumpInstanceId (link_src l) = x) (map snd ls)"
  have "x \<in> Domain (links_rel ls)" using x assms(2) by (auto simp: set_link_nodes Field_def sym_def)
  then have "succs (link_adjacency (map snd ls)) x \<noteq> []"
    by (fastforce simp: succs_links links_rel_def edge_of_def filter_empty_conv)
  then obtain ys where ys: "map_of (link_adjacency (map snd ls)) x = Some ys" by (auto simp: succs_def split: option.splits)
  have "distinct (map dump_Link (map snd ls))"
  proof -
    have "map dump_Link (map snd ls) = map fst ls" using assms(1) by (auto simp: canonical_links_def)
    moreover have "distinct (map fst ls)" using assms(1) by (simp add: canonical_links_def)
    ultimately show ?thesis by (simp only:)
  qed
  then have "distinct (map dump_Link ?out)" by (rule distinct_map_filter)
  then have "distinct (map (\<lambda>l. dumpInstanceId (link_dst l)) ?out)"
    by (simp add: distinct_map inj_on_def dump_Link_def)
  then have "distinct ys" using ys by (simp add: succs_links [symmetric] succs_def) (simp add: succs_def)?
  then show ?thesis using ys by blast
qed

lemma isFanin_loop_iff:
  "isFanin_loop u ls m \<longleftrightarrow>
     (\<exists>pre l post. ls = pre @ l # post \<and>
        (if u then 2 else 1) \<le> (case map_of m (dumpInstanceId (link_dst l)) of Some n \<Rightarrow> n | None \<Rightarrow> 0) +
          length (filter (\<lambda>l'. dumpInstanceId (link_dst l') = dumpInstanceId (link_dst l)) pre))"
  (is "_ \<longleftrightarrow> ?R ls m")
proof (induction u ls m rule: isFanin_loop.induct)
  case (2 u l ls m)
  define d where "d = dumpInstanceId (link_dst l)"
  define c where "c m' x = (case map_of m' x of Some n \<Rightarrow> n | None \<Rightarrow> 0)" for m' :: "(string, nat) jmap" and x
  define k where "k = (if u then 2 else 1 :: nat)"
  define occ where "occ x pre = length (filter (\<lambda>l'. dumpInstanceId (link_dst l') = x) pre)" for x and pre :: "dlink list"
  define R where "R ls m' = (\<exists>pre l post. ls = pre @ l # post \<and> k \<le> c m' (dumpInstanceId (link_dst l)) + occ (dumpInstanceId (link_dst l)) pre)"
    for ls :: "dlink list" and m'
  have c: "c (jmap_set d (c m d + 1) m) x = c m x + (if x = d then 1 else 0)" for x by (simp add: c_def)
  have occ: "occ x (l # pre) = (if x = d then 1 else 0) + occ x pre" for x pre by (auto simp: occ_def d_def)
  have R: "R (l # ls) m \<longleftrightarrow> k \<le> c m d \<or> R ls (jmap_set d (c m d + 1) m)"
  proof
    assume "R (l # ls) m"
    then obtain pre l' post where p: "l # ls = pre @ l' # post" "k \<le> c m (dumpInstanceId (link_dst l')) + occ (dumpInstanceId (link_dst l')) pre"
      unfolding R_def by blast
    then show "k \<le> c m d \<or> R ls (jmap_set d (c m d + 1) m)"
    proof (cases pre)
      case (Cons a pre')
      then have a: "a = l" "ls = pre' @ l' # post" using p(1) by auto
      then have "k \<le> c (jmap_set d (c m d + 1) m) (dumpInstanceId (link_dst l')) + occ (dumpInstanceId (link_dst l')) pre'"
        using p(2) unfolding c Cons a(1) occ by simp
      then show ?thesis using a(2) unfolding R_def by blast
    qed (auto simp: occ_def d_def)
  next
    assume "k \<le> c m d \<or> R ls (jmap_set d (c m d + 1) m)"
    then show "R (l # ls) m"
    proof
      assume "k \<le> c m d"
      then show ?thesis unfolding R_def by (intro exI [of _ "[]"] exI [of _ l] exI [of _ ls]) (simp add: d_def occ_def)
    next
      assume "R ls (jmap_set d (c m d + 1) m)"
      then obtain pre l' post where "ls = pre @ l' # post"
        "k \<le> c m (dumpInstanceId (link_dst l')) + occ (dumpInstanceId (link_dst l')) (l # pre)"
        unfolding R_def c occ by (auto simp: algebra_simps)
      then show ?thesis unfolding R_def by (intro exI [of _ "l # pre"] exI [of _ l'] exI [of _ post]) simp
    qed
  qed
  have step: "isFanin_loop u (l # ls) m \<longleftrightarrow> k \<le> c m d \<or> isFanin_loop u ls (jmap_set d (c m d + 1) m)"
    by (auto simp: Let_def c_def d_def k_def)
  show ?case
  proof (cases "k \<le> c m d")
    case True
    then show ?thesis using step R unfolding R_def c_def k_def occ_def by simp
  next
    case False
    then have "\<not> (u \<and> 2 \<le> c m d \<or> \<not> u \<and> 1 \<le> c m d)" by (auto simp: k_def)
    then show ?thesis
      using "2.IH" [OF refl refl, folded d_def c_def k_def occ_def] step R False unfolding R_def c_def k_def occ_def d_def by simp
  qed
qed simp

lemma nth_occurrence:
  "(\<exists>pre l post. ls = pre @ l # post \<and> n \<le> length (filter (\<lambda>l'. f l' = f l) pre)) \<longleftrightarrow>
     (\<exists>x. n < length (filter (\<lambda>l. f l = x) ls))"
proof
  assume "\<exists>pre l post. ls = pre @ l # post \<and> n \<le> length (filter (\<lambda>l'. f l' = f l) pre)"
  then show "\<exists>x. n < length (filter (\<lambda>l. f l = x) ls)" by force
next
  assume "\<exists>x. n < length (filter (\<lambda>l. f l = x) ls)"
  then obtain x where "n < length (filter (\<lambda>l. f l = x) ls)" by blast
  then show "\<exists>pre l post. ls = pre @ l # post \<and> n \<le> length (filter (\<lambda>l'. f l' = f l) pre)"
  proof (induction ls rule: rev_induct)
    case (snoc a ls)
    show ?case
    proof (cases "n < length (filter (\<lambda>l. f l = x) ls)")
      case True
      then obtain pre l post where "ls = pre @ l # post" "n \<le> length (filter (\<lambda>l'. f l' = f l) pre)" using snoc.IH by blast
      then show ?thesis by (intro exI [of _ pre] exI [of _ l] exI [of _ "post @ [a]"]) simp
    next
      case False
      then have "f a = x" "n \<le> length (filter (\<lambda>l. f l = x) ls)" using snoc.prems by (auto split: if_splits)
      then show ?thesis by (intro exI [of _ ls] exI [of _ a] exI [of _ "[]"]) simp
    qed
  qed simp
qed

subsection \<open>What reading accepts\<close>

lemma takeWhile_reference:
  assumes "reference_format w" and "loadInstnceId w = Inr x"
  shows "plain_name (inst_node x) \<and> 0 \<le> inst_index x"
proof -
  let ?n = "takeWhile name_char w"
  have n: "list_all name_char ?n" by (auto simp: list_all_iff dest: set_takeWhileD)
  then have ns: "CHR ''/'' \<notin> set ?n" using slash_chars(2) by (auto simp: list_all_iff)
  have w: "w = ?n @ dropWhile name_char w" by simp
  show ?thesis
  proof (cases "dropWhile name_char w")
    case Nil
    then have "split_on CHR ''/'' w = [w]" using w ns by (metis append_Nil2 split_on_single)
    then show ?thesis using assms(2) by (simp add: loadInstnceId_def new_InstanceId_def)
  next
    case (Cons c ds)
    then have c: "c = CHR ''/''" "list_all is_digit ds" using assms(1) by (auto simp: reference_format_def)
    have "CHR ''/'' \<notin> set ds" using c(2) not_digits by (auto simp: list_all_iff)
    then have "split_on CHR ''/'' w = [?n, ds]" using w ns c(1) Cons split_on_append split_on_single by metis
    then have x: "inst_node x = ?n" "parse_int ds = Some (inst_index x)"
      using assms(2) by (auto simp: loadInstnceId_def new_InstanceId_def split: option.splits)
    have "dropWhile is_space ds = ds" "ds \<noteq> []" "hd ds \<noteq> CHR ''-''" if "ds \<noteq> []"
      using that c(2) digit_not_space not_digits by (cases ds; auto)+
    then have "0 \<le> inst_index x" using x(2) by (cases "ds = []") (auto simp: parse_int_def Let_def split: if_splits)
    then show ?thesis using n x(1) by (simp add: plain_name_def)
  qed
qed

lemma split_join_words:
  assumes "words s = [u, v]"
  shows "split_on CHR '' '' (normalize_space s) = [u, v]"
proof -
  have "\<forall>c \<in> set u. \<not> is_space c" "\<forall>c \<in> set v. \<not> is_space c" using words_nonspace [of _ s] assms by auto
  then have b: "CHR '' '' \<notin> set u" "CHR '' '' \<notin> set v" using blank_is_space by blast+
  have n: "normalize_space s = u @ CHR '' '' # v" using assms by (simp add: normalize_space_def)
  show ?thesis unfolding n split_on_append [OF b(1)] split_on_single [OF b(2)] by (rule refl)
qed

lemma words_normalize: "words (normalize_space s) = words s"
  unfolding normalize_space_def using words_join words_nonspace by metis

lemma short_normalized:
  assumes "length (words s) < 2"
  shows "\<not> list_ex is_space (normalize_space s)"
proof (cases "words s")
  case (Cons w ws)
  then have "normalize_space s = w" using assms by (simp add: normalize_space_def)
  then show ?thesis using words_nonspace [of w s] Cons by (auto simp: list_ex_iff)
qed (simp add: normalize_space_def)

lemma load_Link_normalized:
  assumes "load_Link (normalize_space s) = Inr l"
  shows "plain_link l"
proof -
  have f: "link_format (normalize_space s)" using assms by (auto simp: load_Link_def split: if_splits)
  then have "length (words s) = 2" using short_normalized [of s] unfolding link_format_def words_normalize by blast
  then obtain u v where w: "words s = [u, v]" by (auto simp: numeral_2_eq_2 length_Suc_conv)
  have r: "reference_format u" "reference_format v" using f unfolding link_format_def words_normalize w by auto
  have "loadInstnceId u = Inr (link_src l)" "loadInstnceId v = Inr (link_dst l)"
    using assms f by (auto simp: load_Link_def split_join_words [OF w] bindE_eq_Inr)
  then show ?thesis using takeWhile_reference r unfolding plain_link_def by blast
qed

lemma loadLinks_lines_inv:
  assumes "loadLinks_lines lines m = Inr ls"
    and "distinct (map fst m)" and "\<forall>(k, l) \<in> set m. load_Link k = Inr l \<and> plain_link l"
  shows "distinct (map fst ls) \<and> (\<forall>(k, l) \<in> set ls. load_Link k = Inr l \<and> plain_link l)"
  using assms
proof (induction lines m rule: loadLinks_lines.induct)
  case (2 line lines m)
  let ?key = "normalize_space line"
  show ?case
  proof (cases "?key = []")
    case True
    then show ?thesis using 2 by simp
  next
    case False
    then obtain l where l: "load_Link ?key = Inr l" "loadLinks_lines lines (jmap_set ?key l m) = Inr ls"
      using "2.prems"(1) by (auto simp: Let_def bindE_eq_Inr)
    have "set (jmap_set k v m') \<subseteq> insert (k, v) (set m')" for k v and m' :: links
      by (induction k v m' rule: jmap_set.induct) auto
    then have "\<forall>(k, l) \<in> set (jmap_set ?key l m). load_Link k = Inr l \<and> plain_link l"
      using l(1) load_Link_normalized "2.prems"(3) by blast
    then show ?thesis using "2.IH"(2) [OF refl False l] "2.prems"(2) by simp
  qed
qed simp

subsection \<open>Counts and bounds\<close>

definition instances :: "links \<Rightarrow> instance_id set" where
  "instances ls = link_src ` set (map snd ls) \<union> link_dst ` set (map snd ls)"

definition max_index :: "int obj \<Rightarrow> string \<Rightarrow> int" where
  "max_index m n = (case map_of m n of Some i \<Rightarrow> i | None \<Rightarrow> 0)"

definition max_indices_of :: "instance_id set \<Rightarrow> int obj \<Rightarrow> bool" where
  "max_indices_of X m =
     ((\<forall>x \<in> X. \<not> inherited (inst_node x) \<longrightarrow> inst_index x \<le> max_index m (inst_node x)) \<and>
      (\<forall>n i. map_of m n = Some i \<longrightarrow> 0 < i \<and> (\<exists>x \<in> X. inst_node x = n \<and> inst_index x = i)))"

lemma raise_max_step: "max_indices_of X m \<Longrightarrow> max_indices_of (insert x X) (raise_max x m)"
  by (force simp: max_indices_of_def raise_max_def max_index_def split: option.splits if_splits)

lemma getMaxIndicesPerNode_correct: "max_indices_of (instances ls) (getMaxIndicesPerNode ls)"
proof -
  have "max_indices_of (X \<union> link_src ` set xs \<union> link_dst ` set xs) (fold (\<lambda>l m. raise_max (link_dst l) (raise_max (link_src l) m)) xs m)"
    if "max_indices_of X m" for X m and xs :: "dlink list"
    using that
  proof (induction xs arbitrary: X m)
    case (Cons l xs)
    have "max_indices_of (insert (link_dst l) (insert (link_src l) X)) (raise_max (link_dst l) (raise_max (link_src l) m))"
      by (intro raise_max_step Cons.prems)
    from Cons.IH [OF this] show ?case by (simp add: insert_commute Un_assoc)
  qed simp
  from this [of "{}" "[]" "map snd ls"] show ?thesis
    by (simp add: getMaxIndicesPerNode_def instances_def max_indices_of_def)
qed

definition count_key :: "dlink \<Rightarrow> string" where
  "count_key l = dumpInstanceId (link_src l) @ '' '' @ inst_node (link_dst l)"

lemma link_counts:
  "map_of (getLinkDestinationCounts ls) k =
     (let n = length (filter (\<lambda>l. count_key l = k) (map snd ls)) in if n = 0 then None else Some n)"
proof -
  define step where "step l counter =
      (let key = dumpInstanceId (link_src l) @ '' '' @ inst_node (link_dst l);
           count = (case map_of counter key of Some n \<Rightarrow> n | None \<Rightarrow> 0)
       in obj_put key (count + 1) counter)" for l :: dlink and counter :: "nat obj"
  define c where "c m = (case map_of m k of Some n \<Rightarrow> n | None \<Rightarrow> 0)" for m :: "nat obj"
  have "map_of (fold step xs m) k =
      (if map_of m k = None \<and> (\<forall>l \<in> set xs. count_key l \<noteq> k) then None
       else Some (c m + length (filter (\<lambda>l. count_key l = k) xs)))" for xs :: "dlink list" and m
  proof (induction xs arbitrary: m)
    case (Cons l xs)
    have "map_of (step l m) k = (if count_key l = k then Some (c m + 1) else map_of m k)"
      by (auto simp: step_def Let_def count_key_def c_def)
    then show ?case using Cons.IH [of "step l m"] by (auto simp: c_def)
  qed (auto simp: c_def)
  from this [of "map snd ls" "[]"] show ?thesis
    unfolding getLinkDestinationCounts_def step_def [symmetric]
    by (auto simp: c_def Let_def filter_empty_conv)
qed

subsection \<open>Properties\<close>

text \<open>C17. The directed search of \<^verbatim>\<open>isCyclic\<close> decides what it means to decide: it answers true exactly
  when some node can be reached from itself along the links. It holds for every collection of
  links, whatever the order of the links and whether or not components are revisited.\<close>

theorem isCyclic_directed: "isCyclic False ls = Inr (\<exists>x. (x, x) \<in> (links_rel ls)\<^sup>+)"
  by (simp only: isCyclic_def Let_def if_False directed_loop_decides)

text \<open>C18. On undirected links the search of \<^verbatim>\<open>isCyclic\<close> ends without an exception and answers true
  exactly when there is an edge whose ends remain connected after the edge is taken out. The
  links must be stored under their own text, since two spellings of one link count as two.\<close>

theorem isCyclic_undirected:
  assumes "canonical_links ls" and "isUndirected ls"
  shows "isCyclic True ls = Inr (undirected_cycle (links_rel ls))"
proof -
  have s: "sym (links_rel ls)" using assms isUndirected_sym by blast
  have "forest_ok (links_rel ls) (set (link_nodes (map snd ls)) - set (link_nodes (map snd ls))) {} {} []"
    by (auto simp: forest_ok_def undirected_cycle_def sym_def)
  then show ?thesis
    using undirected_loop_decides [of "link_adjacency (map snd ls)" "set (link_nodes (map snd ls))" "link_nodes (map snd ls)" "{}" "{}" "[]"]
      s links_rel_nodes [of ls] undirected_adjacency [OF assms(1) s]
    by (simp add: isCyclic_def adj_rel_links)
qed

definition demo_chain :: links where
  "demo_chain =
     map (\<lambda>(i, j). let l = \<lparr>link_src = \<lparr>inst_node = ''n'', inst_index = i\<rparr>, link_dst = \<lparr>inst_node = ''n'', inst_index = j\<rparr>\<rparr>
                   in (dump_Link l, l)) [(0, 1), (1, 0), (1, 2), (2, 1)]"

lemma demo_chain_facts: "canonical_links demo_chain" "isUndirected demo_chain"
  by code_simp+

theorem isCyclic_undirected_witness: "isCyclic True demo_chain = Inr (undirected_cycle (links_rel demo_chain))"
  by (rule isCyclic_undirected [OF demo_chain_facts])

text \<open>C19. \<^verbatim>\<open>isFanin\<close> answers true exactly when some instance is the destination of more than one
  link, or of more than two links when the links are undirected.\<close>

theorem isFanin_iff:
  "isFanin undirected ls =
     (\<exists>d. (if undirected then 2 else 1) < length (filter (\<lambda>l. dumpInstanceId (link_dst l) = d) (map snd ls)))"
  using isFanin_loop_iff [of undirected "map snd ls" "[]"]
    nth_occurrence [of "map snd ls" "if undirected then 2 else 1" "\<lambda>l. dumpInstanceId (link_dst l)"]
  by (simp add: isFanin_def)

text \<open>C20. Reading the lines that were written for a collection of links gives the same collection,
  with the same order.\<close>

theorem links_roundtrip:
  assumes "canonical_links ls"
  shows "loadLinks_lines (dumpLinks_lines ls) [] = Inr ls"
  using loadLinks_lines_dump [of "[]" ls] assms by simp

theorem links_roundtrip_witness: "loadLinks_lines (dumpLinks_lines demo_chain) [] = Inr demo_chain"
  by (rule links_roundtrip [OF demo_chain_facts(1)])

text \<open>C21. Whatever the lines are, a collection that is read has one entry per key, each key is the
  text of its link, and every link joins two instances with a plain node name and an index that
  is not negative.\<close>

theorem loadLinks_typed:
  assumes "loadLinks_lines lines [] = Inr ls"
  shows "distinct (map fst ls) \<and> (\<forall>(k, l) \<in> set ls. load_Link k = Inr l \<and> plain_link l)"
  using loadLinks_lines_inv [OF assms] by simp

definition demo_line :: dlink where
  "demo_line = \<lparr>link_src = \<lparr>inst_node = ''a'', inst_index = 0\<rparr>, link_dst = \<lparr>inst_node = ''b'', inst_index = 1\<rparr>\<rparr>"

theorem loadLinks_typed_witness: "load_Link ''a/0 b/01'' = Inr demo_line \<and> plain_link demo_line"
proof -
  have "loadLinks_lines [''  a/0   b/01 '', []] [] = Inr [(''a/0 b/01'', demo_line)]"
    by code_simp
  from loadLinks_typed [OF this] show ?thesis by simp
qed

text \<open>The format of a link makes the index of an instance optional, but a link to or from an
  instance without one is never read: \<^verbatim>\<open>InstanceId\<close> asserts that the index is an integer, so the
  attempt ends in an \<^verbatim>\<open>AssertionError\<close> and not in a \<^verbatim>\<open>DatasetException\<close>.\<close>

theorem link_without_index:
  assumes "plain_name a" "a \<noteq> []" and "plain_name b" "b \<noteq> []"
  shows "link_format (a @ '' '' @ b) \<and> load_Link (a @ '' '' @ b) = Inl AssertionError"
proof -
  have s: "\<forall>c \<in> set a. \<not> is_space c" "\<forall>c \<in> set b. \<not> is_space c"
    using assms(1,3) name_char_not_space by (auto simp: plain_name_def list_all_iff)
  then have w: "words (a @ CHR '' '' # b) = [a, b]" using words_join [of "[a, b]"] assms(2,4) by simp
  have bl: "CHR '' '' \<notin> set a" "CHR '' '' \<notin> set b" using s blank_is_space by blast+
  then have sp: "split_on CHR '' '' (a @ CHR '' '' # b) = [a, b]" using split_on_append [OF bl(1)] split_on_single [OF bl(2)] by simp
  have sl: "CHR ''/'' \<notin> set a" using assms(1) slash_chars(2) unfolding plain_name_def list_all_iff by blast
  have f: "link_format (a @ CHR '' '' # b)"
    using assms(1,3) unfolding link_format_def w
    by (simp add: reference_format_def plain_name_def list_all_iff dropWhile_eq_Nil_conv [THEN iffD2])
  have "loadInstnceId a = Inl AssertionError"
    unfolding loadInstnceId_def split_on_single [OF sl] by (simp add: new_InstanceId_def)
  then show ?thesis using f by (simp add: load_Link_def sp)
qed

theorem link_without_index_witness: "link_format ''src dst'' \<and> load_Link ''src dst'' = Inl AssertionError"
proof -
  have p: "plain_name ''src''" "plain_name ''dst''" by code_simp+
  show ?thesis using link_without_index [OF p(1) _ p(2)] by simp
qed

text \<open>\<^verbatim>\<open>getMaxIndicesPerNode\<close> bounds every index that occurs, and every bound is attained. Nodes
  whose only index is 0 have no entry, and node names that objects inherit escape the bound.\<close>

theorem max_indices_bound:
  "(\<forall>x \<in> instances ls. inherited (inst_node x) \<or> inst_index x \<le> max_index (getMaxIndicesPerNode ls) (inst_node x)) \<and>
   (\<forall>n i. map_of (getMaxIndicesPerNode ls) n = Some i \<longrightarrow>
      0 < i \<and> (\<exists>x \<in> instances ls. inst_node x = n \<and> inst_index x = i))"
  using getMaxIndicesPerNode_correct [of ls] unfolding max_indices_of_def by blast

theorem max_indices_bound_witness:
  "2 \<le> max_index (getMaxIndicesPerNode demo_chain) ''n'' \<and> map_of (getMaxIndicesPerNode demo_chain) ''n'' = Some 2 \<and> 0 < (2 :: int)"
proof -
  have m: "map_of (getMaxIndicesPerNode demo_chain) ''n'' = Some 2" by code_simp
  have i: "\<not> inherited ''n''" by code_simp
  have "\<lparr>inst_node = ''n'', inst_index = 2\<rparr> \<in> instances demo_chain"
    by (simp add: instances_def demo_chain_def Let_def)
  then have "2 \<le> max_index (getMaxIndicesPerNode demo_chain) ''n''"
    using max_indices_bound [of demo_chain] i by force
  moreover have "0 < (2 :: int)" using max_indices_bound [of demo_chain] m by blast
  ultimately show ?thesis using m by blast
qed

text \<open>\<^verbatim>\<open>getLinkDestinationCounts\<close> has an entry for a source instance and a destination node exactly
  when a link joins them, and the entry is the number of such links.\<close>

theorem destination_counts:
  "map_of (getLinkDestinationCounts ls) k =
     (let n = length (filter (\<lambda>l. count_key l = k) (map snd ls)) in if n = 0 then None else Some n)"
  by (rule link_counts)

end
