(* ===== verification/Infer_Correct.thy ===== *)
theory Infer_Correct
  imports Infer Links_Correct
begin

text \<open>
  What \<^verbatim>\<open>inferSchema\<close> guarantees: the schema it returns is well formed, every file of every sample is of
  the kind and dimensions that the schema says, and where it does not keep what the earlier samples
  had. The proofs follow the fold over the samples with invariants of \<open>infer_state\<close>.
\<close>
subsection \<open>Well-formedness\<close>

text \<open>Links are added to nodes whose names are checked only at the end, so a target that is a node counts
  as well named until then.\<close>

definition node_ok :: "string set \<Rightarrow> node \<Rightarrow> bool" where
  "node_ok names nd =
     (wf_node (nd\<lparr>node_links := []\<rparr>) \<and> (isSingleton nd \<longrightarrow> node_links nd = []) \<and>
      (\<forall>(k, l) \<in> set (node_links nd). wf_link l \<and> (k \<in> names \<or> name_format k)))"

definition nodes_ok :: "node obj \<Rightarrow> bool" where
  "nodes_ok nds = (\<forall>nd \<in> snd ` set nds. node_ok (set (keys nds)) nd)"

definition named_link :: "dlink \<Rightarrow> bool" where
  "named_link l = (plain_link l \<and> name_format (inst_node (link_dst l)))"

lemma node_ok_mono: "node_ok names nd \<Longrightarrow> names \<subseteq> names' \<Longrightarrow> node_ok names' nd"
  by (fastforce simp: node_ok_def)

lemma nodes_ok_put:
  assumes "nodes_ok nds" and "node_ok (insert k (set (keys nds))) nd"
  shows "nodes_ok (obj_put k nd nds)"
  unfolding nodes_ok_def
proof
  fix nd' assume "nd' \<in> snd ` set (obj_put k nd nds)"
  then have "nd' = nd \<or> nd' \<in> snd ` set nds" using set_obj_put [of _ k nd nds] by fastforce
  moreover have "node_ok (set (keys (obj_put k nd nds))) nd'" if "nd' \<in> snd ` set nds" for nd'
    using assms(1) that by (auto simp: nodes_ok_def intro: node_ok_mono)
  ultimately show "node_ok (set (keys (obj_put k nd nds))) nd'" using assms(2) by auto
qed

lemma nodes_ok_own: "nodes_ok nds \<Longrightarrow> get nds k = Own nd \<Longrightarrow> node_ok (set (keys nds)) nd"
  by (force simp: nodes_ok_def get_def split: option.splits if_splits dest: map_of_SomeD)

lemma node_ok_fresh: "wf_node nd \<Longrightarrow> node_links nd = [] \<Longrightarrow> node_ok names nd"
  by (cases nd) (simp add: node_ok_def)

lemma node_ok_wf: "node_ok names nd \<Longrightarrow> \<forall>k \<in> names. name_format k \<Longrightarrow> wf_node nd"
  by (auto simp: node_ok_def wf_node_def wf_node_shape_def list_all_iff keys_def)

lemma new_Node_shape:
  "new_Node (JBool b) (Dict fs) NullArg JNull = Inr nd \<Longrightarrow>
     nd = \<lparr>isSingleton = b, node_fields = fs, node_links = [], node_srcName = None\<rparr> \<and> wf_node_shape nd"
  using new_Node_wf_shape [of "JBool b" "Dict fs" NullArg JNull nd]
  by (auto simp: new_Node_def bindE_eq_Inr accepts name_to_js_def split: option.splits)

lemma singleton_node_ok: "singleton_node f = Inr nd \<Longrightarrow> wf_field f \<Longrightarrow> (\<forall>names. node_ok names nd) \<and> isSingleton nd \<and> node_fields nd = [(''field'', f)]"
  unfolding singleton_node_def by (drule new_Node_shape) (auto simp: wf_node_def intro: node_ok_fresh)

lemma wf_node_field: "node_ok names nd \<Longrightarrow> (k, f) \<in> set (node_fields nd) \<Longrightarrow> wf_field f"
  by (auto simp: wf_node_def node_ok_def)

lemma infer_tensor_ok: "infer_tensor s kc st = Inr st' \<Longrightarrow> nodes_ok (schNodes st) \<Longrightarrow> nodes_ok (schNodes st')"
  by (auto simp: infer_tensor_def bindE_eq_Inr accepts nodes_ok_put dest!: singleton_node_ok split: prod.splits if_splits)

lemma infer_category_ok: "infer_category cs s kc st = Inr st' \<Longrightarrow> nodes_ok (schNodes st) \<Longrightarrow> nodes_ok (schNodes st')"
  by (auto simp: infer_category_def bindE_eq_Inr accepts nodes_ok_put dest!: singleton_node_ok split: prod.splits if_splits)

definition fields_ok :: "field obj \<Rightarrow> bool" where
  "fields_ok fs = (\<forall>(k, f) \<in> set fs. wf_field f)"

lemma fields_ok_put: "fields_ok fs \<Longrightarrow> wf_field f \<Longrightarrow> fields_ok (obj_put k f fs)"
  using set_obj_put [of _ k f fs] by (fastforce simp: fields_ok_def)

lemma infer_field_ok:
  "infer_field cs first s n kc (fs, counts) = Inr (fs', counts') \<Longrightarrow> fields_ok fs \<Longrightarrow> fields_ok fs'"
  by (auto simp: infer_field_def Let_def bindE_eq_Inr accepts fields_ok_put split: prod.splits ds_file.splits if_splits)

lemma infer_node_ok:
  assumes "infer_node cs s kc (st, counts) = Inr (st', counts')" and "nodes_ok (schNodes st)"
  shows "nodes_ok (schNodes st')"
proof -
  obtain childName child where kc: "kc = (childName, child)" by (cases kc)
  obtain fs fs' nd where fs: "(if firstSample st then Inr []
               else
                 (case get (schNodes st) childName of
                    Own nd \<Rightarrow> if isSingleton nd then Inl (type_error childName [s]) else Inr (node_fields nd)
                  | _ \<Rightarrow> Inl TypeError)) = Inr fs"
    and f: "foldE (infer_field cs (firstSample st) s childName) (dir_children child) (fs, counts) = Inr (fs', counts')"
    and nd: "new_Node (JBool False) (Dict fs') NullArg JNull = Inr nd" "st' = st\<lparr>schNodes := obj_put childName nd (schNodes st)\<rparr>"
    using assms(1) unfolding infer_node_def kc by (auto simp: bindE_eq_Inr)
  have "fields_ok fs" using fs assms(2)
    by (auto simp: fields_ok_def dest!: nodes_ok_own intro: wf_node_field split: if_splits lookup.splits)
  then have "fields_ok fs'" using foldE_preserves [OF f, of "\<lambda>p. fields_ok (fst p)"] infer_field_ok by (metis prod.collapse fst_conv)
  then have "node_ok (insert childName (set (keys (schNodes st)))) nd"
    using new_Node_shape [OF nd(1)] by (auto simp: wf_node_def fields_ok_def intro!: node_ok_fresh)
  then show ?thesis using assms(2) by (simp add: nd(2) nodes_ok_put)
qed

text \<open>Adding a link to a node that has instances.\<close>

lemma node_ok_link:
  assumes "node_ok names nd" and "\<not> isSingleton nd" and "wf_link l" and "k \<in> names \<or> name_format k"
  shows "node_ok names (nd\<lparr>node_links := obj_put k l (node_links nd)\<rparr>)"
  using assms set_obj_put [of _ k l "node_links nd"] by (fastforce simp: node_ok_def)

lemma implicit_link_ok:
  assumes "implicit_link kn st = Inr st'" and "nodes_ok (schNodes st)" and "node_ok (set (keys (schNodes st))) (snd kn)"
  shows "nodes_ok (schNodes st')"
proof -
  obtain k nd where kn: "kn = (k, nd)" by (cases kn)
  have "node_ok (insert k (set (keys (schNodes st)))) nd" using node_ok_mono [OF assms(3)] by (auto simp: kn)
  then show ?thesis using assms(1,2) new_Link_wf [of "JInt 1"]
    by (auto simp: implicit_link_def bindE_eq_Inr nodes_ok_put node_ok_link kn split: if_splits)
qed

lemma widen_ok: "wf_link l \<Longrightarrow> 0 < cnt \<Longrightarrow> wf_link (widen cnt l)"
  by (auto simp: widen_def wf_link_def Let_def split: bound.splits)
lemma split_count_key:
  assumes "plain_link l"
  shows "split_on CHR '' '' (count_key l) = [dumpInstanceId (link_src l), inst_node (link_dst l)]"
proof -
  have s: "\<not> name_char CHR '' ''" by code_simp
  have "CHR '' '' \<notin> set (dumpInstanceId (link_src l))" "CHR '' '' \<notin> set (inst_node (link_dst l))"
    using assms dumpInstanceId_chars [of "link_src l" "CHR '' ''"] s unfolding plain_link_def plain_name_def list_all_iff by auto
  then show ?thesis using split_join [of "[dumpInstanceId (link_src l), inst_node (link_dst l)]" "CHR '' ''"]
    by (simp add: count_key_def)
qed

lemma destination_count_entry:
  "(k, n) \<in> set (getLinkDestinationCounts ls) \<Longrightarrow> 0 < n \<and> (\<exists>l \<in> snd ` set ls. k = count_key l)"
proof -
  define step where "step = (\<lambda>(l :: dlink) counter. let key = dumpInstanceId (link_src l) @ '' '' @ inst_node (link_dst l);
      count = (case map_of counter key of Some n \<Rightarrow> n | None \<Rightarrow> (0 :: nat)) in obj_put key (count + 1) counter)"
  have "0 < n \<and> ((\<exists>l \<in> set xs. k = count_key l) \<or> k \<in> fst ` set m)"
    if "(k, n) \<in> set (fold step xs m)" "\<forall>(k, n) \<in> set m. 0 < n" for xs m
    using that
  proof (induction xs arbitrary: m)
    case Nil
    then show ?case by force
  next
    case (Cons l xs)
    have s: "step l m = obj_put (count_key l) (case map_of m (count_key l) of Some n \<Rightarrow> n + 1 | None \<Rightarrow> 1) m"
      by (simp add: step_def Let_def count_key_def split: option.split)
    have "\<forall>(k, n) \<in> set (step l m). 0 < n" unfolding s using Cons.prems(2) set_obj_put [of _ "count_key l" _ m]
      by (fastforce split: option.splits)
    then have "0 < n \<and> ((\<exists>l \<in> set xs. k = count_key l) \<or> k \<in> fst ` set (step l m))" using Cons by simp
    then show ?case unfolding s using set_obj_put [of _ "count_key l" _ m] by fastforce
  qed
  then show "(k, n) \<in> set (getLinkDestinationCounts ls) \<Longrightarrow> 0 < n \<and> (\<exists>l \<in> snd ` set ls. k = count_key l)"
    unfolding getLinkDestinationCounts_def step_def [symmetric] by fastforce
qed

lemma infer_link_ok:
  assumes r: "infer_link s (k, n) nds = Inr nds'" and "nodes_ok nds" and "0 < n" and "k = count_key l" and "named_link l"
  shows "nodes_ok nds'"
proof -
  let ?dst = "inst_node (link_dst l)"
  have p: "split_on CHR '' '' k = [dumpInstanceId (link_src l), ?dst]" using assms(4,5) by (simp add: split_count_key named_link_def)
  obtain src where src: "loadInstnceId (dumpInstanceId (link_src l)) = Inr src"
    using r by (auto simp: infer_link_def Let_def p bindE_eq_Inr)
  obtain nd lnk where nd: "get nds (inst_node src) = Own nd" "\<not> isSingleton nd"
    and lnk: "(case get (node_links nd) ?dst of Own l \<Rightarrow> Inr l | Undef \<Rightarrow> new_Link (JInt (int n)) | Proto \<Rightarrow> Inl TypeError) = Inr lnk"
    and nds': "nds' = obj_put (inst_node src) (nd\<lparr>node_links := obj_put ?dst (widen (int n) lnk) (node_links nd)\<rparr>) nds"
    using r src by (auto simp: infer_link_def Let_def p bindE_eq_Inr split: if_splits lookup.splits)
  have ok: "node_ok (insert (inst_node src) (set (keys nds))) nd" using nodes_ok_own [OF assms(2) nd(1)] by (rule node_ok_mono) auto
  have "wf_link lnk" using lnk ok new_Link_wf
    by (auto simp: node_ok_def get_def split: lookup.splits option.splits if_splits dest!: map_of_SomeD)
  then show ?thesis unfolding nds' using assms(2,3,5) ok nd(2)
    by (intro nodes_ok_put node_ok_link widen_ok) (auto simp: named_link_def)
qed

lemma infer_links_ok:
  assumes "infer_links s counts ls st = Inr st'" and "nodes_ok (schNodes st)" and "\<forall>l \<in> snd ` set ls. named_link l"
  shows "nodes_ok (schNodes st')"
proof -
  have f: "foldE (infer_link s) (getLinkDestinationCounts ls) (schNodes st) = Inr (schNodes st')"
    using assms(1) by (auto simp: infer_links_def bindE_eq_Inr Let_def)
  show ?thesis
  proof (rule foldE_preserves [where P = nodes_ok, OF f])
    fix kn nds nds' assume a: "kn \<in> set (getLinkDestinationCounts ls)" "nodes_ok nds" "infer_link s kn nds = Inr nds'"
    obtain k n where kn: "kn = (k, n)" by (cases kn)
    then obtain l where "0 < n" "l \<in> snd ` set ls" "k = count_key l" using destination_count_entry a(1) by blast
    then show "nodes_ok nds'" using infer_link_ok [of s k n nds nds' l] a assms(3) kn by blast
  qed (rule assms(2))
qed

definition links_of :: "(string \<times> ds_file) list \<Rightarrow> dlink list" where
  "links_of cs = concat (map (\<lambda>(k, f). case f of LinksFile _ ls \<Rightarrow> map snd ls | _ \<Rightarrow> []) cs)"

lemma schNodes_implicit_links:
  assumes "foldE implicit_link kns st = Inr st'" and "nodes_ok (schNodes st)"
    and "\<forall>nd \<in> snd ` set kns. node_ok (set (keys (schNodes st))) nd"
  shows "nodes_ok (schNodes st')"
proof -
  have "nodes_ok (schNodes st') \<and> (\<forall>nd \<in> snd ` set kns. node_ok (set (keys (schNodes st'))) nd)"
  proof (rule foldE_preserves [where P = "\<lambda>t. nodes_ok (schNodes t) \<and> (\<forall>nd \<in> snd ` set kns. node_ok (set (keys (schNodes t))) nd)", OF assms(1)])
    fix kn t t' assume a: "kn \<in> set kns" "implicit_link kn t = Inr t'"
      and p: "nodes_ok (schNodes t) \<and> (\<forall>nd \<in> snd ` set kns. node_ok (set (keys (schNodes t))) nd)"
    have "set (keys (schNodes t)) \<subseteq> set (keys (schNodes t'))"
      using a(2) by (auto simp: implicit_link_def bindE_eq_Inr split: prod.splits if_splits)
    then show "nodes_ok (schNodes t') \<and> (\<forall>nd \<in> snd ` set kns. node_ok (set (keys (schNodes t'))) nd)"
      using p a implicit_link_ok [OF a(2)] node_ok_mono by blast
  qed (use assms in auto)
  then show ?thesis ..
qed

lemma links_stage_ok:
  assumes "links_stage s cs counts st = Inr st'" and ok: "nodes_ok (schNodes st)" and "\<forall>l \<in> set (links_of cs). named_link l"
  shows "nodes_ok (schNodes st')"
proof (cases "of_type ''links'' cs")
  case Nil
  then show ?thesis using assms schNodes_implicit_links [of "schNodes st" st st'] by (simp add: links_stage_def nodes_ok_def)
next
  case (Cons kf rest)
  obtain k f where kf: "kf = (k, f)" by (cases kf)
  have r: "rest = []" "infer_links s counts (file_links f) st = Inr st'"
    using assms(1) Cons kf by (auto simp: links_stage_def split: list.splits)
  have "kf \<in> set (of_type ''links'' cs)" unfolding Cons by simp
  then have "kf \<in> set cs \<and> file_type f = ''links''" by (simp add: of_type_def kf)
  then have "\<forall>l \<in> snd ` set (file_links f). l \<in> set (links_of cs)"
    unfolding links_of_def kf by (cases f) (force simp: file_type_def)+
  then show ?thesis using infer_links_ok [OF r(2) ok] assms(3) by blast
qed

lemma infer_sample_ok:
  assumes "infer_sample classSets (s, cs) st = Inr st'" and "nodes_ok (schNodes st)" and "\<forall>l \<in> set (links_of cs). named_link l"
  shows "nodes_ok (schNodes st')"
proof -
  obtain st0 st1 st2 st3 counts st4 where s: "check_links_files s cs st = Inr st0"
    "foldE (infer_tensor s) (of_type ''tensor'' cs) st0 = Inr st1" "foldE (infer_category classSets s) (of_type ''category'' cs) st1 = Inr st2"
    "foldE (infer_node classSets s) (of_type ''directory'' cs) (st2, []) = Inr (st3, counts)" "links_stage s cs counts st3 = Inr st4"
    "schNodes st' = schNodes st4"
    using assms(1) by (auto simp: infer_sample_def bindE_eq_Inr)
  have "nodes_ok (schNodes st0)" using s(1) assms(2) by (auto simp: check_links_files_def Let_def split: if_splits)
  then have "nodes_ok (schNodes st1)" using foldE_preserves [OF s(2), of "\<lambda>t. nodes_ok (schNodes t)"] infer_tensor_ok by blast
  then have "nodes_ok (schNodes st2)" using foldE_preserves [OF s(3), of "\<lambda>t. nodes_ok (schNodes t)"] infer_category_ok by blast
  then have "nodes_ok (schNodes st3)"
    using foldE_preserves [OF s(4), of "\<lambda>p. nodes_ok (schNodes (fst p))"] infer_node_ok by fastforce
  then show ?thesis using links_stage_ok [OF s(5)] assms(3) s(6) by simp
qed
definition samples_of :: "dataset \<Rightarrow> (string \<times> ds_file) list list" where
  "samples_of d = concat (map (\<lambda>(k, f). case f of Directory _ cs \<Rightarrow> [cs] | _ \<Rightarrow> []) (dir_children (ds_directory d)))"

lemma root_child_ok:
  assumes "root_child (k, f) rf = Inr rf'"
  shows "(snd ` set (rf_samples rf') \<subseteq> (case f of Directory _ cs \<Rightarrow> {cs} | _ \<Rightarrow> {}) \<union> snd ` set (rf_samples rf)) \<and>
    ((\<forall>c \<in> snd ` set (rf_classes rf). wf_class c) \<longrightarrow> (\<forall>c \<in> snd ` set (rf_classes rf'). wf_class c))"
proof (cases f)
  case (ClassFile n cats)
  then obtain c where c: "new_Class (JInt (int (length cats))) JNull = Inr c" "rf_classes rf' = obj_put k c (rf_classes rf)"
      "rf_samples rf' = rf_samples rf"
    using assms by (auto simp: root_child_def bindE_eq_Inr)
  then have "wf_class c" by (simp add: accepts)
  then show ?thesis using c(2,3) ClassFile set_obj_put [of _ k c "rf_classes rf"] by (simp, fastforce)
next
  case (Directory n cs)
  then have "rf_samples rf' = obj_put k cs (rf_samples rf)" "rf_classes rf' = rf_classes rf" using assms by (auto simp: root_child_def)
  then show ?thesis using Directory set_obj_put [of _ k cs "rf_samples rf"] by (simp, fastforce)
qed (use assms in \<open>auto simp: root_child_def\<close>)

lemma root_children_ok:
  assumes "root_children cs = Inr rf"
  shows "(\<forall>c \<in> snd ` set (rf_classes rf). wf_class c) \<and>
    (\<forall>x \<in> snd ` set (rf_samples rf). \<exists>k n. (k, Directory n x) \<in> set cs)"
proof (rule foldE_preserves [OF assms [unfolded root_children_def],
      where P = "\<lambda>rf. (\<forall>c \<in> snd ` set (rf_classes rf). wf_class c) \<and> (\<forall>x \<in> snd ` set (rf_samples rf). \<exists>k n. (k, Directory n x) \<in> set cs)"])
  fix kc t t' assume a: "kc \<in> set cs" "root_child kc t = Inr t'"
    and i: "(\<forall>c \<in> snd ` set (rf_classes t). wf_class c) \<and> (\<forall>x \<in> snd ` set (rf_samples t). \<exists>k n. (k, Directory n x) \<in> set cs)"
  obtain k f where kc: "kc = (k, f)" by (cases kc)
  note r = root_child_ok [OF a(2) [unfolded kc]]
  have 1: "\<exists>k n. (k, Directory n x) \<in> set cs" if "x \<in> snd ` set (rf_samples t')" for x
  proof -
    have "x \<in> (case f of Directory _ cs \<Rightarrow> {cs} | _ \<Rightarrow> {}) \<or> x \<in> snd ` set (rf_samples t)" using r that by blast
    then show ?thesis using i a(1) kc by (auto split: ds_file.splits)
  qed
  have "\<forall>c \<in> snd ` set (rf_classes t'). wf_class c" using conjunct2 [OF r] conjunct1 [OF i] by (rule mp)
  then show "(\<forall>c \<in> snd ` set (rf_classes t'). wf_class c) \<and> (\<forall>x \<in> snd ` set (rf_samples t'). \<exists>k n. (k, Directory n x) \<in> set cs)"
    by (intro conjI) (assumption, intro ballI 1)
qed simp

lemma inferSchema_typed:
  assumes r: "inferSchema d = Inr s" and l: "\<forall>cs \<in> set (samples_of d). \<forall>l \<in> set (links_of cs). named_link l"
  shows "wf_schema s"
proof -
  obtain rf st where rf: "root_children (dir_children (ds_directory d)) = Inr rf"
    and st: "foldE (infer_sample (rf_classSets rf)) (rf_samples rf) initial_state = Inr st"
    and s: "new_Schema (Dict (schNodes st)) (Dict (rf_classes rf)) (JBool (schCyclic st)) (JBool (schUndirected st))
       (JBool (schFanin st)) JNull = Inr s"
    using r by (auto simp: inferSchema_def bindE_eq_Inr)
  note root = root_children_ok [OF rf]
  have ok: "nodes_ok (schNodes st)"
  proof (rule foldE_preserves [where P = "\<lambda>t. nodes_ok (schNodes t)", OF st])
    fix kcs t t' assume a: "kcs \<in> set (rf_samples rf)" "nodes_ok (schNodes t)" "infer_sample (rf_classSets rf) kcs t = Inr t'"
    obtain n cs where kcs: "kcs = (n, cs)" by (cases kcs)
    obtain k m where "(k, Directory m cs) \<in> set (dir_children (ds_directory d))" using root a(1) kcs by force
    then have "cs \<in> set (samples_of d)" unfolding samples_of_def by force
    then show "nodes_ok (schNodes t')" using infer_sample_ok a l kcs by blast
  qed (simp add: initial_state_def nodes_ok_def)
  have sch: "nodes s = schNodes st" "categoryClasses s = rf_classes rf" "wf_refs s" using s [unfolded new_Schema_iff] by auto
  then have "\<forall>k \<in> set (keys (schNodes st)). name_format k" by (auto simp: wf_refs_def list_all_iff)
  then have "\<forall>nd \<in> snd ` set (schNodes st). wf_node nd" using ok node_ok_wf unfolding nodes_ok_def by blast
  then show ?thesis using sch root by (auto simp: wf_schema_def)
qed

subsection \<open>Every sample fits the schema\<close>

text \<open>The part of the nodes that links do not touch.\<close>

definition node_types :: "node obj \<Rightarrow> string \<Rightarrow> (bool \<times> field obj) option" where
  "node_types nds k = map_option (\<lambda>nd. (isSingleton nd, node_fields nd)) (map_of nds k)"

definition field_fits :: "string list obj \<Rightarrow> field obj \<Rightarrow> string \<times> ds_file \<Rightarrow> bool" where
  "field_fits classSets fs kf =
     (case kf of (k, f) \<Rightarrow>
        (case (f, map_of fs k) of
           (TensorFile _ dims _, Some (Tensor _ ds _)) \<Rightarrow>
             (case other_dimensions dims of Inr rest \<Rightarrow> arraysEqual (map dim_to_js ds) rest | Inl e \<Rightarrow> False)
         | (CategoryFile _ categories, Some (Category _ c)) \<Rightarrow> infer_class classSets categories = Some c
         | _ \<Rightarrow> False))"

definition file_fits :: "string list obj \<Rightarrow> (string \<Rightarrow> (bool \<times> field obj) option) \<Rightarrow> string \<times> ds_file \<Rightarrow> bool" where
  "file_fits classSets types kf =
     (case kf of (k, f) \<Rightarrow>
        (case f of
           TensorFile _ dims _ \<Rightarrow>
             (case types k of
                Some (True, fs) \<Rightarrow> (case map_of fs ''field'' of Some (Tensor _ ds _) \<Rightarrow> arraysEqual (map dim_to_js ds) dims | _ \<Rightarrow> False)
              | _ \<Rightarrow> False)
         | CategoryFile _ categories \<Rightarrow>
             (case types k of
                Some (True, fs) \<Rightarrow>
                  (case map_of fs ''field'' of Some (Category _ c) \<Rightarrow> infer_class classSets categories = Some c | _ \<Rightarrow> False)
              | _ \<Rightarrow> False)
         | Directory _ cs \<Rightarrow> (case types k of Some (False, fs) \<Rightarrow> list_all (field_fits classSets fs) cs | _ \<Rightarrow> False)
         | _ \<Rightarrow> True))"

lemma file_fits_cong: "types k = types' k \<Longrightarrow> file_fits classSets types (k, f) = file_fits classSets types' (k, f)"
  by (simp add: file_fits_def)

lemma node_types_put [simp]: "node_types (obj_put k nd nds) = (node_types nds)(k \<mapsto> (isSingleton nd, node_fields nd))"
  by (auto simp: node_types_def)

lemma node_types_own: "get nds k = Own nd \<Longrightarrow> node_types nds k = Some (isSingleton nd, node_fields nd)"
  by (auto simp: get_def node_types_def split: option.splits if_splits)

text \<open>What a step for one file does to the nodes.\<close>

definition step_ok :: "string list obj \<Rightarrow> string \<times> ds_file \<Rightarrow> infer_state \<Rightarrow> infer_state \<Rightarrow> bool" where
  "step_ok classSets kf st st' =
     (firstSample st' = firstSample st \<and> (wf_obj (schNodes st) \<longrightarrow> wf_obj (schNodes st')) \<and>
      file_fits classSets (node_types (schNodes st')) kf \<and>
      (\<forall>j. j \<noteq> fst kf \<longrightarrow> node_types (schNodes st') j = node_types (schNodes st) j) \<and>
      (\<not> firstSample st \<longrightarrow> node_types (schNodes st') = node_types (schNodes st)))"

lemma arraysEqual_refl [simp]: "arraysEqual xs (JArr xs)"
  by (simp add: arraysEqual_def list.rel_refl)

lemma same_singleton_types:
  "same_singleton t s k st = Inr f \<Longrightarrow>
     \<exists>fs. node_types (schNodes st) k = Some (True, fs) \<and> map_of fs ''field'' = Some f \<and> field_type f = t"
  by (auto simp: same_singleton_def node_types_own split: lookup.splits option.splits if_splits)

lemma field_types: "field_type f = ''tensor'' \<longleftrightarrow> (\<exists>n ds sd. f = Tensor n ds sd)" "field_type f = ''category'' \<longleftrightarrow> (\<exists>n c. f = Category n c)"
  by (cases f; simp add: field_type_def)+

lemma singleton_node_types: "singleton_node f = Inr nd \<Longrightarrow> isSingleton nd \<and> node_fields nd = [(''field'', f)]"
  unfolding singleton_node_def by (drule new_Node_shape) auto

lemma file_types: "file_type f = ''tensor'' \<longleftrightarrow> (\<exists>n ds x. f = TensorFile n ds x)"
  "file_type f = ''category'' \<longleftrightarrow> (\<exists>n c. f = CategoryFile n c)" "file_type f = ''directory'' \<longleftrightarrow> (\<exists>n c. f = Directory n c)"
  by (cases f; simp add: file_type_def)+

lemma infer_tensor_step: "infer_tensor s kf st = Inr st' \<Longrightarrow> file_type (snd kf) = ''tensor'' \<Longrightarrow> step_ok classSets kf st st'"
  by (cases kf) (auto simp: infer_tensor_def bindE_eq_Inr accepts step_ok_def file_types file_fits_def field_types
      dest!: singleton_node_types same_singleton_types split: if_splits)

lemma infer_category_step: "infer_category classSets s kf st = Inr st' \<Longrightarrow> file_type (snd kf) = ''category'' \<Longrightarrow> step_ok classSets kf st st'"
  by (cases kf) (auto simp: infer_category_def bindE_eq_Inr accepts step_ok_def file_types file_fits_def field_types find_class_def
      dest!: singleton_node_types same_singleton_types split: if_splits option.splits)
lemma field_fits_other: "k \<noteq> fst kf \<Longrightarrow> field_fits classSets (obj_put k f fs) kf = field_fits classSets fs kf"
  by (cases kf) (simp add: field_fits_def)

lemma same_field_own:
  "same_field t n parts k fs = Inr f \<Longrightarrow> map_of fs k = Some f \<and> field_type f = t"
  by (auto simp: same_field_def get_def split: lookup.splits option.splits if_splits)

lemma infer_field_step:
  assumes "infer_field classSets first s n kf (fs, counts) = Inr (fs', counts')"
  shows "field_fits classSets fs' kf \<and> (\<forall>g. fst g \<noteq> fst kf \<longrightarrow> field_fits classSets fs' g = field_fits classSets fs g) \<and>
    (\<not> first \<longrightarrow> fs' = fs)"
proof -
  obtain k f where kf: "kf = (k, f)" by (cases kf)
  show ?thesis using assms
    by (auto simp: infer_field_def kf Let_def bindE_eq_Inr accepts field_fits_def find_class_def field_types
        dest!: same_field_own split: ds_file.splits if_splits option.splits)
qed

lemma infer_fields_fit:
  assumes f: "foldE (infer_field classSets first s n) kfs (fs, counts) = Inr (fs', counts')" and d: "distinct (map fst kfs)"
  shows "list_all (field_fits classSets fs') kfs \<and> (\<not> first \<longrightarrow> fs' = fs)"
proof -
  have "(\<forall>g \<in> set kfs. field_fits classSets (fst (fs', counts')) g) \<and> (\<not> first \<longrightarrow> fst (fs', counts') = fs)"
  proof (rule foldE_prefix [OF f, where I = "\<lambda>ys p. (\<forall>g \<in> set ys. field_fits classSets (fst p) g) \<and> (\<not> first \<longrightarrow> fst p = fs)"])
    fix ys y zs t t' assume a: "kfs = ys @ y # zs" "infer_field classSets first s n y t = Inr t'"
      and i: "(\<forall>g \<in> set ys. field_fits classSets (fst t) g) \<and> (\<not> first \<longrightarrow> fst t = fs)"
    have st: "field_fits classSets (fst t') y \<and> (\<forall>g. fst g \<noteq> fst y \<longrightarrow> field_fits classSets (fst t') g = field_fits classSets (fst t) g) \<and>
        (\<not> first \<longrightarrow> fst t' = fst t)"
      using a(2) by (cases t; cases t') (auto dest: infer_field_step)
    have "fst g \<noteq> fst y" if "g \<in> set ys" for g using d a(1) that by (force simp: image_iff)
    then show "(\<forall>g \<in> set (ys @ [y]). field_fits classSets (fst t') g) \<and> (\<not> first \<longrightarrow> fst t' = fs)" using st i by auto
  qed simp
  then show ?thesis by (simp add: list_all_iff)
qed

lemma infer_node_step:
  assumes "infer_node classSets s kf (st, counts) = Inr (st', counts')" and "file_type (snd kf) = ''directory''"
    and d: "distinct (map fst (dir_children (snd kf)))"
  shows "step_ok classSets kf st st'"
proof -
  obtain k m cs where kf: "kf = (k, Directory m cs)" using assms(2) by (cases kf) (auto simp: file_types)
  obtain fs fs' nd where fs: "(if firstSample st then Inr []
               else
                 (case get (schNodes st) k of
                    Own nd \<Rightarrow> if isSingleton nd then Inl (type_error k [s]) else Inr (node_fields nd)
                  | _ \<Rightarrow> Inl TypeError)) = Inr fs"
    and f: "foldE (infer_field classSets (firstSample st) s k) cs (fs, counts) = Inr (fs', counts')"
    and nd: "new_Node (JBool False) (Dict fs') NullArg JNull = Inr nd" "st' = st\<lparr>schNodes := obj_put k nd (schNodes st)\<rparr>"
    using assms(1) unfolding infer_node_def kf by (auto simp: bindE_eq_Inr)
  have n: "isSingleton nd = False" "node_fields nd = fs'" using new_Node_shape [OF nd(1)] by auto
  have fit: "list_all (field_fits classSets fs') cs" "\<not> firstSample st \<Longrightarrow> fs' = fs" using infer_fields_fit [OF f] d kf by auto
  have "node_types (schNodes st) k = Some (False, fs)" if "\<not> firstSample st"
    using fs that by (auto dest!: node_types_own split: lookup.splits if_splits)
  then have "\<not> firstSample st \<Longrightarrow> (node_types (schNodes st))(k \<mapsto> (False, fs')) = node_types (schNodes st)"
    using fit(2) by (simp add: fun_upd_idem)
  then show ?thesis using fit(1) by (simp add: step_ok_def nd(2) n kf file_fits_def wf_obj_put)
qed

text \<open>A stage goes through files of different names.\<close>

definition stage_ok :: "string list obj \<Rightarrow> (string \<times> ds_file) list \<Rightarrow> infer_state \<Rightarrow> infer_state \<Rightarrow> bool" where
  "stage_ok classSets kfs st st' =
     (firstSample st' = firstSample st \<and> (wf_obj (schNodes st) \<longrightarrow> wf_obj (schNodes st')) \<and>
      (\<forall>kf \<in> set kfs. file_fits classSets (node_types (schNodes st')) kf) \<and>
      (\<forall>j. j \<notin> fst ` set kfs \<longrightarrow> node_types (schNodes st') j = node_types (schNodes st) j) \<and>
      (\<not> firstSample st \<longrightarrow> node_types (schNodes st') = node_types (schNodes st)))"

lemma fits_unchanged:
  "file_fits classSets (node_types nds) kf \<Longrightarrow> node_types nds' (fst kf) = node_types nds (fst kf) \<Longrightarrow> file_fits classSets (node_types nds') kf"
  using file_fits_cong [of "node_types nds" "fst kf" "node_types nds'" classSets "snd kf"] by simp

lemma stage_step:
  assumes "stage_ok classSets ys st t" and "step_ok classSets y t t'" and "fst y \<notin> fst ` set ys"
  shows "stage_ok classSets (ys @ [y]) st t'"
proof -
  have "file_fits classSets (node_types (schNodes t')) kf" if "kf \<in> set ys" for kf
  proof (rule fits_unchanged)
    show "file_fits classSets (node_types (schNodes t)) kf" using assms(1) that by (simp add: stage_ok_def)
    have "fst kf \<noteq> fst y" using assms(3) that by (metis image_eqI)
    then show "node_types (schNodes t') (fst kf) = node_types (schNodes t) (fst kf)" using assms(2) by (simp add: step_ok_def)
  qed
  then show ?thesis using assms by (auto simp: stage_ok_def step_ok_def)
qed

lemma stage_fold:
  assumes f: "foldE f xs t = Inr t'" and d: "distinct (map fst xs)"
    and s: "\<And>x u u'. x \<in> set xs \<Longrightarrow> f x u = Inr u' \<Longrightarrow> step_ok classSets x (h u) (h u')"
  shows "stage_ok classSets xs (h t) (h t')"
proof (rule foldE_prefix [OF f, where I = "\<lambda>ys u. stage_ok classSets ys (h t) (h u)"])
  fix ys y zs u u' assume a: "xs = ys @ y # zs" "stage_ok classSets ys (h t) (h u)" "f y u = Inr u'"
  have "fst y \<notin> fst ` set ys" using d a(1) by auto
  then show "stage_ok classSets (ys @ [y]) (h t) (h u')" using stage_step a s by (metis in_set_conv_decomp)
qed (simp add: stage_ok_def)

lemma stage_trans:
  assumes "stage_ok classSets xs s t" and "stage_ok classSets ys t u" and "fst ` set xs \<inter> fst ` set ys = {}"
  shows "stage_ok classSets (xs @ ys) s u"
proof -
  have "file_fits classSets (node_types (schNodes u)) kf" if "kf \<in> set xs" for kf
  proof (rule fits_unchanged)
    show "file_fits classSets (node_types (schNodes t)) kf" using assms(1) that by (simp add: stage_ok_def)
    have "fst kf \<notin> fst ` set ys" using assms(3) that by blast
    then show "node_types (schNodes u) (fst kf) = node_types (schNodes t) (fst kf)" using assms(2) by (simp add: stage_ok_def)
  qed
  then have "\<forall>kf \<in> set (xs @ ys). file_fits classSets (node_types (schNodes u)) kf"
    using assms(2) by (simp add: stage_ok_def ball_Un)
  then show ?thesis using assms(1,2) unfolding stage_ok_def by (simp add: image_Un)
qed
text \<open>Links leave the types of the nodes alone.\<close>

lemma infer_link_types:
  assumes "infer_link s kn nds = Inr nds'"
  shows "node_types nds' = node_types nds \<and> (wf_obj nds \<longrightarrow> wf_obj nds')"
proof -
  obtain k nd l where nd: "get nds k = Own nd" "nds' = obj_put k (nd\<lparr>node_links := l\<rparr>) nds"
    using assms by (auto simp: infer_link_def Let_def bindE_eq_Inr split: prod.splits if_splits lookup.splits)
  have "(node_types nds)(k \<mapsto> (isSingleton nd, node_fields nd)) = node_types nds"
    using node_types_own [OF nd(1)] by (simp add: fun_upd_idem)
  then show ?thesis by (simp add: nd(2) wf_obj_put)
qed

definition types_kept :: "infer_state \<Rightarrow> infer_state \<Rightarrow> bool" where
  "types_kept st st' = (node_types (schNodes st') = node_types (schNodes st) \<and> (wf_obj (schNodes st) \<longrightarrow> wf_obj (schNodes st')))"

lemma implicit_link_types:
  assumes "implicit_link (k, nd) st = Inr st'" and "node_types (schNodes st) k = Some (isSingleton nd, node_fields nd)"
  shows "types_kept st st'"
  using assms by (auto simp: implicit_link_def bindE_eq_Inr types_kept_def wf_obj_put fun_upd_idem split: if_splits)

lemma implicit_links_types:
  assumes f: "foldE implicit_link (schNodes st) st = Inr st'" and w: "wf_obj (schNodes st)"
  shows "types_kept st st'"
proof (rule foldE_preserves [where P = "types_kept st", OF f])
  fix kn t t' assume a: "kn \<in> set (schNodes st)" "types_kept st t" "implicit_link kn t = Inr t'"
  obtain k nd where kn: "kn = (k, nd)" by (cases kn)
  have "map_of (schNodes st) k = Some nd" using a(1) w by (simp add: kn wf_obj_def keys_def)
  then have "node_types (schNodes t) k = Some (isSingleton nd, node_fields nd)" using a(2) by (simp add: types_kept_def) (simp add: node_types_def)
  then show "types_kept st t'" using implicit_link_types a(2,3) kn by (auto simp: types_kept_def)
qed (simp add: types_kept_def)

lemma links_stage_types:
  assumes "links_stage s cs counts st = Inr st'" and w: "wf_obj (schNodes st)"
  shows "types_kept st st'"
proof (cases "of_type ''links'' cs")
  case Nil
  then show ?thesis using assms implicit_links_types by (simp add: links_stage_def)
next
  case (Cons kf rest)
  then obtain ls where "infer_links s counts ls st = Inr st'" using assms(1) by (auto simp: links_stage_def split: list.splits prod.splits)
  then have f: "foldE (infer_link s) (getLinkDestinationCounts ls) (schNodes st) = Inr (schNodes st')"
    by (auto simp: infer_links_def bindE_eq_Inr Let_def)
  have "node_types (schNodes st') = node_types (schNodes st) \<and> (wf_obj (schNodes st) \<longrightarrow> wf_obj (schNodes st'))"
    by (rule foldE_preserves [where P = "\<lambda>n. node_types n = node_types (schNodes st) \<and> (wf_obj (schNodes st) \<longrightarrow> wf_obj n)", OF f])
      (use infer_link_types in auto)
  then show ?thesis by (simp add: types_kept_def)
qed

text \<open>Names that occur once: in each sample, and in each directory of it.\<close>

definition unique_names :: "(string \<times> ds_file) list \<Rightarrow> bool" where
  "unique_names cs =
     (distinct (map fst cs) \<and>
      list_all (\<lambda>(k, f). case f of Directory _ ds \<Rightarrow> distinct (map fst ds) | _ \<Rightarrow> True) cs)"

lemma of_type_names: "distinct (map fst cs) \<Longrightarrow> distinct (map fst (of_type t cs))"
  by (simp add: of_type_def distinct_map_filter)

lemma of_type_iff: "kf \<in> set (of_type t cs) \<longleftrightarrow> kf \<in> set cs \<and> file_type (snd kf) = t"
  by (cases kf) (simp add: of_type_def)

lemma of_type_disjoint: "distinct (map fst cs) \<Longrightarrow> t \<noteq> t' \<Longrightarrow> fst ` set (of_type t cs) \<inter> fst ` set (of_type t' cs) = {}"
proof (rule ccontr)
  assume d: "distinct (map fst cs)" "t \<noteq> t'" and "fst ` set (of_type t cs) \<inter> fst ` set (of_type t' cs) \<noteq> {}"
  then obtain k f g where "(k, f) \<in> set (of_type t cs)" "(k, g) \<in> set (of_type t' cs)" by auto
  then have "(k, f) \<in> set cs" "(k, g) \<in> set cs" "file_type f \<noteq> file_type g" using d(2) by (auto simp: of_type_iff)
  then show False using eq_key_imp_eq_value [OF d(1)] by blast
qed

lemma infer_sample_fits:
  assumes r: "infer_sample classSets (s, cs) st = Inr st'" and u: "unique_names cs" and w: "wf_obj (schNodes st)"
  shows "\<not> firstSample st' \<and> wf_obj (schNodes st') \<and> list_all (file_fits classSets (node_types (schNodes st'))) cs \<and>
    (\<not> firstSample st \<longrightarrow> node_types (schNodes st') = node_types (schNodes st))"
proof -
  let ?T = "of_type ''tensor'' cs" and ?C = "of_type ''category'' cs" and ?D = "of_type ''directory'' cs"
  obtain st0 st1 st2 st3 counts st4 where s: "check_links_files s cs st = Inr st0"
    "foldE (infer_tensor s) ?T st0 = Inr st1" "foldE (infer_category classSets s) ?C st1 = Inr st2"
    "foldE (infer_node classSets s) ?D (st2, []) = Inr (st3, counts)" "links_stage s cs counts st3 = Inr st4"
    "st' = st4\<lparr>firstSample := False\<rparr>"
    using r by (auto simp: infer_sample_def bindE_eq_Inr)
  have d: "distinct (map fst cs)" using u by (simp add: unique_names_def)
  have 0: "schNodes st0 = schNodes st" "firstSample st0 = firstSample st" using s(1) by (auto simp: check_links_files_def Let_def split: if_splits)
  have 1: "stage_ok classSets ?T st0 st1"
    by (rule stage_fold [OF s(2) of_type_names [OF d], where h = "\<lambda>t. t"]) (auto simp: of_type_iff intro: infer_tensor_step)
  have 2: "stage_ok classSets ?C st1 st2"
    by (rule stage_fold [OF s(3) of_type_names [OF d], where h = "\<lambda>t. t"]) (auto simp: of_type_iff intro: infer_category_step)
  have dirs: "distinct (map fst (dir_children f))" if "(k, f) \<in> set ?D" for k f
    using u that by (auto simp: unique_names_def list_all_iff of_type_iff file_types)
  have "stage_ok classSets ?D (fst (st2, [] :: counts)) (fst (st3, counts))"
  proof (rule stage_fold [OF s(4) of_type_names [OF d]])
    fix kf p p' assume "kf \<in> set ?D" "infer_node classSets s kf p = Inr p'"
    then show "step_ok classSets kf (fst p) (fst p')"
      using infer_node_step [of classSets s kf "fst p" "snd p" "fst p'" "snd p'"] dirs [of "fst kf" "snd kf"] by (simp add: of_type_iff)
  qed
  then have "stage_ok classSets ((?T @ ?C) @ ?D) st0 st3"
    using stage_trans [OF stage_trans [OF 1 2]] of_type_disjoint [OF d] by (simp add: image_Un Int_Un_distrib2)
  note st3 = this [unfolded stage_ok_def 0]
  have k: "types_kept st3 st4" using links_stage_types [OF s(5)] st3 w by simp
  have "file_fits classSets (node_types (schNodes st3)) kf" if "kf \<in> set cs" for kf
  proof (cases "kf \<in> set ((?T @ ?C) @ ?D)")
    case False
    then show ?thesis using that by (cases kf; cases "snd kf") (auto simp: of_type_iff file_type_def file_fits_def)
  qed (use st3 in blast)
  then show ?thesis using k st3 w by (auto simp: s(6) types_kept_def list_all_iff)
qed

lemma inferSchema_samples_fit:
  assumes r: "inferSchema d = Inr s" and root: "root_children (dir_children (ds_directory d)) = Inr rf"
    and u: "\<forall>cs \<in> snd ` set (rf_samples rf). unique_names cs"
  shows "\<forall>cs \<in> snd ` set (rf_samples rf). list_all (file_fits (rf_classSets rf) (node_types (nodes s))) cs"
proof -
  obtain st where st: "foldE (infer_sample (rf_classSets rf)) (rf_samples rf) initial_state = Inr st" and s: "nodes s = schNodes st"
    using r root by (auto simp: inferSchema_def bindE_eq_Inr new_Schema_iff)
  let ?I = "\<lambda>ys t. wf_obj (schNodes t) \<and> (ys \<noteq> [] \<longrightarrow> \<not> firstSample t) \<and>
      (\<forall>cs \<in> snd ` set ys. list_all (file_fits (rf_classSets rf) (node_types (schNodes t))) cs)"
  have "?I (rf_samples rf) st"
  proof (rule foldE_prefix [where I = ?I, OF st])
    fix ys y zs t t' assume a: "rf_samples rf = ys @ y # zs" "?I ys t" "infer_sample (rf_classSets rf) y t = Inr t'"
    obtain n cs where y: "y = (n, cs)" by (cases y)
    have "unique_names cs" using u a(1) y by auto
    then have st: "\<not> firstSample t' \<and> wf_obj (schNodes t') \<and> list_all (file_fits (rf_classSets rf) (node_types (schNodes t'))) cs \<and>
        (\<not> firstSample t \<longrightarrow> node_types (schNodes t') = node_types (schNodes t))"
      using infer_sample_fits [of "rf_classSets rf" n cs t t'] a(2,3) y by blast
    then show "?I (ys @ [y]) t'" using a(2) y by (cases "ys = []") auto
  qed (simp add: initial_state_def wf_obj_def keys_def)
  then show ?thesis unfolding s by blast
qed
subsection \<open>Properties\<close>

text \<open>C32. Whatever \<^verbatim>\<open>inferSchema\<close> returns is a well-formed schema, with nodes, fields, links and classes as
  the constructors guarantee them, when the links of the samples are between names of the format
  that nodes have.\<close>

theorem infer_schema_typed:
  assumes "inferSchema d = Inr s" and "\<forall>cs \<in> set (samples_of d). \<forall>l \<in> set (links_of cs). named_link l"
  shows "wf_schema s"
  using assms by (rule inferSchema_typed)

definition demo_link :: "nat \<Rightarrow> nat \<Rightarrow> string \<times> dlink" where
  "demo_link i j = (let l = \<lparr>link_src = \<lparr>inst_node = ''n'', inst_index = int i\<rparr>, link_dst = \<lparr>inst_node = ''n'', inst_index = int j\<rparr>\<rparr>
     in (dump_Link l, l))"

definition demo_sample :: "string \<Rightarrow> links \<Rightarrow> string \<times> ds_file" where
  "demo_sample name ls =
     (name, Directory name
       [(''x'', TensorFile ''x'' (JArr [JInt 3]) None), (''y'', CategoryFile ''y'' [''a'']),
        (''n'', Directory ''n'' [(''c'', CategoryFile ''c'' [''a'', ''b'', ''a''])]), (''links'', LinksFile ''links'' ls)])"

definition demo_dataset :: dataset where
  "demo_dataset =
     \<lparr>ds_root = ''/r'', ds_directory = Directory [] [demo_sample ''s1'' [demo_link 0 1, demo_link 0 2], demo_sample ''s2'' [demo_link 0 1],
        (''k'', ClassFile ''k'' [''a'', ''b''])]\<rparr>"

lemma demo_infers:
  "case inferSchema demo_dataset of Inl e \<Rightarrow> False
   | Inr s \<Rightarrow> map (\<lambda>(k, nd). (k, node_links nd)) (nodes s) = [(''x'', []), (''y'', []), (''n'', [(''n'', \<lparr>link_lower = 1, link_upper = Fin 1\<rparr>)])]"
  by code_simp

theorem infer_schema_typed_witness: "\<exists>s. inferSchema demo_dataset = Inr s \<and> nodes s \<noteq> [] \<and> wf_schema s"
proof -
  obtain s where s: "inferSchema demo_dataset = Inr s" "nodes s \<noteq> []" using demo_infers by (auto split: sum.splits)
  have "\<forall>cs \<in> set (samples_of demo_dataset). \<forall>l \<in> set (links_of cs). named_link l" by code_simp
  then show ?thesis using s infer_schema_typed by blast
qed

text \<open>C33. Every file of every sample fits the schema that \<^verbatim>\<open>inferSchema\<close> returns: a tensor has the dimensions of
  its node or, in a directory, of its field after the first, the categories of a category file are
  those of its class, and a directory is a node with instances all of whose files are fields.\<close>

theorem infer_samples_fit:
  assumes "inferSchema d = Inr s" and "root_children (dir_children (ds_directory d)) = Inr rf"
    and "list_all unique_names (map snd (rf_samples rf))"
  shows "list_all (list_all (file_fits (rf_classSets rf) (node_types (nodes s)))) (map snd (rf_samples rf))"
  using inferSchema_samples_fit [OF assms(1,2)] assms(3) by (auto simp: list_all_iff)

theorem infer_samples_fit_witness:
  "\<exists>s rf. inferSchema demo_dataset = Inr s \<and> root_children (dir_children (ds_directory demo_dataset)) = Inr rf \<and>
     map fst (rf_samples rf) = [''s1'', ''s2''] \<and>
     list_all (list_all (file_fits (rf_classSets rf) (node_types (nodes s)))) (map snd (rf_samples rf))"
proof -
  obtain s where s: "inferSchema demo_dataset = Inr s" using demo_infers by (auto split: sum.splits)
  have "case root_children (dir_children (ds_directory demo_dataset)) of Inl e \<Rightarrow> False
      | Inr rf \<Rightarrow> map fst (rf_samples rf) = [''s1'', ''s2''] \<and> list_all unique_names (map snd (rf_samples rf))" by code_simp
  then obtain rf where rf: "root_children (dir_children (ds_directory demo_dataset)) = Inr rf" "map fst (rf_samples rf) = [''s1'', ''s2'']"
      "list_all unique_names (map snd (rf_samples rf))" by (auto split: sum.splits)
  show ?thesis using infer_samples_fit [OF s rf(1,3)] s rf by (intro exI conjI)
qed

text \<open>What earlier samples need of a link is lost, since every sample builds the nodes anew: with two links
  from an instance in the first sample and one in the second, the schema asks for exactly one.\<close>

theorem infer_forgets_links:
  "(\<exists>s. inferSchema demo_dataset = Inr s \<and>
      map_of (map (\<lambda>(k, nd). (k, node_links nd)) (nodes s)) ''n'' = Some [(''n'', \<lparr>link_lower = 1, link_upper = Fin 1\<rparr>)]) \<and>
   map_of (getLinkDestinationCounts [demo_link 0 1, demo_link 0 2]) ''n/0 n'' = Some 2"
proof
  show "map_of (getLinkDestinationCounts [demo_link 0 1, demo_link 0 2]) ''n/0 n'' = Some 2" by code_simp
qed (use demo_infers in \<open>auto split: sum.splits\<close>)

text \<open>Neither set of names contains the other, so the comparison passes and the second sample has no \<open>y\<close>.\<close>

lemma infer_misses_item:
  "case inferSchema \<lparr>ds_root = [], ds_directory = Directory []
     [(''s1'', Directory ''s1'' [(''x'', TensorFile ''x'' (JArr [JInt 3]) None), (''y'', TensorFile ''y'' (JArr [JInt 3]) None)]),
      (''s2'', Directory ''s2'' [(''x'', TensorFile ''x'' (JArr [JInt 3]) None), (''k'', ClassFile ''k'' [''a''])])]\<rparr> of
     Inl e \<Rightarrow> False | Inr s \<Rightarrow> map fst (nodes s) = [''x'', ''y'']"
  by code_simp

text \<open>A links file that the first sample lacks is not missed.\<close>

lemma infer_links_file_missing:
  "case inferSchema \<lparr>ds_root = [], ds_directory = Directory []
     [(''s1'', Directory ''s1'' [(''n'', Directory ''n'' [(''x'', TensorFile ''x'' (JArr [JInt 3, JInt 1]) None)])]),
      (''s2'', Directory ''s2'' [(''n'', Directory ''n'' [(''x'', TensorFile ''x'' (JArr [JInt 3, JInt 1]) None)]),
         (''links'', LinksFile ''links'' [demo_link 0 1])])]\<rparr> of
     Inl e \<Rightarrow> False | Inr s \<Rightarrow> True"
  by code_simp

end
