(* ===== verification/Generate.thy ===== *)
theory Generate
  imports Dataset Schema_Types
begin

text \<open>
  \<^verbatim>\<open>generateFromSchema\<close> of \<^verbatim>\<open>src/dataset.js\<close>: a random data set for a schema. \<^verbatim>\<open>Math.random\<close> is a
  parameter: \<open>rnd_index r k n\<close> is the value of \<^verbatim>\<open>Math.floor(Math.random() * n)\<close> at the \<open>k\<close>-th call and
  \<open>rnd_value r k\<close> that of \<^verbatim>\<open>Math.random()\<close> itself; the world of the operations is the number of calls
  made so far. The contract of \<^verbatim>\<open>Math.random\<close> is \<open>fair\<close>: an index is below its bound.
\<close>

subsection \<open>Random values\<close>

record random =
  rnd_index :: "nat \<Rightarrow> nat \<Rightarrow> nat"
  rnd_value :: "nat \<Rightarrow> num"

definition fair :: "random \<Rightarrow> bool" where
  "fair r = (\<forall>k n. 0 < n \<longrightarrow> rnd_index r k n < n)"

definition draw :: "random \<Rightarrow> nat \<Rightarrow> (nat, nat) io" where
  "draw r n = (\<lambda>k. (Inr (rnd_index r k n), k + 1))"

definition draw_value :: "random \<Rightarrow> (nat, num) io" where
  "draw_value r = (\<lambda>k. (Inr (rnd_value r k), k + 1))"

fun repeatS :: "nat \<Rightarrow> ('w, 'a) io \<Rightarrow> ('w, 'a list) io" where
  "repeatS 0 m = ret []"
| "repeatS (Suc n) m = bindS m (\<lambda>x. bindS (repeatS n m) (\<lambda>xs. ret (x # xs)))"

definition alphabet :: string where
  "alphabet = ''abcdefghijklmnopqrstuvwxyz0123456789''"

definition randomString :: "random \<Rightarrow> nat \<Rightarrow> (nat, string) io" where
  "randomString r len =
     bindS (repeatS len (draw r (length alphabet))) (\<lambda>is.
     ret (concat (map (\<lambda>i. if i < length alphabet then [alphabet ! i] else []) is)))"

text \<open>An exchange with an element outside of the list, which no fair index asks for, is not modelled.\<close>

definition exchange :: "nat \<Rightarrow> nat \<Rightarrow> nat list \<Rightarrow> nat list option" where
  "exchange i j xs = (if i < length xs \<and> j < length xs then Some (xs[i := xs ! j, j := xs ! i]) else None)"

definition randomIndices :: "random \<Rightarrow> nat \<Rightarrow> (nat, nat list) io" where
  "randomIndices r len =
     foldS (\<lambda>i xs. bindS (draw r len) (\<lambda>j.
         (case exchange i j xs of Some ys \<Rightarrow> ret ys | None \<Rightarrow> throw Unmodelled))) [0..<len] [0..<len]"

subsection \<open>Files\<close>

definition gen_class :: "random \<Rightarrow> string \<times> sclass \<Rightarrow> ds_file obj \<Rightarrow> (nat, ds_file obj) io" where
  "gen_class r kc classes =
     (case kc of (className, cls) \<Rightarrow>
        (case class_dim cls of
           DStr s \<Rightarrow> throw AssertionError
         | DInt n \<Rightarrow>
             bindS (repeatS (nat n) (randomString r 16)) (\<lambda>categories.
             ret (obj_put className (ClassFile className categories) classes))))"

text \<open>The product of the dimensions; a name among them makes it NaN.\<close>

fun tensor_size :: "dim list \<Rightarrow> int \<Rightarrow> int option" where
  "tensor_size [] len = Some len"
| "tensor_size (DInt n # ds) len = tensor_size ds (len * n)"
| "tensor_size (DStr s # ds) len = None"

definition gen_data :: "random \<Rightarrow> dim list \<Rightarrow> (nat, num list) io" where
  "gen_data r ds =
     (case tensor_size ds 1 of
        None \<Rightarrow> throw AssertionError
      | Some len \<Rightarrow>
          if len < 0 \<or> len \<ge> 2 ^ 32 then throw RangeError else repeatS (nat len) (draw_value r))"

definition class_choices :: "ds_file obj \<Rightarrow> string \<Rightarrow> string list res" where
  "class_choices classes cls =
     (case get classes cls of Own (ClassFile _ categories) \<Rightarrow> Inr categories | _ \<Rightarrow> Inl TypeError)"

definition gen_choice :: "random \<Rightarrow> string list \<Rightarrow> (nat, string) io" where
  "gen_choice r choices =
     bindS (draw r (length choices)) (\<lambda>index. if index < length choices then ret (choices ! index) else throw Unmodelled)"

definition gen_singleton :: "random \<Rightarrow> ds_file obj \<Rightarrow> string \<Rightarrow> node \<Rightarrow> (nat, ds_file) io" where
  "gen_singleton r classes nodeName nd =
     (case node_fields nd of
        [] \<Rightarrow> throw TypeError
      | (k, f) # _ \<Rightarrow>
          (case f of
             Tensor _ ds _ \<Rightarrow>
               bindS (gen_data r ds) (\<lambda>data. ret (TensorFile nodeName (JArr (map dim_to_js ds)) (Some data)))
           | Category _ cls \<Rightarrow>
               bindS (lift (class_choices classes cls)) (\<lambda>choices.
               bindS (gen_choice r choices) (\<lambda>c. ret (CategoryFile nodeName [c])))))"

definition gen_field ::
  "random \<Rightarrow> ds_file obj \<Rightarrow> nat \<Rightarrow> string \<Rightarrow> string \<times> field \<Rightarrow> ds_file obj \<Rightarrow> (nat, ds_file obj) io" where
  "gen_field r classes numNodeInstances nodeName kf children =
     (case kf of (fieldName, f) \<Rightarrow>
        (case f of
           Tensor _ ds _ \<Rightarrow>
             (let dims = DInt (int numNodeInstances) # ds
              in bindS (gen_data r dims) (\<lambda>data.
                 ret (obj_put fieldName (TensorFile fieldName (JArr (map dim_to_js dims)) (Some data)) children)))
         | Category _ cls \<Rightarrow>
             bindS (lift (class_choices classes cls)) (\<lambda>choices.
             bindS (repeatS numNodeInstances (gen_choice r choices)) (\<lambda>categories.
             ret (obj_put fieldName (CategoryFile nodeName categories) children)))))"

definition gen_node :: "random \<Rightarrow> ds_file obj \<Rightarrow> nat \<Rightarrow> string \<times> node \<Rightarrow> ds_file obj \<Rightarrow> (nat, ds_file obj) io" where
  "gen_node r classes numNodeInstances kn nds =
     (case kn of (nodeName, nd) \<Rightarrow>
        if isSingleton nd then
          bindS (gen_singleton r classes nodeName nd) (\<lambda>f. ret (obj_put nodeName f nds))
        else
          bindS (foldS (gen_field r classes numNodeInstances nodeName) (node_fields nd) []) (\<lambda>children.
          ret (obj_put nodeName (Directory nodeName children) nds)))"

subsection \<open>Links\<close>

record link_state =
  lk_links :: "dlink list"
  lk_in :: "int obj"
  lk_out :: "int obj"
  lk_max :: "int obj"

definition instance_of :: "string \<Rightarrow> nat \<Rightarrow> instance_id" where
  "instance_of node i = \<lparr>inst_node = node, inst_index = int i\<rparr>"

definition instance_key :: "string \<Rightarrow> nat \<Rightarrow> string" where
  "instance_key node i = dumpInstanceId (instance_of node i)"

definition degree :: "int obj \<Rightarrow> string \<Rightarrow> int" where
  "degree m k = (case map_of m k of Some n \<Rightarrow> n | None \<Rightarrow> 0)"

definition add_degree :: "string \<Rightarrow> int obj \<Rightarrow> int obj" where
  "add_degree k m = obj_put k (degree m k + 1) m"

text \<open>The instances of every node that has some, and the counters at 0.\<close>

definition gen_instances ::
  "random \<Rightarrow> nat \<Rightarrow> string \<times> node \<Rightarrow> nat list obj \<times> link_state \<Rightarrow> (nat, nat list obj \<times> link_state) io" where
  "gen_instances r numNodeInstances kn st =
     (case (kn, st) of ((nodeName, nd), (allInstances, ls)) \<Rightarrow>
        if isSingleton nd then ret st
        else
          bindS (randomIndices r numNodeInstances) (\<lambda>is.
          ret (obj_put nodeName is allInstances,
               ls\<lparr>lk_in := fold (\<lambda>i m. obj_put (instance_key nodeName i) 0 m) [0..<numNodeInstances] (lk_in ls),
                  lk_out := fold (\<lambda>i m. obj_put (instance_key nodeName i) 0 m) [0..<numNodeInstances] (lk_out ls)\<rparr>)))"

text \<open>The candidates among the instances of the target: the marks that the loops leave at true.\<close>

definition is_candidate :: "schema \<Rightarrow> link_state \<Rightarrow> string \<Rightarrow> nat \<Rightarrow> string \<Rightarrow> nat \<Rightarrow> bool" where
  "is_candidate sch ls node i target x =
     ((if cyclic sch then True
       else if undirected sch then \<not> (x = i \<or> degree (lk_in ls) (instance_key target x) \<noteq> 0)
       else if target = node then \<not> x \<le> i
       else
         (let idx = degree (lk_max ls) (instance_key node i @ '' '' @ target); idx = (if idx = 0 then -1 else idx)
          in \<not> int x \<le> idx)) \<and>
      (fanin sch \<or> degree (lk_in ls) (instance_key target x) = 0))"

definition add_link :: "schema \<Rightarrow> string \<Rightarrow> nat \<Rightarrow> string \<Rightarrow> nat \<Rightarrow> link_state \<Rightarrow> link_state" where
  "add_link sch node i target j ls =
     (let src = instance_of node i; dst = instance_of target j; srcKey = instance_key node i; dstKey = instance_key target j;
          pairKey = srcKey @ '' '' @ target;
          ls = ls\<lparr>lk_out := add_degree srcKey (lk_out ls), lk_in := add_degree dstKey (lk_in ls),
                  lk_links := lk_links ls @ [\<lparr>link_src = src, link_dst = dst\<rparr>]\<rparr>;
          ls = (if int j > degree (lk_max ls) pairKey then ls\<lparr>lk_max := obj_put pairKey (int j) (lk_max ls)\<rparr> else ls)
      in if undirected sch then
           (let ls = ls\<lparr>lk_out := add_degree dstKey (lk_out ls), lk_in := add_degree srcKey (lk_in ls),
                        lk_links := lk_links ls @ [\<lparr>link_src = dst, link_dst = src\<rparr>]\<rparr>
            in if int i > degree (lk_max ls) (dstKey @ '' '' @ node) then ls\<lparr>lk_max := obj_put pairKey (int i) (lk_max ls)\<rparr> else ls)
         else ls)"

text \<open>The loop over the candidates, left when enough links are made.\<close>

fun add_links :: "schema \<Rightarrow> string \<Rightarrow> nat \<Rightarrow> string \<Rightarrow> nat list \<Rightarrow> int \<Rightarrow> link_state \<Rightarrow> link_state" where
  "add_links sch node i target [] n ls = ls"
| "add_links sch node i target (j # js) n ls =
     (let ls = add_link sch node i target j ls
      in if n - 1 \<le> 0 then ls else add_links sch node i target js (n - 1) ls)"

definition gen_links_to ::
  "random \<Rightarrow> schema \<Rightarrow> nat \<Rightarrow> nat list obj \<Rightarrow> string \<Rightarrow> nat \<Rightarrow> string \<times> link \<Rightarrow> link_state \<Rightarrow> (nat, link_state) io" where
  "gen_links_to r sch numNodeInstances allInstances node i entry ls =
     (case entry of (target, l) \<Rightarrow>
        let lBound = link_lower l;
            uBound = (case link_upper l of
                        Inf \<Rightarrow> int numNodeInstances
                      | Fin h \<Rightarrow> if h > int numNodeInstances then int numNodeInstances else h)
        in if \<not> lBound \<le> uBound then throw AssertionError
           else
             bindS (draw r (nat (uBound - lBound + 1))) (\<lambda>x.
             let n = int x - lBound - degree (lk_out ls) (instance_key node i)
             in if n \<le> 0 then ret ls
                else
                  (case get allInstances target of
                     Undef \<Rightarrow> throw TypeError
                   | Proto \<Rightarrow> throw Unmodelled
                   | Own is \<Rightarrow>
                       ret (add_links sch node i target (filter (is_candidate sch ls node i target) [0..<length is]) n ls))))"

definition gen_links ::
  "random \<Rightarrow> schema \<Rightarrow> nat \<Rightarrow> nat list obj \<Rightarrow> link_state \<Rightarrow> (nat, link_state) io" where
  "gen_links r sch numNodeInstances allInstances ls =
     foldS (\<lambda>(node, is) ls.
         foldS (\<lambda>i ls.
             (case get (nodes sch) node of
                Own nd \<Rightarrow> foldS (gen_links_to r sch numNodeInstances allInstances node i) (node_links nd) ls
              | _ \<Rightarrow> throw TypeError)) [0..<length is] ls)
       allInstances ls"

definition links_map :: "dlink list \<Rightarrow> links" where
  "links_map xs = fold (\<lambda>l m. jmap_set (dump_Link l) l m) xs []"

subsection \<open>Data sets\<close>

definition gen_sample ::
  "random \<Rightarrow> schema \<Rightarrow> nat \<Rightarrow> ds_file obj \<Rightarrow> nat \<Rightarrow> ds_file obj \<Rightarrow> (nat, ds_file obj) io" where
  "gen_sample r sch numNodeInstances classes s samples =
     bindS (randomString r 16) (\<lambda>sampleName.
     bindS (foldS (gen_node r classes numNodeInstances) (nodes sch) []) (\<lambda>nds.
     bindS (foldS (gen_instances r numNodeInstances) (nodes sch)
              ([], \<lparr>lk_links = [], lk_in = [], lk_out = [], lk_max = []\<rparr>)) (\<lambda>(allInstances, ls).
     bindS (gen_links r sch numNodeInstances allInstances ls) (\<lambda>ls.
     let nds = (if allInstances \<noteq> [] then obj_put ''links'' (LinksFile ''links'' (links_map (lk_links ls))) nds else nds)
     in ret (obj_put sampleName (Directory sampleName nds) samples)))))"

definition generateFromSchema :: "random \<Rightarrow> string \<Rightarrow> schema \<Rightarrow> nat \<Rightarrow> nat \<Rightarrow> (nat, dataset) io" where
  "generateFromSchema r root sch numSamples numNodeInstances =
     bindS (lift (throw_if (isVariable_schema sch) AssertionError)) (\<lambda>_.
     bindS (foldS (gen_class r) (categoryClasses sch) []) (\<lambda>classes.
     bindS (foldS (gen_sample r sch numNodeInstances classes) [0..<numSamples] []) (\<lambda>samples.
     ret \<lparr>ds_root = root, ds_directory = Directory [] (obj_assign (obj_assign [] samples) classes)\<rparr>)))"

end
