(* ===== verification/Generate_Correct.thy ===== *)
theory Generate_Correct
  imports Generate Links_Correct
begin

text \<open>
  What holds of every generated data set, whatever the random numbers: the shuffle is a permutation,
  and a schema that forbids fan-in gets links without fan-in. What does not hold: a schema that is
  not cyclic can get links that are, and bounds that are close together get no links at all.
\<close>
subsection \<open>Shuffle\<close>

lemma exchange_permutes:
  "exchange i j xs = Some ys \<Longrightarrow> mset ys = mset xs \<and> length ys = length xs"
  by (auto simp: exchange_def mset_swap split: if_splits)

lemma randomIndices_permutes:
  assumes "fair r"
  shows "\<exists>is w'. randomIndices r n w = (Inr is, w') \<and> mset is = mset [0..<n]"
proof -
  have "\<exists>is w'. randomIndices r n w = (Inr is, w') \<and> (mset is = mset [0..<n] \<and> length is = n)"
    unfolding randomIndices_def
  proof (rule foldS_total)
    fix i xs v assume i: "i \<in> set [0..<n]" "mset xs = mset [0..<n] \<and> length xs = n"
    then have "rnd_index r v n < n" using assms by (auto simp: fair_def)
    then obtain ys where ys: "exchange i (rnd_index r v n) xs = Some ys" using i by (auto simp: exchange_def)
    then show "\<exists>t' v'. bindS (draw r n) (\<lambda>j. case exchange i j xs of None \<Rightarrow> throw Unmodelled | Some ys \<Rightarrow> ret ys) v = (Inr t', v') \<and>
        (mset t' = mset [0..<n] \<and> length t' = n)"
      using exchange_permutes [OF ys] i by (simp add: bindS_def draw_def)
  qed simp
  then show ?thesis by blast
qed

subsection \<open>Links files\<close>

definition samples_in :: "dataset \<Rightarrow> (string \<times> ds_file) list list" where
  "samples_in d = concat (map (\<lambda>(k, f). case f of Directory _ cs \<Rightarrow> [cs] | _ \<Rightarrow> []) (dir_children (ds_directory d)))"

definition links_in :: "dataset \<Rightarrow> links list" where
  "links_in d = concat (map (\<lambda>cs. concat (map (\<lambda>(k, f). case f of LinksFile _ ls \<Rightarrow> [ls] | _ \<Rightarrow> []) cs)) (samples_in d))"

definition no_links :: "link_state \<Rightarrow> bool" where
  "no_links ls = (lk_links ls = [] \<and> (\<forall>k. degree (lk_in ls) k = 0) \<and> (\<forall>k. degree (lk_out ls) k = 0))"

lemma degree_put: "degree (obj_put k n m) j = (if j = k then n else degree m j)"
  by (simp add: degree_def)

lemma zero_degrees:
  "\<forall>k. degree m k = 0 \<Longrightarrow> degree (fold (\<lambda>i m. obj_put (f i) 0 m) xs m) k = 0"
  by (induction xs arbitrary: m) (auto simp: degree_put)
lemma gen_singleton_file: "gen_singleton r classes n nd w = (Inr f, w') \<Longrightarrow> file_type f \<noteq> ''links'' \<and> file_type f \<noteq> ''directory''"
  by (auto simp: gen_singleton_def bindS_Inr file_type_def split: list.splits prod.splits field.splits)

lemma gen_node_file: "gen_node r classes m kn nds w = (Inr nds', w') \<Longrightarrow> \<exists>k f. nds' = obj_put k f nds \<and> file_type f \<noteq> ''links''"
  using gen_singleton_file [of r classes "fst kn" "snd kn" w]
  by (cases kn) (fastforce simp: gen_node_def bindS_Inr file_type_def split: if_splits)

lemma gen_instances_no_links:
  "gen_instances r m kn (ixs, ls) w = (Inr (ixs', ls'), w') \<Longrightarrow> no_links ls \<Longrightarrow> no_links ls'"
  by (auto simp: gen_instances_def bindS_Inr no_links_def zero_degrees split: prod.splits if_splits)

definition made_links :: "random \<Rightarrow> schema \<Rightarrow> nat \<Rightarrow> links \<Rightarrow> bool" where
  "made_links r sch m links =
     (\<exists>ixs ls ls' w w'. no_links ls \<and> gen_links r sch m ixs ls w = (Inr ls', w') \<and> links = links_map (lk_links ls'))"

definition sample_links_ok :: "random \<Rightarrow> schema \<Rightarrow> nat \<Rightarrow> string \<times> ds_file \<Rightarrow> bool" where
  "sample_links_ok r sch m kf =
     (case kf of (k, f) \<Rightarrow>
        (\<exists>cs. f = Directory k cs \<and> (\<forall>(j, g) \<in> set cs. \<forall>n links. g = LinksFile n links \<longrightarrow> made_links r sch m links)))"

lemma gen_sample_links:
  assumes "gen_sample r sch m classes i samples w = (Inr samples', w')" and "\<forall>kf \<in> set samples. sample_links_ok r sch m kf"
  shows "\<forall>kf \<in> set samples'. sample_links_ok r sch m kf"
proof -
  obtain name nds ixs ls ls' v1 v2 v3 v4 v5 where g:
    "foldS (gen_node r classes m) (nodes sch) [] v1 = (Inr nds, v2)"
    "foldS (gen_instances r m) (nodes sch) ([], \<lparr>lk_links = [], lk_in = [], lk_out = [], lk_max = []\<rparr>) v2 = (Inr (ixs, ls), v3)"
    "gen_links r sch m ixs ls v3 = (Inr ls', v4)"
    "samples' = obj_put name (Directory name
        (if ixs \<noteq> [] then obj_put ''links'' (LinksFile ''links'' (links_map (lk_links ls'))) nds else nds)) samples"
    using assms(1) by (auto simp: gen_sample_def bindS_Inr Let_def split: prod.splits)
  have n: "\<forall>(j, f) \<in> set nds. file_type f \<noteq> ''links''"
  proof (rule foldS_invariant [where I = "\<lambda>nds. \<forall>(j, f) \<in> set nds. file_type f \<noteq> ''links''", OF g(1)])
    fix kn t t' v v' assume t: "\<forall>(j, f) \<in> set t. file_type f \<noteq> ''links''" "gen_node r classes m kn t v = (Inr t', v')"
    then obtain k f where "t' = obj_put k f t" "file_type f \<noteq> ''links''" using gen_node_file by blast
    then show "\<forall>(j, f) \<in> set t'. file_type f \<noteq> ''links''" using t(1) set_obj_put [of _ k f t] by fastforce
  qed simp
  have "no_links (snd (ixs, ls))"
    by (rule foldS_invariant [where I = "\<lambda>p. no_links (snd p)", OF g(2)])
      (simp add: no_links_def degree_def, use gen_instances_no_links in fastforce)
  then have m: "made_links r sch m (links_map (lk_links ls'))" using g(3) unfolding made_links_def snd_conv by blast
  have "made_links r sch m links" if "(j, LinksFile x links) \<in> set
      (if ixs \<noteq> [] then obj_put ''links'' (LinksFile ''links'' (links_map (lk_links ls'))) nds else nds)" for j x links
    using that n m set_obj_put [of "(j, LinksFile x links)" "''links''" _ nds] by (fastforce simp: file_type_def split: if_splits)
  then have "sample_links_ok r sch m (name, Directory name
        (if ixs \<noteq> [] then obj_put ''links'' (LinksFile ''links'' (links_map (lk_links ls'))) nds else nds))"
    unfolding sample_links_ok_def by blast
  then show ?thesis using assms(2) set_obj_put [of _ name _ samples] unfolding g(4) by blast
qed

lemma set_obj_assign: "kv \<in> set (obj_assign a b) \<Longrightarrow> kv \<in> set a \<or> kv \<in> set b"
proof -
  have "kv \<in> set (fold (\<lambda>(k, v) ob. obj_put k v ob) b a) \<Longrightarrow> kv \<in> set a \<or> kv \<in> set b"
  proof (induction b arbitrary: a)
    case (Cons x b)
    then show ?case using set_obj_put [of kv "fst x" "snd x" a] by (cases x) auto
  qed simp
  then show "kv \<in> set (obj_assign a b) \<Longrightarrow> kv \<in> set a \<or> kv \<in> set b" by (simp add: obj_assign_def)
qed

lemma generated_links:
  assumes "generateFromSchema r root sch samples m w = (Inr d, w')" and "ls \<in> set (links_in d)"
  shows "made_links r sch m ls"
proof -
  obtain classes ss v where g: "foldS (gen_class r) (categoryClasses sch) [] w = (Inr classes, v)"
    "foldS (gen_sample r sch m classes) [0..<samples] [] v = (Inr ss, w')"
    "d = \<lparr>ds_root = root, ds_directory = Directory [] (obj_assign (obj_assign [] ss) classes)\<rparr>"
    using assms(1) by (auto simp: generateFromSchema_def bindS_Inr)
  have c: "\<forall>(k, f) \<in> set classes. file_type f = ''class''"
  proof (rule foldS_invariant [where I = "\<lambda>cs. \<forall>(k, f) \<in> set cs. file_type f = ''class''", OF g(1)])
    fix kc t t' v v' assume t: "\<forall>(k, f) \<in> set t. file_type f = ''class''" "gen_class r kc t v = (Inr t', v')"
    then obtain k cats where "t' = obj_put k (ClassFile k cats) t"
      by (auto simp: gen_class_def bindS_Inr split: prod.splits dim.splits)
    then show "\<forall>(k, f) \<in> set t'. file_type f = ''class''"
      using t(1) set_obj_put [of _ k "ClassFile k cats" t] by (fastforce simp: file_type_def)
  qed simp
  have s: "\<forall>kf \<in> set ss. sample_links_ok r sch m kf"
    by (rule foldS_invariant [where I = "\<lambda>ss. \<forall>kf \<in> set ss. sample_links_ok r sch m kf", OF g(2)]) (simp, use gen_sample_links in blast)
  obtain k n cs j x where f: "(k, Directory n cs) \<in> set (obj_assign (obj_assign [] ss) classes)" "(j, LinksFile x ls) \<in> set cs"
    using assms(2) unfolding links_in_def samples_in_def g(3) by (auto split: ds_file.splits)
  then have "(k, Directory n cs) \<in> set ss"
    using set_obj_assign [OF f(1)] set_obj_assign [of _ "[]" ss] c by (fastforce simp: file_type_def)
  then show ?thesis using s f(2) unfolding sample_links_ok_def by fastforce
qed
subsection \<open>No fan-in\<close>

definition dst_key :: "dlink \<Rightarrow> string" where
  "dst_key l = dumpInstanceId (link_dst l)"

lemma distinct_not_fanin: "distinct (map dst_key (map snd ls)) \<Longrightarrow> \<not> isFanin False ls"
proof
  assume d: "distinct (map dst_key (map snd ls))" and "isFanin False ls"
  then obtain pre l post where p: "map snd ls = pre @ l # post"
      "1 \<le> length (filter (\<lambda>l'. dumpInstanceId (link_dst l') = dumpInstanceId (link_dst l)) pre)"
    using isFanin_loop_iff [of False "map snd ls" "[]"] by (auto simp: isFanin_def)
  then have "filter (\<lambda>l'. dumpInstanceId (link_dst l') = dumpInstanceId (link_dst l)) pre \<noteq> []" by auto
  then have "dst_key l \<in> dst_key ` set pre" unfolding filter_empty_conv dst_key_def by (metis image_eqI)
  then show False using d unfolding p(1) by simp
qed

lemma links_map_entries:
  "(\<forall>(k, l) \<in> set (links_map xs). k = dump_Link l \<and> l \<in> set xs) \<and> distinct (map fst (links_map xs))"
proof -
  have "(\<forall>(k, l) \<in> set (fold (\<lambda>l m. jmap_set (dump_Link l) l m) xs m). k = dump_Link l \<and> l \<in> set xs \<union> snd ` set m) \<and>
      distinct (map fst (fold (\<lambda>l m. jmap_set (dump_Link l) l m) xs m))"
    if "\<forall>(k, l) \<in> set m. k = dump_Link l" "distinct (map fst m)" for m
    using that
  proof (induction xs arbitrary: m)
    case Nil
    then show ?case by force
  next
    case (Cons x xs)
    have e: "(k, l) = (dump_Link x, x) \<or> (k, l) \<in> set m" if "(k, l) \<in> set (jmap_set (dump_Link x) x m)" for k l
    proof -
      have "map_of (jmap_set (dump_Link x) x m) k = Some l" using map_of_is_SomeI [OF _ that] Cons.prems(2) by (simp del: map_of_jmap_set)
      then show ?thesis by (auto split: if_splits dest: map_of_SomeD)
    qed
    then have "\<forall>(k, l) \<in> set (jmap_set (dump_Link x) x m). k = dump_Link l" using Cons.prems(1) by blast
    then have "(\<forall>(k, l) \<in> set (fold (\<lambda>l m. jmap_set (dump_Link l) l m) xs (jmap_set (dump_Link x) x m)). k = dump_Link l \<and>
        l \<in> set xs \<union> snd ` set (jmap_set (dump_Link x) x m)) \<and>
        distinct (map fst (fold (\<lambda>l m. jmap_set (dump_Link l) l m) xs (jmap_set (dump_Link x) x m)))"
      using Cons.prems(2) by (intro Cons.IH) simp_all
    moreover have "snd ` set (jmap_set (dump_Link x) x m) \<subseteq> insert x (snd ` set m)" using e by force
    ultimately show ?case by fastforce
  qed
  from this [of "[]"] show ?thesis by (simp add: links_map_def)
qed

lemma links_map_not_fanin: "distinct (map dst_key xs) \<Longrightarrow> \<not> isFanin False (links_map xs)"
proof (rule distinct_not_fanin)
  assume d: "distinct (map dst_key xs)"
  have "inj_on (\<lambda>e. dst_key (snd e)) (set (links_map xs))"
  proof (rule inj_onI)
    fix e e' assume e: "e \<in> set (links_map xs)" "e' \<in> set (links_map xs)" "dst_key (snd e) = dst_key (snd e')"
    then have "snd e \<in> set xs" "snd e' \<in> set xs" "fst e = dump_Link (snd e)" "fst e' = dump_Link (snd e')"
      using links_map_entries [of xs] by (auto simp: case_prod_unfold)
    moreover have "snd e = snd e'" using d e(3) calculation(1,2) by (auto simp: distinct_map dest: inj_onD)
    ultimately show "e = e'" by (simp add: prod_eq_iff)
  qed
  moreover have "distinct (links_map xs)" using links_map_entries [of xs] by (simp add: distinct_map)
  ultimately show "distinct (map dst_key (map snd (links_map xs)))" by (simp add: distinct_map comp_def)
qed

definition fan_ok :: "link_state \<Rightarrow> bool" where
  "fan_ok ls =
     (distinct (map dst_key (lk_links ls)) \<and> (\<forall>l \<in> set (lk_links ls). 0 < degree (lk_in ls) (dst_key l)) \<and>
      (\<forall>k. 0 \<le> degree (lk_in ls) k))"

lemma add_link_in: "\<not> undirected sch \<Longrightarrow> lk_in (add_link sch node i target j ls) = add_degree (instance_key target j) (lk_in ls) \<and>
    (\<exists>l. lk_links (add_link sch node i target j ls) = lk_links ls @ [l] \<and> dst_key l = instance_key target j)"
  by (simp add: add_link_def Let_def dst_key_def instance_key_def)

lemma degree_add: "degree (add_degree k m) j = (if j = k then degree m j + 1 else degree m j)"
  by (simp add: add_degree_def degree_put)

lemma add_link_fan_ok:
  assumes "\<not> undirected sch" and "fan_ok ls" and "degree (lk_in ls) (instance_key target j) = 0"
  shows "fan_ok (add_link sch node i target j ls)"
proof -
  obtain l where l: "lk_links (add_link sch node i target j ls) = lk_links ls @ [l]" "dst_key l = instance_key target j"
    using add_link_in [OF assms(1)] by blast
  have "dst_key l \<notin> dst_key ` set (lk_links ls)" using assms(2,3) l(2) by (fastforce simp: fan_ok_def)
  then show ?thesis using assms(2) l add_link_in [OF assms(1), of node i target j ls]
    by (force simp: fan_ok_def degree_add intro: add_nonneg_nonneg)
qed

lemma instance_key_inj: "instance_key n i = instance_key n j \<Longrightarrow> i = j"
  by (auto simp: instance_key_def instance_of_def dumpInstanceId_def int_text_def dest: digits_of_inj)

lemma add_links_fan_ok:
  "\<not> undirected sch \<Longrightarrow> fan_ok ls \<Longrightarrow> distinct js \<Longrightarrow> \<forall>j \<in> set js. degree (lk_in ls) (instance_key target j) = 0 \<Longrightarrow>
    fan_ok (add_links sch node i target js n ls)"
proof (induction sch node i target js n ls rule: add_links.induct)
  case (2 sch node i target j js n ls)
  let ?ls = "add_link sch node i target j ls"
  have l: "fan_ok ?ls" using 2(2,3,5) by (intro add_link_fan_ok) auto
  have "degree (lk_in ?ls) (instance_key target k) = 0" if "k \<in> set js" for k
  proof -
    have "k \<noteq> j" using 2(4) that by auto
    then have "instance_key target k \<noteq> instance_key target j" using instance_key_inj by blast
    then show ?thesis using 2(2,5) that add_link_in [of sch node i target j ls] by (simp add: degree_add)
  qed
  then show ?case using l 2(1) [OF refl] 2(2,4) by (simp add: Let_def)
qed simp
lemma gen_links_to_fan_ok:
  assumes "gen_links_to r sch m ixs node i entry ls w = (Inr ls', w')" and "\<not> undirected sch" and "\<not> fanin sch" and "fan_ok ls"
  shows "fan_ok ls'"
proof -
  obtain target l where e: "entry = (target, l)" by (cases entry)
  have "ls' = ls \<or> (\<exists>n k. ls' = add_links sch node i target (filter (is_candidate sch ls node i target) [0..<k]) n ls)"
    using assms(1) unfolding gen_links_to_def e by (auto simp: Let_def bindS_Inr split: if_splits lookup.splits)
  moreover have "fan_ok (add_links sch node i target (filter (is_candidate sch ls node i target) [0..<k]) n ls)" for n k
    using assms(2,3,4) by (intro add_links_fan_ok) (auto simp: is_candidate_def)
  ultimately show ?thesis using assms(4) by auto
qed

text \<open>An invariant of the innermost loop is one of all of them.\<close>

lemma gen_links_invariant:
  assumes g: "gen_links r sch m ixs ls w = (Inr ls', w')" and "I ls"
    and s: "\<And>node nd i entry t t' v v'. get (nodes sch) node = Own nd \<Longrightarrow> entry \<in> set (node_links nd) \<Longrightarrow> I t \<Longrightarrow>
      gen_links_to r sch m ixs node i entry t v = (Inr t', v') \<Longrightarrow> I t'"
  shows "I ls'"
proof (rule foldS_invariant [where I = I, OF g [unfolded gen_links_def] assms(2)])
  fix x t t' v v' assume "I t" and x: "(case x of (node, js) \<Rightarrow>
         foldS (\<lambda>i ls.
             (case get (nodes sch) node of
                Own nd \<Rightarrow> foldS (gen_links_to r sch m ixs node i) (node_links nd) ls
              | _ \<Rightarrow> throw TypeError)) [0..<length js]) t v = (Inr t', v')"
  obtain node js where xn: "x = (node, js)" by (cases x)
  show "I t'"
  proof (rule foldS_invariant [where I = I, OF x [unfolded xn prod.case] \<open>I t\<close>])
    fix i u u' v v' assume "I u" and i: "(case get (nodes sch) node of
                Own nd \<Rightarrow> foldS (gen_links_to r sch m ixs node i) (node_links nd) u
              | _ \<Rightarrow> throw TypeError) v = (Inr u', v')"
    then obtain nd where nd: "get (nodes sch) node = Own nd" "foldS (gen_links_to r sch m ixs node i) (node_links nd) u v = (Inr u', v')"
      by (auto split: lookup.splits)
    show "I u'" by (rule foldS_invariant [where I = I, OF nd(2) \<open>I u\<close>]) (use s [OF nd(1)] in blast)
  qed
qed

lemma no_links_fan_ok: "no_links ls \<Longrightarrow> fan_ok ls"
  by (simp add: no_links_def fan_ok_def)

lemma made_links_not_fanin:
  assumes "made_links r sch m ls" and "\<not> undirected sch" and "\<not> fanin sch"
  shows "\<not> isFanin False ls"
proof -
  obtain ixs s s' w w' where g: "no_links s" "gen_links r sch m ixs s w = (Inr s', w')" "ls = links_map (lk_links s')"
    using assms(1) by (auto simp: made_links_def)
  have "fan_ok s'"
    by (rule gen_links_invariant [where I = fan_ok, OF g(2) no_links_fan_ok [OF g(1)]]) (use gen_links_to_fan_ok assms(2,3) in blast)
  then show ?thesis unfolding g(3) by (intro links_map_not_fanin) (simp add: fan_ok_def)
qed

subsection \<open>Close bounds\<close>

definition close_bounds :: "link \<Rightarrow> bool" where
  "close_bounds l = (case link_upper l of Fin h \<Rightarrow> h \<le> 2 * link_lower l | Inf \<Rightarrow> False)"

lemma gen_links_to_close:
  assumes "gen_links_to r sch m ixs node i (target, l) ls w = (Inr ls', w')" and "fair r" and "close_bounds l" and "no_links ls"
  shows "ls' = ls"
proof -
  obtain h where h: "link_upper l = Fin h" "h \<le> 2 * link_lower l" using assms(3) by (auto simp: close_bounds_def split: bound.splits)
  define u where "u = (if h > int m then int m else h)"
  have g: "(if \<not> link_lower l \<le> u then throw AssertionError
     else bindS (draw r (nat (u - link_lower l + 1))) (\<lambda>x.
             let n = int x - link_lower l - degree (lk_out ls) (instance_key node i)
             in if n \<le> 0 then ret ls
                else (case get ixs target of Undef \<Rightarrow> throw TypeError | Proto \<Rightarrow> throw Unmodelled
                   | Own is \<Rightarrow> ret (add_links sch node i target (filter (is_candidate sch ls node i target) [0..<length is]) n ls)))) w = (Inr ls', w')"
    using assms(1) unfolding gen_links_to_def prod.case Let_def h(1) bound.case u_def by assumption
  have b: "link_lower l \<le> u" using g by (auto split: if_splits)
  let ?x = "rnd_index r w (nat (u - link_lower l + 1))"
  have "?x < nat (u - link_lower l + 1)" using assms(2) b by (auto simp: fair_def)
  then have "int ?x \<le> link_lower l" using h(2) by (auto simp: u_def split: if_splits)
  then have "int ?x - link_lower l - degree (lk_out ls) (instance_key node i) \<le> 0" using assms(4) by (simp add: no_links_def)
  then show ?thesis using g b by (simp add: bindS_def draw_def Let_def)
qed

lemma made_links_close:
  assumes "made_links r sch m ls" and "fair r" and "\<forall>nd \<in> snd ` set (nodes sch). \<forall>l \<in> snd ` set (node_links nd). close_bounds l"
  shows "ls = []"
proof -
  obtain ixs s s' w w' where g: "no_links s" "gen_links r sch m ixs s w = (Inr s', w')" "ls = links_map (lk_links s')"
    using assms(1) by (auto simp: made_links_def)
  have "no_links s'"
  proof (rule gen_links_invariant [where I = no_links, OF g(2,1)])
    fix node nd i entry t t' v v' assume a: "get (nodes sch) node = Own nd" "entry \<in> set (node_links nd)" "no_links t"
      "gen_links_to r sch m ixs node i entry t v = (Inr t', v')"
    have "(node, nd) \<in> set (nodes sch)" using a(1) by (auto simp: get_def split: option.splits if_splits dest: map_of_SomeD)
    then have "close_bounds (snd entry)" using assms(3) a(2) by force
    then show "no_links t'" using gen_links_to_close [of r sch m ixs node i "fst entry" "snd entry" t v t' v'] a assms(2) by auto
  qed
  then show ?thesis by (simp add: g(3) no_links_def links_map_def)
qed
subsection \<open>Properties\<close>

text \<open>C35. \<^verbatim>\<open>randomIndices\<close> returns each of the indices once, whatever the random numbers are.\<close>

theorem random_indices_permutation:
  assumes "fair r"
  shows "\<exists>result k'. randomIndices r n k = (Inr result, k') \<and> mset result = mset [0..<n]"
  using assms by (rule randomIndices_permutes)

definition demo_random :: random where
  "demo_random = \<lparr>rnd_index = (\<lambda>k n. n - 1), rnd_value = (\<lambda>k. 0)\<rparr>"

theorem random_indices_permutation_witness:
  "\<exists>result k'. randomIndices demo_random 3 0 = (Inr result, k') \<and> mset result = mset [0..<3]"
  by (rule random_indices_permutation) (simp add: fair_def demo_random_def)

definition demo_node :: "string \<Rightarrow> int \<Rightarrow> int \<Rightarrow> node" where
  "demo_node target low high =
     \<lparr>isSingleton = False, node_fields = [],
      node_links = [(target, \<lparr>link_lower = low, link_upper = Fin high\<rparr>)], node_srcName = None\<rparr>"

definition demo_schema :: "string \<Rightarrow> int \<Rightarrow> int \<Rightarrow> schema" where
  "demo_schema target low high =
     \<lparr>nodes = [(''a'', demo_node target low high), (''b'', demo_node ''a'' low high)],
      categoryClasses = [], cyclic = False, undirected = False,
      fanin = False, srcDims = JNull\<rparr>"


lemma bindS_weak_cong: "m = m' \<Longrightarrow> bindS m f = bindS m' f"
  by simp

text \<open>The run for one sample with one instance, in pieces.\<close>

definition demo_start :: link_state where
  "demo_start =
     \<lparr>lk_links = [], lk_in = [(''a/0'', 0), (''b/0'', 0)], lk_out = [(''a/0'', 0), (''b/0'', 0)], lk_max = []\<rparr>"

lemma demo_run:
  assumes g: "gen_links demo_random (demo_schema ''b'' low high) 1 [(''a'', [0]), (''b'', [0])] demo_start 18 = (Inr ls, k)"
  shows "generateFromSchema demo_random [] (demo_schema ''b'' low high) 1 1 0 =
    (Inr \<lparr>ds_root = [], ds_directory = Directory [] [(''9999999999999999'', Directory ''9999999999999999''
      [(''a'', Directory ''a'' []), (''b'', Directory ''b'' []), (''links'', LinksFile ''links'' (links_map (lk_links ls)))])]\<rparr>, k)"
proof -
  have v: "\<not> isVariable_schema (demo_schema ''b'' low high)" "categoryClasses (demo_schema ''b'' low high) = []"
    by (simp_all add: isVariable_schema_def isVariable_node_def demo_schema_def demo_node_def)
  have k: "obj_put ''a'' f [] = [(''a'', f)]" "obj_put ''b'' g [(''a'', f)] = [(''a'', f), (''b'', g)]" for f g :: ds_file by code_simp+
  have 1: "randomString demo_random 16 0 = (Inr ''9999999999999999'', 16)" by code_simp
  have 2: "foldS (gen_node demo_random [] 1) (nodes (demo_schema ''b'' low high)) [] 16 =
      (Inr [(''a'', Directory ''a'' []), (''b'', Directory ''b'' [])], 16)"
    by (simp add: demo_schema_def demo_node_def gen_node_def bindS_step k)
  have 3: "foldS (gen_instances demo_random 1) (nodes (demo_schema ''b'' low high))
      ([], \<lparr>lk_links = [], lk_in = [], lk_out = [], lk_max = []\<rparr>) 16 = (Inr ([(''a'', [0]), (''b'', [0])], demo_start), 18)" by code_simp
  have 4: "obj_put ''links'' f [(''a'', Directory ''a'' []), (''b'', Directory ''b'' [])] =
      [(''a'', Directory ''a'' []), (''b'', Directory ''b'' []), (''links'', f)]" "obj_put x f [] = [(x, f)]" for f x
    by (code_simp, simp add: obj_put_def keys_def split: option.split)
  have "gen_sample demo_random (demo_schema ''b'' low high) 1 [] 0 [] 0 =
      (Inr [(''9999999999999999'', Directory ''9999999999999999''
      [(''a'', Directory ''a'' []), (''b'', Directory ''b'' []), (''links'', LinksFile ''links'' (links_map (lk_links ls)))])], k)"
    unfolding gen_sample_def bindS_step [of "randomString demo_random 16", OF 1]
      bindS_step [of "foldS (gen_node demo_random [] 1) (nodes (demo_schema ''b'' low high)) []", OF 2]
      bindS_step [of "foldS (gen_instances demo_random 1) (nodes (demo_schema ''b'' low high)) ([], \<lparr>lk_links = [], lk_in = [], lk_out = [], lk_max = []\<rparr>)", OF 3]
      prod.case bindS_step [of "gen_links demo_random (demo_schema ''b'' low high) 1 [(''a'', [0]), (''b'', [0])] demo_start", OF g]
    by (simp add: 4 Let_def)
  then show ?thesis by (simp add: generateFromSchema_def v throw_if_def bindS_step obj_assign_def 4)
qed

lemma demo_links:
  "\<exists>ls k. gen_links demo_random (demo_schema ''b'' 0 1) 1 [(''a'', [0]), (''b'', [0])] demo_start 18 = (Inr ls, k) \<and>
     lk_links ls = [\<lparr>link_src = instance_of ''a'' 0, link_dst = instance_of ''b'' 0\<rparr>,
       \<lparr>link_src = instance_of ''b'' 0, link_dst = instance_of ''a'' 0\<rparr>]"
proof -
  have "case gen_links demo_random (demo_schema ''b'' 0 1) 1 [(''a'', [0]), (''b'', [0])] demo_start 18 of (Inl e, k) \<Rightarrow> False
      | (Inr ls, k) \<Rightarrow> lk_links ls = [\<lparr>link_src = instance_of ''a'' 0, link_dst = instance_of ''b'' 0\<rparr>,
       \<lparr>link_src = instance_of ''b'' 0, link_dst = instance_of ''a'' 0\<rparr>]" by code_simp
  then show ?thesis by (auto split: prod.splits sum.splits)
qed

lemma demo_close_links:
  "\<exists>ls k. gen_links demo_random (demo_schema ''b'' 1 1) 1 [(''a'', [0]), (''b'', [0])] demo_start 18 = (Inr ls, k)"
proof -
  have "case gen_links demo_random (demo_schema ''b'' 1 1) 1 [(''a'', [0]), (''b'', [0])] demo_start 18 of (Inl e, k) \<Rightarrow> False
      | (Inr ls, k) \<Rightarrow> True" by code_simp
  then show ?thesis by (auto split: prod.splits sum.splits)
qed

lemma demo_links_in:
  "\<exists>d k ls. generateFromSchema demo_random [] (demo_schema ''b'' 0 1) 1 1 0 = (Inr d, k) \<and> links_in d = [ls] \<and>
     map fst ls = [''a/0 b/0'', ''b/0 a/0''] \<and> isCyclic False ls = Inr True"
proof -
  obtain ls k where ls: "gen_links demo_random (demo_schema ''b'' 0 1) 1 [(''a'', [0]), (''b'', [0])] demo_start 18 = (Inr ls, k)"
    "lk_links ls = [\<lparr>link_src = instance_of ''a'' 0, link_dst = instance_of ''b'' 0\<rparr>,
       \<lparr>link_src = instance_of ''b'' 0, link_dst = instance_of ''a'' 0\<rparr>]" using demo_links by blast
  have "map fst (links_map (lk_links ls)) = [''a/0 b/0'', ''b/0 a/0''] \<and> isCyclic False (links_map (lk_links ls)) = Inr True"
    unfolding ls(2) by code_simp
  then show ?thesis using demo_run [OF ls(1)] by (simp add: links_in_def samples_in_def)
qed

text \<open>C36. The links of a data set that is generated for a schema that is directed and without fan-in have no
  fan-in: \<^verbatim>\<open>isFanin\<close> answers false for the links of every sample.\<close>

theorem generated_without_fanin:
  assumes "generateFromSchema r root sch numSamples numNodeInstances k = (Inr d, k')"
    and "\<not> undirected sch" and "\<not> fanin sch"
  shows "list_all (\<lambda>ls. \<not> isFanin False ls) (links_in d)"
  using generated_links [OF assms(1)] made_links_not_fanin assms(2,3) by (fastforce simp: list_all_iff)

theorem generated_without_fanin_witness:
  "\<exists>d k ls. generateFromSchema demo_random [] (demo_schema ''b'' 0 1) 1 1 0 = (Inr d, k) \<and> links_in d = [ls] \<and>
     map fst ls = [''a/0 b/0'', ''b/0 a/0''] \<and> \<not> isFanin False ls"
proof -
  obtain d k ls where d: "generateFromSchema demo_random [] (demo_schema ''b'' 0 1) 1 1 0 = (Inr d, k)" "links_in d = [ls]"
    "map fst ls = [''a/0 b/0'', ''b/0 a/0'']" using demo_links_in by (elim exE conjE)
  then show ?thesis using generated_without_fanin [OF d(1)] by (simp add: demo_schema_def)
qed

text \<open>A schema that is not cyclic can get cyclic links: with two nodes that link to each other, \<^verbatim>\<open>generateFromSchema\<close>
  makes a link from the first instance to the second and one back.\<close>

theorem generates_cyclic_links:
  "fair demo_random \<and> wf_schema (demo_schema ''b'' 0 1) \<and> \<not> cyclic (demo_schema ''b'' 0 1) \<and>
   (\<exists>d k ls. generateFromSchema demo_random [] (demo_schema ''b'' 0 1) 1 1 0 = (Inr d, k) \<and> links_in d = [ls] \<and>
      isCyclic False ls = Inr True)"
proof (intro conjI)
  show "fair demo_random" by (simp add: fair_def demo_random_def)
  show "wf_schema (demo_schema ''b'' 0 1)" by code_simp
  show "\<not> cyclic (demo_schema ''b'' 0 1)" by (simp add: demo_schema_def)
qed (use demo_links_in in blast)

text \<open>When the upper bound of every link is at most twice the lower one, no links are generated, since the
  lower bound is subtracted from the random number instead of added: the links of every sample are empty.\<close>

theorem close_bounds_no_links:
  assumes "generateFromSchema r root sch numSamples numNodeInstances k = (Inr d, k')" and "fair r"
    and "list_all (list_all close_bounds) (map (\<lambda>nd. map snd (node_links nd)) (map snd (nodes sch)))"
  shows "list_all (\<lambda>ls. ls = []) (links_in d)"
  using generated_links [OF assms(1)] made_links_close [OF _ assms(2)] assms(3) by (auto simp: list_all_iff)

theorem close_bounds_no_links_witness:
  "\<exists>d k. generateFromSchema demo_random [] (demo_schema ''b'' 1 1) 1 1 0 = (Inr d, k) \<and> links_in d = [[]]"
proof -
  obtain ls k where ls: "gen_links demo_random (demo_schema ''b'' 1 1) 1 [(''a'', [0]), (''b'', [0])] demo_start 18 = (Inr ls, k)"
    using demo_close_links by blast
  note run = demo_run [OF ls]
  have "fair demo_random" by (simp add: fair_def demo_random_def)
  moreover have "list_all (list_all close_bounds) (map (\<lambda>nd. map snd (node_links nd)) (map snd (nodes (demo_schema ''b'' 1 1))))" by code_simp
  ultimately have "list_all (\<lambda>ls. ls = []) (links_in \<lparr>ds_root = [], ds_directory = Directory [] [(''9999999999999999'', Directory ''9999999999999999''
      [(''a'', Directory ''a'' []), (''b'', Directory ''b'' []), (''links'', LinksFile ''links'' (links_map (lk_links ls)))])]\<rparr>)"
    by (rule close_bounds_no_links [OF run])
  then show ?thesis using run by (simp add: links_in_def samples_in_def)
qed

end
