(* ===== verification/Client_Values.thy ===== *)
theory Client_Values
  imports Json
begin

text \<open>
  Values of the REST client (\<^verbatim>\<open>src/client/javascript/easemlclient/src\<close>): JSON values, \<^verbatim>\<open>undefined\<close> and
  \<^verbatim>\<open>NaN\<close>, with what the client uses of the language on them: reading a property, truthiness, conversion
  to text and to a number, \<^verbatim>\<open>JSON.stringify\<close> and \<^verbatim>\<open>btoa\<close>. Fractions have no exact text in the model;
  converting one to text is \<open>Unmodelled\<close>.
\<close>

subsection \<open>Values\<close>

datatype jsv = Undefined | NaN | Json jsval

abbreviation Str :: "string \<Rightarrow> jsv" where
  "Str s \<equiv> Json (JStr s)"

fun js_truthy :: "jsv \<Rightarrow> bool" where
  "js_truthy Undefined = False"
| "js_truthy NaN = False"
| "js_truthy (Json v) = truthy v"

text \<open>\<^verbatim>\<open>v || d\<close>\<close>

definition or_else :: "jsv \<Rightarrow> jsval \<Rightarrow> jsv" where
  "or_else v d = (if js_truthy v then v else Json d)"

text \<open>\<^verbatim>\<open>ob.k\<close> for an object \<open>ob\<close>, where \<open>k\<close> is not an inherited name.\<close>

definition field_of :: "jsv obj \<Rightarrow> string \<Rightarrow> jsv" where
  "field_of ob k = (case map_of ob k of Some v \<Rightarrow> v | None \<Rightarrow> Undefined)"

text \<open>\<^verbatim>\<open>v.k\<close> for any value \<open>v\<close>. The names that the client reads are no properties of arrays, texts or
  numbers.\<close>

fun property :: "jsv \<Rightarrow> string \<Rightarrow> jsv res" where
  "property Undefined k = Inl TypeError"
| "property NaN k = Inr Undefined"
| "property (Json JNull) k = Inl TypeError"
| "property (Json (JObj ob)) k = Inr (case map_of ob k of Some v \<Rightarrow> Json v | None \<Rightarrow> Undefined)"
| "property (Json v) k = Inr Undefined"

subsection \<open>Conversions\<close>

text \<open>The text of a value (\<^verbatim>\<open>String(v)\<close>). An object with a property of its own named \<^verbatim>\<open>toString\<close> has none:
  the property is no function.\<close>

fun value_text :: "jsval \<Rightarrow> string res" and value_texts :: "jsval list \<Rightarrow> string list res" where
  "value_text JNull = Inr ''null''"
| "value_text (JBool b) = Inr (if b then ''true'' else ''false'')"
| "value_text (JInt n) = Inr (int_text n)"
| "value_text (JFrac m e) = Inl Unmodelled"
| "value_text (JStr s) = Inr s"
| "value_text (JArr xs) = bindE (value_texts xs) (\<lambda>ts. Inr (join '','' ts))"
| "value_text (JObj ob) = (if ''toString'' \<in> set (keys ob) then Inl TypeError else Inr ''[object Object]'')"
| "value_texts [] = Inr []"
| "value_texts (x # xs) =
     bindE (if x = JNull then Inr [] else value_text x) (\<lambda>t. bindE (value_texts xs) (\<lambda>ts. Inr (t # ts)))"

fun js_text :: "jsv \<Rightarrow> string res" where
  "js_text Undefined = Inr ''undefined''"
| "js_text NaN = Inr ''NaN''"
| "js_text (Json v) = value_text v"

text \<open>The number a text stands for: white space around it is ignored, no text is zero, and a text that
  is no numeral is \<^verbatim>\<open>NaN\<close>. Numerals other than decimal integers are \<open>Unmodelled\<close>.\<close>

definition text_number :: "string \<Rightarrow> jsv res" where
  "text_number s =
     (let t = trim s;
          negative = (t \<noteq> [] \<and> hd t = CHR ''-'');
          u = (if t \<noteq> [] \<and> (hd t = CHR ''-'' \<or> hd t = CHR ''+'') then tl t else t)
      in if t = [] then Inr (Json (JInt 0))
         else if u \<noteq> [] \<and> list_all is_digit u then Inr (Json (JInt (if negative then - int (decimal u) else int (decimal u))))
         else if u \<noteq> [] \<and> (is_digit (hd u) \<or> hd u = CHR ''.'' \<or> hd u = CHR ''I'') then Inl Unmodelled
         else Inr NaN)"

text \<open>\<^verbatim>\<open>Number(v)\<close>\<close>

fun js_number :: "jsv \<Rightarrow> jsv res" where
  "js_number Undefined = Inr NaN"
| "js_number NaN = Inr NaN"
| "js_number (Json JNull) = Inr (Json (JInt 0))"
| "js_number (Json (JBool b)) = Inr (Json (JInt (if b then 1 else 0)))"
| "js_number (Json (JInt n)) = Inr (Json (JInt n))"
| "js_number (Json (JFrac m e)) = Inr (Json (JFrac m e))"
| "js_number (Json (JStr s)) = text_number s"
| "js_number (Json (JArr xs)) = bindE (value_text (JArr xs)) text_number"
| "js_number (Json (JObj ob)) = bindE (value_text (JObj ob)) text_number"

text \<open>\<^verbatim>\<open>parseInt(s)\<close>; a text with the prefix \<^verbatim>\<open>0x\<close> is \<open>Unmodelled\<close>.\<close>

definition js_parse_int :: "string \<Rightarrow> jsv res" where
  "js_parse_int s =
     (let t = dropWhile is_space s;
          u = (if t \<noteq> [] \<and> (hd t = CHR ''-'' \<or> hd t = CHR ''+'') then tl t else t)
      in if take 2 u = ''0x'' \<or> take 2 u = ''0X'' then Inl Unmodelled
         else Inr (case parse_int s of Some n \<Rightarrow> Json (JInt n) | None \<Rightarrow> NaN))"

subsection \<open>JSON.stringify\<close>

definition hex_digit :: "nat \<Rightarrow> char" where
  "hex_digit n = (if n < 10 then char_of (48 + n) else char_of (87 + n))"

definition quote_char :: "char \<Rightarrow> string" where
  "quote_char c =
     (case map_of [(CHR 0x08, CHR ''b''), (CHR 0x09, CHR ''t''), (CHR 0x0A, CHR ''n''), (CHR 0x0C, CHR ''f''),
                   (CHR 0x0D, CHR ''r''), (quote, quote), (CHR 0x5C, CHR 0x5C)] c of
        Some d \<Rightarrow> [CHR 0x5C, d]
      | None \<Rightarrow>
          if (of_char c :: nat) < 32
          then [CHR 0x5C, CHR ''u'', CHR ''0'', CHR ''0'', hex_digit (of_char c div 16), hex_digit (of_char c mod 16)]
          else [c])"

definition quote_text :: "string \<Rightarrow> string" where
  "quote_text s = quote # concat (map quote_char s) @ [quote]"

fun stringify :: "jsval \<Rightarrow> string res"
  and stringify_items :: "jsval list \<Rightarrow> string list res"
  and stringify_members :: "jsval obj \<Rightarrow> string list res" where
  "stringify JNull = Inr ''null''"
| "stringify (JBool b) = Inr (if b then ''true'' else ''false'')"
| "stringify (JInt n) = Inr (int_text n)"
| "stringify (JFrac m e) = Inl Unmodelled"
| "stringify (JStr s) = Inr (quote_text s)"
| "stringify (JArr xs) = bindE (stringify_items xs) (\<lambda>ts. Inr (CHR ''['' # join '','' ts @ [CHR '']'']))"
| "stringify (JObj ob) = bindE (stringify_members ob) (\<lambda>ts. Inr (CHR ''{'' # join '','' ts @ [CHR ''}'']))"
| "stringify_items [] = Inr []"
| "stringify_items (x # xs) = bindE (stringify x) (\<lambda>t. bindE (stringify_items xs) (\<lambda>ts. Inr (t # ts)))"
| "stringify_members [] = Inr []"
| "stringify_members ((k, x) # ms) =
     bindE (stringify x) (\<lambda>t. bindE (stringify_members ms) (\<lambda>ts. Inr ((quote_text k @ CHR '':'' # t) # ts)))"

fun JSON_stringify :: "jsv \<Rightarrow> jsv res" where
  "JSON_stringify Undefined = Inr Undefined"
| "JSON_stringify NaN = Inr (Str ''null'')"
| "JSON_stringify (Json v) = bindE (stringify v) (\<lambda>t. Inr (Str t))"

subsection \<open>btoa\<close>

definition base64_digit :: "nat \<Rightarrow> char" where
  "base64_digit n =
     (if n < 26 then char_of (65 + n)
      else if n < 52 then char_of (71 + n)
      else if n < 62 then char_of (n - 4)
      else if n = 62 then CHR ''+'' else CHR ''/'')"

fun btoa :: "string \<Rightarrow> string" where
  "btoa [] = []"
| "btoa [a] =
     (let x = of_char a :: nat in [base64_digit (x div 4), base64_digit (x mod 4 * 16), CHR ''='', CHR ''=''])"
| "btoa [a, b] =
     (let x = of_char a :: nat; y = of_char b :: nat
      in [base64_digit (x div 4), base64_digit (x mod 4 * 16 + y div 16), base64_digit (y mod 16 * 4), CHR ''=''])"
| "btoa (a # b # c # s) =
     (let x = of_char a :: nat; y = of_char b :: nat; z = of_char c :: nat
      in base64_digit (x div 4) # base64_digit (x mod 4 * 16 + y div 16) # base64_digit (y mod 16 * 4 + z div 64) #
         base64_digit (z mod 64) # btoa s)"

end
