(* ===== verification/Client.thy ===== *)
theory Client
  imports Client_Values Io
begin

text \<open>
  The REST client, \<^verbatim>\<open>src/client/javascript/easemlclient/src\<close>: contexts (\<^verbatim>\<open>index.js\<close>), the paging loop
  (\<^verbatim>\<open>common.js\<close>) and the operations on data sets, modules, jobs, tasks, users and processes.

  What is not part of the sources is an argument: \<^verbatim>\<open>axios\<close> as a table of requests (\<open>axios\<close>), the upload
  protocol of \<^verbatim>\<open>tus-js-client\<close>, \<^verbatim>\<open>decamelize-keys\<close>, \<^verbatim>\<open>url-join\<close>, \<^verbatim>\<open>moment\<close>, and the text of a date in
  the locale of the user. A promise is an operation on a world: it is resolved with a value or
  rejected with an error. The client never looks into the reason of a rejection. Where an operation
  may request pages forever it is a partial function, and not returning is \<open>None\<close>.
\<close>

subsection \<open>Requests\<close>

record response =
  rs_data :: jsval
  rs_headers :: "(string \<times> string) list"

text \<open>The configuration an axios instance is created with.\<close>

record axios_config =
  ac_timeout :: nat
  ac_baseURL :: string
  ac_headers :: "jsv obj"
  ac_auth :: "(jsv \<times> jsv) option"

text \<open>Requests through an instance: an address, and the parameters or the body.\<close>

record 'w axios =
  ax_get :: "axios_config \<Rightarrow> string \<Rightarrow> jsv obj option \<Rightarrow> ('w, response) io"
  ax_post :: "axios_config \<Rightarrow> string \<Rightarrow> jsv obj \<Rightarrow> ('w, response) io"
  ax_patch :: "axios_config \<Rightarrow> string \<Rightarrow> jsv obj \<Rightarrow> ('w, response) io"

definition header_value :: "response \<Rightarrow> string \<Rightarrow> jsv" where
  "header_value rs k = (case map_of (rs_headers rs) k of Some v \<Rightarrow> Str v | None \<Rightarrow> Undefined)"

subsection \<open>Contexts\<close>

record client_context =
  serverAddress :: string
  userCredentials :: "jsv obj"
  baseURL :: string
  authHeader :: "jsv obj"
  axiosInstance :: axios_config

definition API_PREFIX :: string where
  "API_PREFIX = ''api/v1''"

definition new_Context :: "(string list \<Rightarrow> string) \<Rightarrow> string \<Rightarrow> jsv obj \<Rightarrow> client_context res" where
  "new_Context urljoin address credentials =
     (let base = urljoin [address, API_PREFIX];
          config = \<lparr>ac_timeout = 1000, ac_baseURL = base, ac_headers = [], ac_auth = None\<rparr>;
          ctx = \<lparr>serverAddress = address, userCredentials = credentials, baseURL = base, authHeader = [], axiosInstance = config\<rparr>
      in if obj_in ''apiKey'' credentials then
           Inr (ctx\<lparr>authHeader := [(''X-API-KEY'', field_of credentials ''apiKey'')],
                    axiosInstance := config\<lparr>ac_headers := [(''X-API-KEY'', field_of credentials ''apiKey'')]\<rparr>\<rparr>)
         else if obj_in ''username'' credentials \<and> obj_in ''password'' credentials then
           bindE (js_text (field_of credentials ''username'')) (\<lambda>u.
           bindE (js_text (field_of credentials ''password'')) (\<lambda>p.
           Inr (ctx\<lparr>authHeader := [(''Authorization'', Str (''Basic '' @ btoa (u @ '':'' @ p)))],
                    axiosInstance := config\<lparr>ac_auth := Some (field_of credentials ''username'', field_of credentials ''password'')\<rparr>\<rparr>)))
         else Inr ctx)"

text \<open>\<^verbatim>\<open>loadContext\<close> of the text of a context that has been read back from a store.\<close>

definition loadContext :: "(string list \<Rightarrow> string) \<Rightarrow> jsval \<Rightarrow> client_context res" where
  "loadContext urljoin input =
     bindE (property (Json input) ''serverAddress'') (\<lambda>address.
     bindE (property (Json input) ''userCredentials'') (\<lambda>credentials.
     case (address, credentials) of
       (Json (JStr s), Json (JObj ob)) \<Rightarrow> new_Context urljoin s (map (\<lambda>(k, v). (k, Json v)) ob)
     | _ \<Rightarrow> Inl Unmodelled))"

subsection \<open>The paging loop\<close>

definition next_cursor :: "response \<Rightarrow> jsv res" where
  "next_cursor rs = bindE (property (Json (rs_data rs)) ''metadata'') (\<lambda>m. property m ''next-page-cursor'')"

text \<open>\<^verbatim>\<open>response.data.data || []\<close>\<close>

definition last_page :: "response \<Rightarrow> jsval res" where
  "last_page rs =
     bindE (property (Json (rs_data rs)) ''data'') (\<lambda>d. Inr (case d of Json v \<Rightarrow> if truthy v then v else JArr [] | _ \<Rightarrow> JArr []))"

text \<open>\<^verbatim>\<open>response.data.data.concat(data)\<close>: arrays and texts have this method.\<close>

definition concat_page :: "response \<Rightarrow> jsval \<Rightarrow> jsval res" where
  "concat_page rs rest =
     bindE (property (Json (rs_data rs)) ''data'') (\<lambda>d.
       case d of
         Json (JArr xs) \<Rightarrow> Inr (JArr (xs @ (case rest of JArr ys \<Rightarrow> ys | v \<Rightarrow> [v])))
       | Json (JStr s) \<Rightarrow> bindE (value_text rest) (\<lambda>t. Inr (JStr (s @ t)))
       | _ \<Rightarrow> Inl TypeError)"

partial_function (option) runGetQuery ::
  "'w axios \<Rightarrow> axios_config \<Rightarrow> string \<Rightarrow> jsv obj \<Rightarrow> 'w \<Rightarrow> (jsval res \<times> 'w) option" where
  "runGetQuery ax cfg url query w =
     (case ax_get ax cfg url (Some query) w of
        (Inl e, v) \<Rightarrow> Some (Inl e, v)
      | (Inr rs, v) \<Rightarrow>
          (case next_cursor rs of
             Inl e \<Rightarrow> Some (Inl e, v)
           | Inr cursor \<Rightarrow>
               if cursor = Str [] then Some (last_page rs, v)
               else
                 Option.bind (runGetQuery ax cfg url (obj_put ''cursor'' cursor query) v) (\<lambda>(r, v').
                   Some (bindE r (concat_page rs), v'))))"

text \<open>\<^verbatim>\<open>if (data) { for (let i = 0; i < data.length; i++) ... data[i] ... }\<close>: the values the loop visits. An
  object with a property of its own named \<^verbatim>\<open>length\<close> is outside the model.\<close>

fun visited :: "jsval \<Rightarrow> jsv list res" where
  "visited (JArr xs) = Inr (map Json xs)"
| "visited (JStr s) = Inr (map (\<lambda>c. Str [c]) s)"
| "visited (JObj ob) = (if ''length'' \<in> set (keys ob) then Inl Unmodelled else Inr [])"
| "visited v = Inr []"

subsection \<open>Items\<close>

text \<open>A property of an item that the client returns: a value, the \<^verbatim>\<open>Date\<close> made from a value, or a duration
  of \<^verbatim>\<open>moment\<close>.\<close>

datatype 'u item_value = Val jsv | DateOf jsv | Duration 'u

type_synonym 'u item = "(string \<times> 'u item_value) list"

text \<open>An object literal whose properties are made from properties of the input.\<close>

definition item_from :: "(string \<times> string \<times> (jsv \<Rightarrow> 'u item_value res)) list \<Rightarrow> jsv \<Rightarrow> 'u item res" where
  "item_from spec input = mapE (\<lambda>(k, p, f). bindE (property input p) (\<lambda>v. bindE (f v) (\<lambda>x. Inr (k, x)))) spec"

definition copied :: "jsv \<Rightarrow> 'u item_value res" where
  "copied v = Inr (Val v)"

definition dated :: "jsv \<Rightarrow> 'u item_value res" where
  "dated v = Inr (DateOf v)"

text \<open>\<^verbatim>\<open>moment.duration(v, 'milliseconds')\<close> and \<^verbatim>\<open>format()\<close> of a duration; \<^verbatim>\<open>toLocaleString()\<close> of a date.\<close>

record 'u texts =
  duration :: "jsv \<Rightarrow> 'u"
  duration_text :: "'u \<Rightarrow> string"
  date_text :: "jsv \<Rightarrow> string"

definition timed :: "'u texts \<Rightarrow> jsv \<Rightarrow> 'u item_value res" where
  "timed tx v = Inr (Duration (duration tx v))"

definition timed_text :: "'u texts \<Rightarrow> jsv \<Rightarrow> 'u item_value res" where
  "timed_text tx v = Inr (Val (Str (duration_text tx (duration tx v))))"

definition dated_text :: "'u texts \<Rightarrow> jsv \<Rightarrow> 'u item_value res" where
  "dated_text tx v = Inr (Val (Str (date_text tx v)))"

text \<open>The body that the functions \<^verbatim>\<open>getDatasets\<close>, \<^verbatim>\<open>getModules\<close>, \<dots> share: run the query and transform every
  item.\<close>

definition get_items ::
  "'w axios \<Rightarrow> client_context \<Rightarrow> (jsv \<Rightarrow> 'u item res) \<Rightarrow> string \<Rightarrow> jsv obj \<Rightarrow> 'w \<Rightarrow> ('u item list res \<times> 'w) option" where
  "get_items ax ctx transform url query w =
     Option.bind (runGetQuery ax (axiosInstance ctx) url query w) (\<lambda>(r, v).
       Some (bindE r (\<lambda>data. bindE (visited data) (mapE transform)), v))"

text \<open>The body of \<^verbatim>\<open>getDatasetById\<close>, \<^verbatim>\<open>getModuleById\<close>, \<dots>\<close>

definition get_item ::
  "'w axios \<Rightarrow> client_context \<Rightarrow> (jsv \<Rightarrow> 'u item res) \<Rightarrow> string \<Rightarrow> ('w, 'u item) io" where
  "get_item ax ctx transform url =
     bindS (ax_get ax (axiosInstance ctx) url None) (\<lambda>rs.
     lift (bindE (property (Json (rs_data rs)) ''data'') transform))"

text \<open>\<^verbatim>\<open>id.substr(id.lastIndexOf('/') + 1)\<close> of the header \<^verbatim>\<open>location\<close>.\<close>

definition after_last_slash :: "string \<Rightarrow> string" where
  "after_last_slash s = last (split_on CHR ''/'' s)"

definition created_id :: "response \<Rightarrow> string res" where
  "created_id rs =
     (case map_of (rs_headers rs) ''location'' of None \<Rightarrow> Inl TypeError | Some s \<Rightarrow> Inr (after_last_slash s))"

text \<open>The names that an update may change, in the order they are tested.\<close>

definition select_updates :: "string list \<Rightarrow> jsv obj \<Rightarrow> jsv obj" where
  "select_updates names updates =
     fold (\<lambda>k data. if obj_in k updates then obj_put k (field_of updates k) data else data) names []"

definition send_update :: "'w axios \<Rightarrow> client_context \<Rightarrow> string \<Rightarrow> jsv obj \<Rightarrow> ('w, unit) io" where
  "send_update ax ctx url data = bindS (ax_patch ax (axiosInstance ctx) url data) (\<lambda>_. ret ())"

definition send_new :: "'w axios \<Rightarrow> client_context \<Rightarrow> string \<Rightarrow> jsv obj \<Rightarrow> ('w, string) io" where
  "send_new ax ctx url data = bindS (ax_post ax (axiosInstance ctx) url data) (\<lambda>rs. lift (created_id rs))"

text \<open>\<^verbatim>\<open>if (k in query && typeof query[k] !== 'string') query[k] = JSON.stringify(query[k])\<close>\<close>

definition stringify_field :: "string \<Rightarrow> jsv obj \<Rightarrow> jsv obj res" where
  "stringify_field k query =
     (if k \<in> set (keys query) then
        (case field_of query k of
           Json (JStr s) \<Rightarrow> Inr query
         | v \<Rightarrow> bindE (JSON_stringify v) (\<lambda>t. Inr (obj_put k t query)))
      else Inr query)"

subsection \<open>Formats\<close>

text \<open>\<^verbatim>\<open>/^[a-zA-Z0-9_-]+$/\<close>\<close>

definition is_upper :: "char \<Rightarrow> bool" where
  "is_upper c = (65 \<le> (of_char c :: nat) \<and> (of_char c :: nat) \<le> 90)"

definition ID_FORMAT :: "string \<Rightarrow> bool" where
  "ID_FORMAT s =
     (s \<noteq> [] \<and> list_all (\<lambda>c. is_lower c \<or> is_upper c \<or> is_digit c \<or> c = CHR ''_'' \<or> c = CHR ''-'') s)"

text \<open>The class of \<^verbatim>\<open>NAME_FORMAT\<close>: letters, digits, and these characters. The backslash in the expression
  only quotes the bracket after it.\<close>

definition name_punctuation :: string where
  "name_punctuation =
     CHR 0x22 # CHR 0x27 # CHR 0x60 # ''!#$%&()*+,./:;<=>?@[] ^_{|}~-''"

definition NAME_FORMAT :: "string \<Rightarrow> bool" where
  "NAME_FORMAT s = list_all (\<lambda>c. is_lower c \<or> is_upper c \<or> is_digit c \<or> c \<in> set name_punctuation) s"

text \<open>\<^verbatim>\<open>FORMAT.test(v)\<close>\<close>

definition format_test :: "(string \<Rightarrow> bool) \<Rightarrow> jsv \<Rightarrow> bool res" where
  "format_test f v = bindE (js_text v) (\<lambda>t. Inr (f t))"

text \<open>\<^verbatim>\<open>names.includes(v)\<close>\<close>

definition array_includes :: "string list \<Rightarrow> jsv \<Rightarrow> bool" where
  "array_includes names v = (v \<in> set (map (\<lambda>s. Str s) names))"

definition in_quotes :: "string \<Rightarrow> string" where
  "in_quotes s = quote # s @ [quote]"

text \<open>The errors are written to an object one after the other; a step that does not apply leaves it.\<close>

definition check_id :: "jsv obj \<Rightarrow> string obj \<Rightarrow> string obj res" where
  "check_id input errors =
     (if \<not> js_truthy (field_of input ''id'') then Inr (obj_put ''id'' ''The id must be specified.'' errors)
      else
        bindE (format_test ID_FORMAT (field_of input ''id'')) (\<lambda>b.
        Inr (if b then errors else obj_put ''id'' ''The id can contain only letters, numbers and underscores.'' errors)))"

definition check_name :: "jsv obj \<Rightarrow> string obj \<Rightarrow> string obj res" where
  "check_name input errors =
     (if js_truthy (field_of input ''name'') then
        bindE (format_test NAME_FORMAT (field_of input ''name'')) (\<lambda>b.
        Inr (if b then errors else obj_put ''name'' ''The name can contain only printable ASCII characters.'' errors))
      else Inr errors)"

subsection \<open>Data sets\<close>

definition dataset_item :: "jsv \<Rightarrow> 'u item res" where
  "dataset_item =
     item_from
       [(''id'', ''id'', copied), (''name'', ''name'', copied), (''description'', ''description'', copied),
        (''user'', ''user'', copied), (''source'', ''source'', copied), (''schemaIn'', ''schema-in'', copied),
        (''schemaOut'', ''schema-out'', copied), (''sourceAddress'', ''source-address'', copied),
        (''creationTime'', ''creation-time'', dated), (''status'', ''status'', copied)]"

text \<open>The parameter \<open>decam\<close> of the operations is \<^verbatim>\<open>decamelizeKeys(_, '-')\<close>; a query may be missing.\<close>

definition query_or_empty :: "jsv obj option \<Rightarrow> jsv obj" where
  "query_or_empty query = (case query of None \<Rightarrow> [] | Some q \<Rightarrow> q)"

definition getDatasets ::
  "(jsv obj \<Rightarrow> jsv obj) \<Rightarrow> 'w axios \<Rightarrow> client_context \<Rightarrow> jsv obj option \<Rightarrow> 'w \<Rightarrow> ('u item list res \<times> 'w) option" where
  "getDatasets decam ax ctx query w =
     (case bindE (stringify_field ''schema-in'' (decam (query_or_empty query))) (stringify_field ''schema-out'') of
        Inl e \<Rightarrow> Some (Inl e, w)
      | Inr q \<Rightarrow> get_items ax ctx dataset_item ''/datasets'' q w)"

definition getDatasetById :: "'w axios \<Rightarrow> client_context \<Rightarrow> string \<Rightarrow> ('w, 'u item) io" where
  "getDatasetById ax ctx i = get_item ax ctx dataset_item (''/datasets/'' @ i)"

definition validateDatasetFields :: "(jsv obj \<Rightarrow> jsv obj) \<Rightarrow> jsv obj \<Rightarrow> string obj res" where
  "validateDatasetFields decam raw =
     (let input = decam raw; source = field_of input ''source''
      in bindE (check_id input []) (\<lambda>e1.
         let e2 = (if \<not> js_truthy source then obj_put ''source'' ''The source must be specified.'' e1
                   else if \<not> array_includes [''upload'', ''download'', ''local''] source then
                     obj_put ''source'' (''The source must be either '' @ in_quotes ''upload'' @ '', '' @ in_quotes ''download'' @ '' or '' @ in_quotes ''local'' @ ''.'') e1
                   else e1);
             e3 = (if \<not> js_truthy (field_of input ''source-address'') \<and> source \<noteq> Str ''upload'' then
                     obj_put ''source-address'' (''The source address is expected for '' @ in_quotes ''download'' @ '' and '' @
                       in_quotes ''local'' @ '' datasets.'') e2
                   else e2)
         in check_name input e3))"

definition createDataset ::
  "(jsv obj \<Rightarrow> jsv obj) \<Rightarrow> 'w axios \<Rightarrow> client_context \<Rightarrow> jsv obj \<Rightarrow> ('w, string) io" where
  "createDataset decam ax ctx raw =
     (let input = decam raw
      in send_new ax ctx ''/datasets''
           [(''id'', field_of input ''id''), (''source'', field_of input ''source''),
            (''source-address'', field_of input ''source-address''),
            (''name'', or_else (field_of input ''name'') (JStr [])),
            (''description'', or_else (field_of input ''description'') (JStr [])),
            (''access-key'', or_else (field_of input ''access-key'') (JStr []))])"

definition updateDataset ::
  "(jsv obj \<Rightarrow> jsv obj) \<Rightarrow> 'w axios \<Rightarrow> client_context \<Rightarrow> string \<Rightarrow> jsv obj \<Rightarrow> ('w, unit) io" where
  "updateDataset decam ax ctx i updates =
     send_update ax ctx (''/datasets/'' @ i) (select_updates [''name'', ''description'', ''status''] (decam updates))"

text \<open>The options of an upload; \<open>'c\<close> is the type of the callback that is told about the progress.\<close>

record 'c upload_options =
  up_endpoint :: string
  up_retryDelays :: "nat list"
  up_filename :: string
  up_headers :: "jsv obj"
  up_onProgress :: 'c

definition uploadDataset ::
  "(string list \<Rightarrow> string) \<Rightarrow> ('d \<Rightarrow> 'c upload_options \<Rightarrow> ('w, unit) io) \<Rightarrow> client_context \<Rightarrow> string \<Rightarrow> 'd \<Rightarrow> string \<Rightarrow> 'c \<Rightarrow>
   ('w, unit) io" where
  "uploadDataset urljoin upload ctx i data filename onProgress =
     upload data \<lparr>up_endpoint = urljoin [baseURL ctx, ''datasets'', i, ''upload''], up_retryDelays = [0, 1000, 3000, 5000],
       up_filename = filename, up_headers = authHeader ctx, up_onProgress = onProgress\<rparr>"

definition listDatasetDirectoryByPath :: "'w axios \<Rightarrow> client_context \<Rightarrow> string \<Rightarrow> string \<Rightarrow> ('w, jsval) io" where
  "listDatasetDirectoryByPath ax ctx i relPath =
     bindS (ax_get ax (axiosInstance ctx) (''/datasets/'' @ i @ ''/data'' @ relPath) None) (\<lambda>rs. ret (rs_data rs))"

text \<open>The calls on the document of the browser that start a download, and the data of a \<^verbatim>\<open>Blob\<close>.\<close>

datatype dom_call = CreateElement string | SetHref string | SetAttribute string string | AppendToBody | Click

record blob =
  blob_part :: jsval
  blob_type :: jsv

definition browser_download :: "(dom_call \<Rightarrow> ('w, unit) io) \<Rightarrow> string \<Rightarrow> string \<Rightarrow> ('w, blob option) io" where
  "browser_download doc url i =
     bindS (doc (CreateElement ''a'')) (\<lambda>_.
     bindS (doc (SetHref url)) (\<lambda>_.
     bindS (doc (SetAttribute ''download'' (i @ ''.tar''))) (\<lambda>_.
     bindS (doc AppendToBody) (\<lambda>_.
     bindS (doc Click) (\<lambda>_. ret None)))))"

definition fetch_blob :: "'w axios \<Rightarrow> client_context \<Rightarrow> string \<Rightarrow> ('w, blob option) io" where
  "fetch_blob ax ctx url =
     bindS (ax_get ax (axiosInstance ctx) url None) (\<lambda>rs.
     ret (Some \<lparr>blob_part = rs_data rs, blob_type = or_else (header_value rs ''Content-Type'') (JStr [])\<rparr>))"

definition downloadDatasetByPath ::
  "(dom_call \<Rightarrow> ('w, unit) io) \<Rightarrow> 'w axios \<Rightarrow> client_context \<Rightarrow> string \<Rightarrow> string \<Rightarrow> bool \<Rightarrow> ('w, blob option) io" where
  "downloadDatasetByPath doc ax ctx i relPath inBrowser =
     (if inBrowser then
        browser_download doc (ac_baseURL (axiosInstance ctx) @ ''/datasets/'' @ i @ ''/data'' @ relPath) i
      else fetch_blob ax ctx (''/datasets/'' @ i @ ''/data'' @ relPath))"

subsection \<open>Modules\<close>

definition module_item :: "jsv \<Rightarrow> 'u item res" where
  "module_item =
     item_from
       [(''id'', ''id'', copied), (''type'', ''type'', copied), (''label'', ''label'', copied), (''name'', ''name'', copied),
        (''description'', ''description'', copied), (''schemaIn'', ''schema-in'', copied), (''schemaOut'', ''schema-out'', copied),
        (''configSpace'', ''config-space'', copied), (''user'', ''user'', copied), (''source'', ''source'', copied),
        (''sourceAddress'', ''source-address'', copied), (''creationTime'', ''creation-time'', dated), (''status'', ''status'', copied)]"

definition getModules ::
  "(jsv obj \<Rightarrow> jsv obj) \<Rightarrow> 'w axios \<Rightarrow> client_context \<Rightarrow> jsv obj option \<Rightarrow> 'w \<Rightarrow> ('u item list res \<times> 'w) option" where
  "getModules decam ax ctx query w =
     (case bindE (stringify_field ''schema-in'' (decam (query_or_empty query))) (stringify_field ''schema-out'') of
        Inl e \<Rightarrow> Some (Inl e, w)
      | Inr q \<Rightarrow> get_items ax ctx module_item ''/modules'' q w)"

definition getModuleById :: "'w axios \<Rightarrow> client_context \<Rightarrow> string \<Rightarrow> ('w, 'u item) io" where
  "getModuleById ax ctx i = get_item ax ctx module_item (''/modules/'' @ i)"

definition validateModuleFields :: "(jsv obj \<Rightarrow> jsv obj) \<Rightarrow> jsv obj \<Rightarrow> string obj res" where
  "validateModuleFields decam raw =
     (let input = decam raw; source = field_of input ''source''
      in bindE (check_id input []) (\<lambda>e1.
         let e2 = (if \<not> js_truthy source then obj_put ''type'' ''The type must be specified.'' e1
                   else if \<not> array_includes [''model'', ''objective'', ''optimizer''] source then
                     obj_put ''source'' (''The type must be either '' @ in_quotes ''model'' @ '', '' @ in_quotes ''objective'' @ '' or '' @
                       in_quotes ''optimizer'' @ ''.'') e1
                   else e1);
             e3 = (if \<not> js_truthy source then obj_put ''source'' ''The source must be specified.'' e2
                   else if \<not> array_includes [''upload'', ''download'', ''local'', ''registry''] source then
                     obj_put ''source'' (''The source must be either '' @ in_quotes ''registry'' @ '', '' @ in_quotes ''upload'' @ '', '' @
                       in_quotes ''download'' @ '' or '' @ in_quotes ''local'' @ ''.'') e2
                   else e2);
             e4 = (if \<not> js_truthy (field_of input ''source-address'') \<and> source \<noteq> Str ''upload'' then
                     obj_put ''source-address'' (''The source address is expected for '' @ in_quotes ''download'' @ '' and '' @
                       in_quotes ''local'' @ '' modules.'') e3
                   else e3)
         in check_name input e4))"

definition createModule ::
  "(jsv obj \<Rightarrow> jsv obj) \<Rightarrow> 'w axios \<Rightarrow> client_context \<Rightarrow> jsv obj \<Rightarrow> ('w, string) io" where
  "createModule decam ax ctx raw =
     (let input = decam raw
      in send_new ax ctx ''/modules''
           [(''id'', field_of input ''id''), (''type'', field_of input ''type''),
            (''label'', or_else (field_of input ''label'') (JStr [])), (''source'', field_of input ''source''),
            (''source-address'', field_of input ''source-address''),
            (''name'', or_else (field_of input ''name'') (JStr [])),
            (''description'', or_else (field_of input ''description'') (JStr []))])"

definition updateModule ::
  "(jsv obj \<Rightarrow> jsv obj) \<Rightarrow> 'w axios \<Rightarrow> client_context \<Rightarrow> string \<Rightarrow> jsv obj \<Rightarrow> ('w, unit) io" where
  "updateModule decam ax ctx i updates =
     send_update ax ctx (''/modules/'' @ i) (select_updates [''name'', ''description'', ''status''] (decam updates))"

subsection \<open>Jobs\<close>

definition job_item :: "'u texts \<Rightarrow> jsv \<Rightarrow> 'u item res" where
  "job_item tx =
     item_from
       [(''id'', ''id'', copied), (''user'', ''user'', copied), (''dataset'', ''dataset'', copied), (''models'', ''models'', copied),
        (''objective'', ''objective'', copied), (''maxTasks'', ''max-tasks'', copied), (''configSpace'', ''config-space'', copied),
        (''creationTime'', ''creation-time'', dated), (''creationTimeString'', ''creation-time'', dated_text tx),
        (''runningDuration'', ''running-duration'', timed tx), (''runningDurationString'', ''running-duration'', timed_text tx),
        (''status'', ''status'', copied)]"

text \<open>\<^verbatim>\<open>mergeModelConfigSpaces\<close>: an object with the config space of every model as a list of objects.\<close>

definition mergeModelConfigSpaces :: "jsv obj \<Rightarrow> jsv obj list" where
  "mergeModelConfigSpaces input = map (\<lambda>(modelId, c). [(''id'', Str modelId), (''config'', c)]) input"

definition getJobs ::
  "(jsv obj \<Rightarrow> jsv obj) \<Rightarrow> 'u texts \<Rightarrow> 'w axios \<Rightarrow> client_context \<Rightarrow> jsv obj option \<Rightarrow> 'w \<Rightarrow> ('u item list res \<times> 'w) option" where
  "getJobs decam tx ax ctx query = get_items ax ctx (job_item tx) ''/jobs'' (decam (query_or_empty query))"

definition getJobById :: "'u texts \<Rightarrow> 'w axios \<Rightarrow> client_context \<Rightarrow> string \<Rightarrow> ('w, 'u item) io" where
  "getJobById tx ax ctx i = get_item ax ctx (job_item tx) (''/jobs/'' @ i)"

definition validateJobFields :: "(jsv obj \<Rightarrow> jsv obj) \<Rightarrow> jsv obj \<Rightarrow> string obj" where
  "validateJobFields decam raw =
     (let input = decam raw;
          e1 = (if \<not> js_truthy (field_of input ''dataset'') then obj_put ''dataset'' ''The dataset must be specified.'' [] else []);
          e2 = (if \<not> js_truthy (field_of input ''objective'') then obj_put ''objective'' ''The objective must be specified.'' e1 else e1)
      in if \<not> js_truthy (field_of input ''models'') then
           obj_put ''models'' ''The models list must be specified and cannot be empty.'' e2
         else e2)"

definition createJob ::
  "(jsv obj \<Rightarrow> jsv obj) \<Rightarrow> 'w axios \<Rightarrow> client_context \<Rightarrow> jsv obj \<Rightarrow> ('w, string) io" where
  "createJob decam ax ctx raw =
     (let input = decam raw
      in bindS (lift (js_number (field_of input ''max-tasks''))) (\<lambda>maxTasks.
         bindS (lift (stringify_field ''config-space''
                        [(''dataset'', field_of input ''dataset''), (''objective'', field_of input ''objective''),
                         (''alt-objectives'', or_else (field_of input ''alt-objectives'') (JArr [])),
                         (''models'', field_of input ''models''),
                         (''accept-new-models'', Json (JBool (field_of input ''accept-new-models'' = Json (JBool True)))),
                         (''max-tasks'', maxTasks),
                         (''config-space'', or_else (field_of input ''config-space'') (JStr []))])) (\<lambda>data.
         send_new ax ctx ''/jobs'' data)))"

definition updateJob ::
  "(jsv obj \<Rightarrow> jsv obj) \<Rightarrow> 'w axios \<Rightarrow> client_context \<Rightarrow> string \<Rightarrow> jsv obj \<Rightarrow> ('w, unit) io" where
  "updateJob decam ax ctx i updates =
     send_update ax ctx (''/jobs/'' @ i) (select_updates [''max-tasks'', ''accept-new-models'', ''status''] (decam updates))"

subsection \<open>Tasks\<close>

text \<open>\<^verbatim>\<open>parseInt(input.id.split('/')[1])\<close>; only texts have \<^verbatim>\<open>split\<close>.\<close>

definition task_number :: "jsv \<Rightarrow> 'u item_value res" where
  "task_number v =
     (case v of
        Json (JStr s) \<Rightarrow>
          (case split_on CHR ''/'' s of
             _ # t # _ \<Rightarrow> bindE (js_parse_int t) (\<lambda>n. Inr (Val n))
           | _ \<Rightarrow> Inr (Val NaN))
      | _ \<Rightarrow> Inl TypeError)"

definition task_item :: "'u texts \<Rightarrow> jsv \<Rightarrow> 'u item res" where
  "task_item tx =
     item_from
       [(''id'', ''id'', copied), (''intId'', ''id'', task_number), (''job'', ''job'', copied), (''process'', ''process'', copied),
        (''user'', ''user'', copied), (''dataset'', ''dataset'', copied), (''model'', ''model'', copied),
        (''objective'', ''objective'', copied), (''altObjectives'', ''alt-objectives'', copied), (''config'', ''config'', copied),
        (''quality'', ''quality'', copied), (''qualityTrain'', ''quality-train'', copied),
        (''qualityExpected'', ''quality-expected'', copied), (''altQualities'', ''alt-qualities'', copied),
        (''status'', ''status'', copied), (''statusMessage'', ''status-message'', copied), (''stage'', ''stage'', copied),
        (''runningDuration'', ''running-duration'', timed tx), (''runningDurationString'', ''running-duration'', timed_text tx)]"

definition getTasks ::
  "(jsv obj \<Rightarrow> jsv obj) \<Rightarrow> 'u texts \<Rightarrow> 'w axios \<Rightarrow> client_context \<Rightarrow> jsv obj option \<Rightarrow> 'w \<Rightarrow> ('u item list res \<times> 'w) option" where
  "getTasks decam tx ax ctx query = get_items ax ctx (task_item tx) ''/tasks'' (decam (query_or_empty query))"

definition getTaskById :: "'u texts \<Rightarrow> 'w axios \<Rightarrow> client_context \<Rightarrow> string \<Rightarrow> ('w, 'u item) io" where
  "getTaskById tx ax ctx i = get_item ax ctx (task_item tx) (''/tasks/'' @ i)"

definition updateTask ::
  "(jsv obj \<Rightarrow> jsv obj) \<Rightarrow> 'w axios \<Rightarrow> client_context \<Rightarrow> string \<Rightarrow> jsv obj \<Rightarrow> ('w, unit) io" where
  "updateTask decam ax ctx i updates = send_update ax ctx (''/tasks/'' @ i) (select_updates [''status''] (decam updates))"

definition listTaskPredictionsDirectoryByPath :: "'w axios \<Rightarrow> client_context \<Rightarrow> string \<Rightarrow> string \<Rightarrow> ('w, jsval) io" where
  "listTaskPredictionsDirectoryByPath ax ctx i relPath =
     bindS (ax_get ax (axiosInstance ctx) (''/tasks/'' @ i @ ''/predictions'' @ relPath) None) (\<lambda>rs. ret (rs_data rs))"

definition downloadTaskPredictionsByPath ::
  "(dom_call \<Rightarrow> ('w, unit) io) \<Rightarrow> 'w axios \<Rightarrow> client_context \<Rightarrow> string \<Rightarrow> string \<Rightarrow> bool \<Rightarrow> ('w, blob option) io" where
  "downloadTaskPredictionsByPath doc ax ctx i relPath inBrowser =
     (if inBrowser then
        browser_download doc (ac_baseURL (axiosInstance ctx) @ ''/tasks/'' @ i @ ''/predictions'' @ relPath) i
      else fetch_blob ax ctx (''/tasks/'' @ i @ ''/predictions'' @ relPath))"

definition downloadTrainedModelAsImage ::
  "(dom_call \<Rightarrow> ('w, unit) io) \<Rightarrow> 'w axios \<Rightarrow> client_context \<Rightarrow> string \<Rightarrow> bool \<Rightarrow> ('w, blob option) io" where
  "downloadTrainedModelAsImage doc ax ctx i inBrowser =
     (if inBrowser then
        bindS (lift (js_text (field_of (userCredentials ctx) ''apiKey''))) (\<lambda>k.
        browser_download doc (ac_baseURL (axiosInstance ctx) @ ''/tasks/'' @ i @ ''/image/download'' @ ''?api-key='' @ k) i)
      else fetch_blob ax ctx (''/tasks/'' @ i @ ''/image/download''))"

subsection \<open>Users and processes\<close>

definition user_item :: "jsv \<Rightarrow> 'u item res" where
  "user_item = item_from [(''id'', ''id'', copied), (''name'', ''name'', copied), (''status'', ''status'', copied)]"

definition getUsers ::
  "(jsv obj \<Rightarrow> jsv obj) \<Rightarrow> 'w axios \<Rightarrow> client_context \<Rightarrow> jsv obj option \<Rightarrow> 'w \<Rightarrow> ('u item list res \<times> 'w) option" where
  "getUsers decam ax ctx query = get_items ax ctx user_item ''/users'' (decam (query_or_empty query))"

definition getUserById :: "'w axios \<Rightarrow> client_context \<Rightarrow> string \<Rightarrow> ('w, 'u item) io" where
  "getUserById ax ctx i = get_item ax ctx user_item (''/users/'' @ i)"

text \<open>The two operations that change a context return the changed context.\<close>

definition API_KEY_HEADER :: string where
  "API_KEY_HEADER = ''X-API-KEY''"

definition set_api_key :: "jsv \<Rightarrow> client_context \<Rightarrow> client_context" where
  "set_api_key v ctx = ctx\<lparr>userCredentials := obj_put ''apiKey'' v (userCredentials ctx)\<rparr>"

definition loginUser :: "'w axios \<Rightarrow> client_context \<Rightarrow> ('w, response \<times> client_context) io" where
  "loginUser ax ctx =
     bindS (ax_get ax (axiosInstance ctx) ''/users/login'' None) (\<lambda>rs.
     ret (rs, set_api_key (header_value rs API_KEY_HEADER) ctx))"

definition logoutUser :: "'w axios \<Rightarrow> client_context \<Rightarrow> ('w, client_context) io" where
  "logoutUser ax ctx =
     bindS (ax_get ax (axiosInstance ctx) ''/users/logout'' None) (\<lambda>rs. ret (set_api_key (Str []) ctx))"

definition process_item :: "jsv \<Rightarrow> 'u item res" where
  "process_item =
     item_from
       [(''id'', ''id'', copied), (''processId'', ''process-id'', copied), (''hostId'', ''host-id'', copied),
        (''hostAddress'', ''host-address'', copied), (''startTime'', ''start-time'', dated),
        (''lastKeepalive'', ''last-keepalive'', dated), (''type'', ''type'', copied), (''status'', ''status'', copied)]"

definition getProcesses ::
  "(jsv obj \<Rightarrow> jsv obj) \<Rightarrow> 'w axios \<Rightarrow> client_context \<Rightarrow> jsv obj option \<Rightarrow> 'w \<Rightarrow> ('u item list res \<times> 'w) option" where
  "getProcesses decam ax ctx query = get_items ax ctx process_item ''/processes'' (decam (query_or_empty query))"

end
