(* ===== verification/Web_Dataset.thy ===== *)
theory Web_Dataset
  imports Client Infer Openers Schema_Load
begin

text \<open>
  Adding a data set in the web interface: the dialog \<^verbatim>\<open>src/web/src/modals/NewDataset.vue\<close> and the drop zone
  \<^verbatim>\<open>src/web/src/components/FileDropzone.vue\<close>. The data of a component is a record; its methods are
  operations on it. What happens after a promise is a step of its own, since other events come between.

  The dialog puts the schema package and the client together: an archive is unpacked, its data sets are
  loaded, their schemas are inferred and dumped, and the data set is created, uploaded and marked as
  transferred. \<^verbatim>\<open>js-yaml\<close> is an argument, and so is what the dialog does to the page when it has succeeded.
\<close>

subsection \<open>Errors that are caught\<close>

text \<open>\<^verbatim>\<open>try { m } catch (e) { h(e) }\<close>, and the same for \<^verbatim>\<open>then\<close> and \<^verbatim>\<open>catch\<close> of a promise. A run that has left the
  model is not caught.\<close>

definition catchS :: "('w, 'a) io \<Rightarrow> (js_error \<Rightarrow> ('w, 'a) io) \<Rightarrow> ('w, 'a) io" where
  "catchS m h = (\<lambda>w. case m w of (Inl e, v) \<Rightarrow> if e = Unmodelled then (Inl e, v) else h e v | (Inr x, v) \<Rightarrow> (Inr x, v))"

definition modify :: "('s \<Rightarrow> 's) \<Rightarrow> ('s, unit) io" where
  "modify f = (\<lambda>s. (Inr (), f s))"

text \<open>Operations on one of two parts of a state.\<close>

definition on_world :: "('w, 'a) io \<Rightarrow> ('w \<times> 's, 'a) io" where
  "on_world m = (\<lambda>(w, s). case m w of (r, v) \<Rightarrow> (r, (v, s)))"

definition on_state :: "('s, 'a) io \<Rightarrow> ('w \<times> 's, 'a) io" where
  "on_state m = (\<lambda>(w, s). case m s of (r, t) \<Rightarrow> (r, (w, t)))"

fun message_text :: "message \<Rightarrow> string res" where
  "message_text (Text s) = Inr s"
| "message_text (TextWith a v b) = bindE (value_text v) (\<lambda>t. Inr (a @ t @ b))"

subsection \<open>The drop zone\<close>

record browser_file =
  bf_name :: string
  bf_type :: string
  bf_content :: "js_error + byte list"

record dropzone =
  dz_file :: "browser_file option"
  dz_error :: string

definition allowedTypes :: "string list" where
  "allowedTypes = [''application/x-tar'', ''application/gzip'']"

text \<open>The result is the file of the event \<^verbatim>\<open>new-file\<close>, if it is triggered.\<close>

definition acceptFileInput :: "string list \<Rightarrow> browser_file list \<Rightarrow> (dropzone, browser_file option) io" where
  "acceptFileInput types files =
     (if length files > 1 then
        bindS (modify (dz_error_update (\<lambda>_. ''Only one file can be uploaded.''))) (\<lambda>_. ret None)
      else case files of
             [] \<Rightarrow> throw TypeError
           | f # _ \<Rightarrow>
               if bf_type f \<notin> set types then
                 bindS (modify (dz_error_update (\<lambda>_. ''Uploaded file must be one of the following types: '' @ join '', '' types)))
                   (\<lambda>_. ret None)
               else bindS (modify (\<lambda>d. d\<lparr>dz_error := [], dz_file := Some f\<rparr>)) (\<lambda>_. ret (Some f)))"

subsection \<open>The README file\<close>

text \<open>\<^verbatim>\<open>s.match(/[p]+/g)\<close>: the maximal runs of characters with \<open>p\<close>; \<^verbatim>\<open>null\<close> is no run.\<close>

fun runs :: "(char \<Rightarrow> bool) \<Rightarrow> string \<Rightarrow> string list" where
  "runs p [] = []"
| "runs p (c # cs) =
     (if \<not> p c then runs p cs
      else if cs = [] \<or> \<not> p (hd cs) then [c] # runs p cs
      else case runs p cs of [] \<Rightarrow> [[c]] | w # ws \<Rightarrow> (c # w) # ws)"

text \<open>The constant \<^verbatim>\<open>NAME_FORMAT\<close> of this file.\<close>

definition README_NAME :: "char \<Rightarrow> bool" where
  "README_NAME c = (is_lower c \<or> is_upper c \<or> is_digit c \<or> c = CHR '' '' \<or> c = CHR ''-'')"

definition starts_with :: "string \<Rightarrow> string \<Rightarrow> bool" where
  "starts_with s p = (take (length p) s = p)"

definition scan_line :: "string \<Rightarrow> string \<times> string \<Rightarrow> string \<times> string" where
  "scan_line raw nd =
     (case nd of (name, description) \<Rightarrow>
        let line = trim raw
        in if line = [] then (name, description)
           else if name = [] then
             (if runs README_NAME line \<noteq> [] then (concat (map trim (runs README_NAME line)), description)
              else (name, description))
           else if trim line \<noteq> [] \<or> description \<noteq> [] \<and> \<not> (last description = CHR 0x0A) then
             (name, description @ rev (dropWhile is_space (rev line)) @ [CHR 0x0A])
           else (name, description))"

definition findReadmeAndScan :: "('w, 'h) opener \<Rightarrow> ('w, string \<times> string) io" where
  "findReadmeAndScan op =
     bindS (open_dir op [] [] True) (\<lambda>rootFiles.
     foldS (\<lambda>file nd.
         if starts_with file ''README'' then
           bindS (open_file op [] file True) (\<lambda>readmeFile.
           bindS (call (m_readLines op) readmeFile) (\<lambda>readmeFileLines.
           ret (fold scan_line readmeFileLines nd)))
         else ret nd) rootFiles ([], []))"

subsection \<open>The data of the dialog\<close>

record dataset_form =
  df_error :: string
  df_step :: int
  df_source :: string
  df_sourceAddress :: string
  df_path :: string
  df_accessKey :: string
  df_id :: string
  df_name :: string
  df_description :: string
  df_rawData :: "browser_file option"
  df_schemaIn :: "schema option"
  df_schemaOut :: "schema option"
  df_schemaInDump :: string
  df_schemaOutDump :: string
  df_currentUserId :: jsv
  df_uploadProgress :: "int option"
  df_componentKey :: nat

definition initial_form :: dataset_form where
  "initial_form =
     \<lparr>df_error = [], df_step = 1, df_source = ''upload'', df_sourceAddress = [], df_path = [], df_accessKey = [], df_id = [],
      df_name = [], df_description = [], df_rawData = None, df_schemaIn = None, df_schemaOut = None, df_schemaInDump = [],
      df_schemaOutDump = [], df_currentUserId = Str [], df_uploadProgress = Some 0, df_componentKey = 0\<rparr>"

definition prevVisible :: "dataset_form \<Rightarrow> bool" where
  "prevVisible st = (df_step st > 1 \<and> df_step st < 4)"

definition nextVisible :: "dataset_form \<Rightarrow> bool" where
  "nextVisible st = (df_step st < 3)"

definition finishVisible :: "dataset_form \<Rightarrow> bool" where
  "finishVisible st = (df_step st = 3)"

definition nextDisabled :: "dataset_form \<Rightarrow> bool" where
  "nextDisabled st =
     (if df_source st = ''upload'' then \<not> (df_schemaInDump st \<noteq> [] \<and> df_schemaOutDump st \<noteq> []) else df_sourceAddress st = [])"

text \<open>\<^verbatim>\<open>switchStep\<close> goes on in the same direction from the second step if there are no data; without a direction it
  would call itself until the stack is full.\<close>

function switchStep :: "int \<Rightarrow> dataset_form \<Rightarrow> dataset_form res" where
  "switchStep direction st =
     (if direction < 0 \<and> df_step st \<le> 1 then Inr st
      else if direction > 0 \<and> df_step st \<ge> 4 then Inr st
      else
        let st = st\<lparr>df_step := df_step st + direction\<rparr>
        in if df_step st = 1 then Inr (st\<lparr>df_rawData := None\<rparr>)
           else if df_step st = 2 then
             (if df_rawData st \<noteq> None then Inr st else if direction = 0 then Inl RangeError else switchStep direction st)
           else Inr st)"
  by pat_completeness auto
termination
  by (relation "measure (\<lambda>(d, st). if df_step st = 2 then 0 else 1)") (auto simp: Let_def)

declare switchStep.simps [simp del]

definition switch :: "int \<Rightarrow> (dataset_form, unit) io" where
  "switch direction = (\<lambda>st. case switchStep direction st of Inl e \<Rightarrow> (Inl e, st) | Inr st' \<Rightarrow> (Inr (), st'))"

definition prev :: "(dataset_form, unit) io" where
  "prev = switch (-1)"

definition next_step :: "(dataset_form, unit) io" where
  "next_step = switch 1"

definition reload :: "dataset_form \<Rightarrow> dataset_form" where
  "reload st = st\<lparr>df_componentKey := df_componentKey st + 1\<rparr>"
subsection \<open>Schemas of an archive\<close>

text \<open>The opener that the package makes for an object tree; there is no file system in the browser.\<close>

definition archive_world :: "tnode \<Rightarrow> world" where
  "archive_world t = \<lparr>w_fs = \<lparr>fs_tree = DirNode [], fs_cwd = [], fs_fds = [], fs_next = 3\<rparr>, w_struct = t\<rparr>"

definition archive_opener :: "(world, handle) opener" where
  "archive_opener = newOpener package_methods"

definition load_part :: "nat \<Rightarrow> (string \<Rightarrow> num) \<Rightarrow> tnode \<Rightarrow> dataset res" where
  "load_part n parse t = fst (loadDataset n archive_opener parse [] True (archive_world t))"

text \<open>\<^verbatim>\<open>k in o\<close> and \<^verbatim>\<open>o[k]\<close> for the four names that are asked for.\<close>

definition has_entry :: "string \<Rightarrow> tnode \<Rightarrow> bool" where
  "has_entry k n = (case n of TObj ob \<Rightarrow> k \<in> set (keys ob) | TBuf bs \<Rightarrow> False)"

definition entry_of :: "string \<Rightarrow> tnode \<Rightarrow> tnode" where
  "entry_of k n = (case n of TObj ob \<Rightarrow> (case map_of ob k of Some m \<Rightarrow> m | None \<Rightarrow> TObj []) | TBuf bs \<Rightarrow> TObj [])"

definition refuse :: "string \<Rightarrow> (dataset_form, bool) io" where
  "refuse msg = bindS (modify (df_error_update (\<lambda>_. msg))) (\<lambda>_. ret False)"

definition load_error :: "string \<Rightarrow> js_error \<Rightarrow> string res" where
  "load_error place e =
     (case e of
        DatasetException m p \<Rightarrow> bindE (message_text m) (\<lambda>t. Inr (''Dataset load error: '' @ t @ '' @ '' @ place @ p))
      | Unmodelled \<Rightarrow> Inl Unmodelled
      | _ \<Rightarrow> Inr ''Dataset load error.'')"

definition inference_error :: "string \<Rightarrow> js_error \<Rightarrow> string res" where
  "inference_error side e =
     (case e of
        SchemaException m p \<Rightarrow> bindE (message_text m) (\<lambda>t. Inr (side @ '' schema inference error: '' @ t @ '' @ '' @ p))
      | Unmodelled \<Rightarrow> Inl Unmodelled
      | _ \<Rightarrow> Inr (side @ '' schema inference error.''))"

text \<open>\<^verbatim>\<open>try { x = m } catch (err) { this.error = report(err); return false }\<close>\<close>

definition attempt :: "'a res \<Rightarrow> (js_error \<Rightarrow> string res) \<Rightarrow> ('a \<Rightarrow> (dataset_form, bool) io) \<Rightarrow> (dataset_form, bool) io" where
  "attempt m report k = (case m of Inl e \<Rightarrow> bindS (lift (report e)) refuse | Inr x \<Rightarrow> k x)"

definition extractSchema ::
  "nat \<Rightarrow> (string \<Rightarrow> num) \<Rightarrow> (jsval \<Rightarrow> string) \<Rightarrow> tnode \<Rightarrow> (dataset_form, bool) io" where
  "extractSchema n parse yaml files =
     (let train = entry_of ''train'' files; val = entry_of ''val'' files
      in if \<not> has_entry ''train'' files \<or> \<not> has_entry ''val'' files then
           refuse (''The dataset root must contain directories '' @ in_quotes ''train'' @ '' and '' @ in_quotes ''val'' @ ''.'')
         else if \<not> has_entry ''input'' train \<or> \<not> has_entry ''output'' train then
           refuse (''The dataset '' @ in_quotes ''train'' @ '' directory must contain directories '' @ in_quotes ''input'' @ '' and '' @
             in_quotes ''output'' @ ''.'')
         else if \<not> has_entry ''input'' val \<or> \<not> has_entry ''output'' val then
           refuse (''The dataset '' @ in_quotes ''val'' @ '' directory must contain directories '' @ in_quotes ''input'' @ '' and '' @
             in_quotes ''output'' @ ''.'')
         else
           attempt (load_part n parse (entry_of ''input'' train)) (load_error ''/train/input'') (\<lambda>trainIn.
           attempt (load_part n parse (entry_of ''output'' train)) (load_error ''/train/output'') (\<lambda>trainOut.
           attempt (inferSchema trainIn) (inference_error ''Input'') (\<lambda>schemaIn.
           bindS (modify (df_schemaIn_update (\<lambda>_. Some schemaIn))) (\<lambda>_.
           attempt (inferSchema trainOut) (inference_error ''Output'') (\<lambda>schemaOut.
           bindS (modify (df_schemaOut_update (\<lambda>_. Some schemaOut))) (\<lambda>_.
           bindS (lift (dump schemaIn)) (\<lambda>dIn.
           bindS (modify (df_schemaInDump_update (\<lambda>_. yaml dIn))) (\<lambda>_.
           bindS (lift (dump schemaOut)) (\<lambda>dOut.
           bindS (modify (df_schemaOutDump_update (\<lambda>_. yaml dOut))) (\<lambda>_.
           ret True)))))))))))"

subsection \<open>A new file\<close>

text \<open>\<^verbatim>\<open>s.replace(/\.[a-zA-Z0-9]+$/, "")\<close>\<close>

definition strip_extension :: "string \<Rightarrow> string" where
  "strip_extension s =
     (let ext = takeWhile (\<lambda>c. is_lower c \<or> is_upper c \<or> is_digit c) (rev s); before = drop (length ext) (rev s)
      in if ext \<noteq> [] \<and> before \<noteq> [] \<and> hd before = CHR ''.'' then rev (tl before) else s)"

definition newDatasetInput :: "browser_file \<Rightarrow> dataset_form \<Rightarrow> dataset_form" where
  "newDatasetInput file st =
     st\<lparr>df_rawData := Some file, df_id := strip_extension (strip_extension (bf_name file))\<rparr>"

text \<open>What happens when the archive has been unpacked. An exception ends it and is only written to the console.\<close>

definition newDatasetLoaded ::
  "nat \<Rightarrow> (string \<Rightarrow> num) \<Rightarrow> (jsval \<Rightarrow> string) \<Rightarrow> tnode \<Rightarrow> (dataset_form, unit) io" where
  "newDatasetLoaded n parse yaml result =
     catchS
       (bindS (lift (fst (findReadmeAndScan archive_opener (archive_world result)))) (\<lambda>(name, description).
        bindS (modify (\<lambda>st. st\<lparr>df_name := name, df_description := description\<rparr>)) (\<lambda>_.
        bindS (extractSchema n parse yaml result) (\<lambda>success.
        if success then switch 1 else ret ()))))
       (\<lambda>e. ret ())"

text \<open>The whole of it for one file, with no other event in between.\<close>

definition newDatasetFile ::
  "nat \<Rightarrow> (string \<Rightarrow> num) \<Rightarrow> (jsval \<Rightarrow> string) \<Rightarrow> (byte list \<Rightarrow> js_error + extracted list) \<Rightarrow> browser_file \<Rightarrow> (dataset_form, unit) io" where
  "newDatasetFile n parse yaml untar file =
     bindS (modify (newDatasetInput file)) (\<lambda>_.
     bindS (lift (loadTarFile untar (bf_content file))) (\<lambda>p.
     case p of Rejected e \<Rightarrow> ret () | Resolved t \<Rightarrow> newDatasetLoaded n parse yaml t))"

subsection \<open>Opening the dialog\<close>

text \<open>The context is kept in the store of the browser as the text of a JSON value.\<close>

definition stored_context :: "(string list \<Rightarrow> string) \<Rightarrow> string option \<Rightarrow> client_context res" where
  "stored_context urljoin item = bindE (case item of None \<Rightarrow> Inr JNull | Some t \<Rightarrow> JSON_parse t) (loadContext urljoin)"

definition item_field :: "string \<Rightarrow> 'u item \<Rightarrow> jsv" where
  "item_field k it = (case map_of it k of Some (Val v) \<Rightarrow> v | _ \<Rightarrow> Undefined)"

definition beforeOpen ::
  "(string list \<Rightarrow> string) \<Rightarrow> 'w axios \<Rightarrow> string option \<Rightarrow> ('w \<times> dataset_form, unit) io" where
  "beforeOpen urljoin ax stored =
     bindS (on_state (modify (df_step_update (\<lambda>_. 1)))) (\<lambda>_.
     bindS (on_state (switch 0)) (\<lambda>_.
     bindS (lift (stored_context urljoin stored)) (\<lambda>ctx.
     catchS
       (bindS (on_world (getUserById ax ctx ''this'')) (\<lambda>(result :: unit item).
        on_state (modify (df_currentUserId_update (\<lambda>_. item_field ''id'' result)))))
       (\<lambda>e. ret ()))))"

subsection \<open>Finishing the dialog\<close>

definition set_error :: "string \<Rightarrow> ('w \<times> dataset_form, unit) io" where
  "set_error msg = on_state (modify (df_error_update (\<lambda>_. msg)))"

text \<open>\<^verbatim>\<open>Math.round(100 * bytesUploaded / bytesTotal)\<close>; the fraction is exact below \<open>2 ^ 40\<close> bytes.
  \<open>None\<close> stands for a number that is not finite.\<close>

definition set_progress :: "nat \<Rightarrow> nat \<Rightarrow> dataset_form \<Rightarrow> dataset_form" where
  "set_progress bytesUploaded bytesTotal st =
     st\<lparr>df_uploadProgress :=
       if bytesTotal = 0 then None else Some ((200 * int bytesUploaded + int bytesTotal) div (2 * int bytesTotal))\<rparr>"

type_synonym 'w tus = "browser_file \<Rightarrow> (nat \<Rightarrow> nat \<Rightarrow> dataset_form \<Rightarrow> dataset_form) upload_options \<Rightarrow> ('w, unit) io"

text \<open>After the data set has been created from an upload.\<close>

definition upload_created ::
  "(string list \<Rightarrow> string) \<Rightarrow> (jsv obj \<Rightarrow> jsv obj) \<Rightarrow> 'w axios \<Rightarrow> ('w \<times> dataset_form) tus \<Rightarrow> ('w, unit) io \<Rightarrow>
   client_context \<Rightarrow> string \<Rightarrow> ('w \<times> dataset_form, unit) io" where
  "upload_created urljoin decam ax upload sucess ctx i =
     bindS (on_state (switch 1)) (\<lambda>_.
     bindS (\<lambda>(w, st). (Inr (df_rawData st), (w, st))) (\<lambda>raw.
     case raw of
       None \<Rightarrow> throw TypeError
     | Some file \<Rightarrow>
         catchS
           (bindS (uploadDataset urljoin upload ctx i file (bf_name file) set_progress) (\<lambda>_.
            catchS
              (bindS (on_world (updateDataset decam ax ctx i [(''status'', Str ''transferred'')])) (\<lambda>_. on_world sucess))
              (\<lambda>e. set_error ''Failed to update the dataset.'')))
           (\<lambda>e. set_error ''Failed to upload the dataset.'')))"

definition finish ::
  "(string list \<Rightarrow> string) \<Rightarrow> (jsv obj \<Rightarrow> jsv obj) \<Rightarrow> 'w axios \<Rightarrow> ('w \<times> dataset_form) tus \<Rightarrow> ('w, unit) io \<Rightarrow> string option \<Rightarrow>
   ('w \<times> dataset_form, unit) io" where
  "finish urljoin decam ax upload sucess stored =
     bindS (lift (stored_context urljoin stored)) (\<lambda>ctx.
     bindS (on_state (modify (\<lambda>st.
       if df_source st = ''git'' then st\<lparr>df_sourceAddress := df_sourceAddress st @ ''::'' @ df_path st\<rparr> else st))) (\<lambda>_.
     bindS (\<lambda>(w, st). (Inr st, (w, st))) (\<lambda>st.
     bindS (lift (js_text (df_currentUserId st))) (\<lambda>user.
     let i = user @ ''/'' @ df_id st;
         dataset = [(''id'', Str i), (''source'', Str (df_source st)), (''sourceAddress'', Str (df_sourceAddress st)),
                    (''name'', Str (df_name st)), (''description'', Str (df_description st)), (''accessKey'', Str (df_accessKey st))]
     in catchS
          (bindS (on_world (createDataset decam ax ctx dataset)) (\<lambda>_.
           bindS (\<lambda>(w, st). (Inr (df_source st), (w, st))) (\<lambda>source.
           if source = ''upload'' then upload_created urljoin decam ax upload sucess ctx i
           else on_world sucess)))
          (\<lambda>e. set_error ''Dataset creation error.'')))))"

end
