(* ===== verification/Json_Correct.thy ===== *)
theory Json_Correct
  imports Client_Values
begin

text \<open>
  \<^verbatim>\<open>JSON.parse\<close> reads back what \<^verbatim>\<open>JSON.stringify\<close> writes: the client sends config spaces and schemas as
  such texts, and contexts are kept as such texts in the store of the browser.
\<close>

text \<open>Values as \<^verbatim>\<open>JSON.parse\<close> makes them: no property twice, indices first. Fractions have no text in the
  model.\<close>

fun json_value :: "jsval \<Rightarrow> bool" and json_values :: "jsval list \<Rightarrow> bool" and json_members :: "jsval obj \<Rightarrow> bool" where
  "json_value (JFrac m e) = False"
| "json_value (JArr xs) = json_values xs"
| "json_value (JObj ob) = (obj_assign [] ob = ob \<and> json_members ob)"
| "json_value v = True"
| "json_values [] = True"
| "json_values (x # xs) = (json_value x \<and> json_values xs)"
| "json_members [] = True"
| "json_members ((k, x) # ms) = (json_value x \<and> json_members ms)"

subsection \<open>Texts\<close>

lemma hex_value_digit: "n < 16 \<Longrightarrow> hex_value (hex_digit n) = Some n"
  by (auto simp: hex_value_def hex_digit_def is_digit_def Let_def)

lemma escaped_char:
  assumes "map_of [(CHR 0x08, CHR ''b''), (CHR 0x09, CHR ''t''), (CHR 0x0A, CHR ''n''), (CHR 0x0C, CHR ''f''),
      (CHR 0x0D, CHR ''r''), (quote, quote), (CHR 0x5C, CHR 0x5C)] c = Some d"
  shows "map_of [(quote, quote), (CHR 0x5C, CHR 0x5C), (CHR ''/'', CHR ''/''), (CHR ''b'', CHR 0x08),
      (CHR ''f'', CHR 0x0C), (CHR ''n'', CHR 0x0A), (CHR ''r'', CHR 0x0D), (CHR ''t'', CHR 0x09)] d = Some c"
  using assms by (simp add: quote_def split: if_splits) auto

lemma parse_escape:
  assumes "map_of [(quote, quote), (CHR 0x5C, CHR 0x5C), (CHR ''/'', CHR ''/''), (CHR ''b'', CHR 0x08),
      (CHR ''f'', CHR 0x0C), (CHR ''n'', CHR 0x0A), (CHR ''r'', CHR 0x0D), (CHR ''t'', CHR 0x09)] d = Some c"
  shows "parse_string (CHR 0x5C # d # r) = bindE (parse_string r) (\<lambda>(s, r'). Inr (c # s, r'))"
proof -
  have "CHR 0x5C \<noteq> quote" "\<not> (of_char (CHR 0x5C) :: nat) < 32" by (simp_all add: quote_def)
  then show ?thesis unfolding parse_string.simps list.case assms option.case by simp
qed

lemma parse_quoted_char: "parse_string (quote_char c @ r) = bindE (parse_string r) (\<lambda>(s, r'). Inr (c # s, r'))"
proof (cases "map_of [(CHR 0x08, CHR ''b''), (CHR 0x09, CHR ''t''), (CHR 0x0A, CHR ''n''), (CHR 0x0C, CHR ''f''),
      (CHR 0x0D, CHR ''r''), (quote, quote), (CHR 0x5C, CHR 0x5C)] c")
  case (Some d)
  show ?thesis unfolding quote_char_def Some option.case using parse_escape [OF escaped_char [OF Some]] by simp
next
  case None
  have n: "c \<noteq> quote" "c \<noteq> CHR 0x5C" using None by (simp_all split: if_splits)
  show ?thesis
  proof (cases "(of_char c :: nat) < 32")
    case False
    then show ?thesis unfolding quote_char_def None using n by simp
  next
    case True
    have h: "hex_value CHR ''0'' = Some 0" "hex_value (hex_digit (of_char c div 16)) = Some (of_char c div 16)"
      "hex_value (hex_digit (of_char c mod 16)) = Some (of_char c mod 16)"
      using True by (auto intro!: hex_value_digit) (simp add: hex_value_def is_digit_def)
    show ?thesis unfolding quote_char_def None using True by (simp add: h quote_def)
  qed
qed

lemma parse_quoted: "parse_string (concat (map quote_char s) @ quote # r) = Inr (s, r)"
  by (induction s) (simp_all add: parse_quoted_char)
subsection \<open>Numbers and constants\<close>

text \<open>What may follow a value.\<close>

definition after_value :: "string \<Rightarrow> bool" where
  "after_value r = (r = [] \<or> hd r \<in> {CHR '','', CHR '']'', CHR ''}''})"

lemma skip_ws_start: "\<not> json_space c \<Longrightarrow> skip_ws (c # s) = c # s"
  by (simp add: skip_ws_def)

lemma punctuation_not_space [simp]:
  "\<not> json_space quote" "\<not> json_space CHR ''[''" "\<not> json_space CHR ''{''" "\<not> json_space CHR '']''" "\<not> json_space CHR ''}''"
  "\<not> json_space CHR '',''" "\<not> json_space CHR '':''" "\<not> json_space CHR ''n''" "\<not> json_space CHR ''t''" "\<not> json_space CHR ''f''"
  by (simp_all add: json_space_def quote_def)

lemma parse_constants:
  "parse_value (''null'' @ r) = Inr (JNull, r)" "parse_value (''true'' @ r) = Inr (JBool True, r)"
  "parse_value (''false'' @ r) = Inr (JBool False, r)"
  by (subst parse_value.simps; simp add: skip_ws_start quote_def)+

lemma digits_split:
  assumes "list_all is_digit ds" and "r = [] \<or> \<not> is_digit (hd r)"
  shows "takeWhile is_digit (ds @ r) = ds" "dropWhile is_digit (ds @ r) = r"
  using assms by (induction ds; cases r; simp)+

lemma after_value_start: "after_value r \<Longrightarrow> r = [] \<or> \<not> is_digit (hd r)" "after_value r \<Longrightarrow> r \<noteq> [] \<Longrightarrow> hd r \<notin> {CHR ''.'', CHR ''e'', CHR ''E''}"
  by (auto simp: after_value_def is_digit_def)

lemma digits_of_start: "1 < length (digits_of n) \<Longrightarrow> hd (digits_of n) \<noteq> CHR ''0''"
proof (induction n rule: digits_of.induct)
  case (1 n)
  show ?case
  proof (cases "n < 10")
    case True
    then show ?thesis using "1.prems" by (simp add: digits_of.simps [of n])
  next
    case False
    have d: "digits_of (n div 10) \<noteq> []" using digits_of_digits by blast
    show ?thesis
    proof (cases "n div 10 < 10")
      case True
      then have "hd (digits_of n) = char_of (48 + n div 10)" using False by (simp add: digits_of.simps [of n] digits_of.simps [of "n div 10"])
      moreover have "n div 10 \<noteq> 0" using False by simp
      moreover have "(of_char (char_of (48 + n div 10) :: char) :: nat) = 48 + n div 10" using True by simp
      moreover have "(of_char CHR ''0'' :: nat) = 48" by simp
      ultimately show ?thesis by (metis add_cancel_left_right)
    next
      case l: False
      then have "1 < length (digits_of (n div 10))" using digits_of_digits [of "n div 10 div 10"] by (simp add: digits_of.simps [of "n div 10"])
      then show ?thesis using "1.IH" False d by (simp add: digits_of.simps [of n])
    qed
  qed
qed

lemma parse_number_parts:
  assumes "takeWhile is_digit u = ds" and "dropWhile is_digit u = r" and "ds \<noteq> []"
    and "\<not> (1 < length ds \<and> hd ds = CHR ''0'')" and "\<not> (r \<noteq> [] \<and> (hd r = CHR ''.'' \<or> hd r = CHR ''e'' \<or> hd r = CHR ''E''))"
  shows "parse_number (CHR ''-'' # u) = Inr (JInt (- int (decimal ds)), r)"
    and "hd u \<noteq> CHR ''-'' \<Longrightarrow> parse_number u = Inr (JInt (int (decimal ds)), r)"
  using assms(3-5) unfolding parse_number_def Let_def by (simp_all add: assms(1,2))

lemma parse_number_text: "after_value r \<Longrightarrow> parse_number (int_text n @ r) = Inr (JInt n, r)"
proof -
  assume r: "after_value r"
  have d: "list_all is_digit (digits_of k)" "digits_of k \<noteq> []" for k using digits_of_digits by blast+
  have m: "hd (digits_of k @ r) \<noteq> CHR ''-''" for k using d [of k] not_digits(1) by (cases "digits_of k") auto
  have z: "\<not> (1 < length (digits_of k) \<and> hd (digits_of k) = CHR ''0'')" for k using digits_of_start by blast
  have e: "\<not> (r \<noteq> [] \<and> (hd r = CHR ''.'' \<or> hd r = CHR ''e'' \<or> hd r = CHR ''E''))" using after_value_start(2) [OF r] by blast
  note p = parse_number_parts [OF digits_split [OF d(1) after_value_start(1) [OF r]] d(2) z e]
  show ?thesis by (cases "n < 0") (simp_all add: int_text_def p(1) p(2) [OF m])
qed

lemma int_text_start: "\<exists>c s. int_text n = c # s \<and> (c = CHR ''-'' \<or> is_digit c)"
proof -
  have d: "list_all is_digit (digits_of k)" "digits_of k \<noteq> []" for k using digits_of_digits by blast+
  then show ?thesis by (cases "digits_of (nat n)") (auto simp: int_text_def, metis list.pred_inject(2))
qed

lemma number_start:
  assumes "c = CHR ''-'' \<or> is_digit c"
  shows "\<not> json_space c" "c \<noteq> quote" "c \<noteq> CHR ''[''" "c \<noteq> CHR ''{''" "CHR ''n'' \<noteq> c" "CHR ''t'' \<noteq> c" "CHR ''f'' \<noteq> c" "c \<noteq> CHR '']''" "c \<noteq> CHR ''}''"
  using assms by (auto simp: json_space_def quote_def is_digit_def)

lemma parse_int_value: "after_value r \<Longrightarrow> parse_value (int_text n @ r) = Inr (JInt n, r)"
proof -
  assume r: "after_value r"
  obtain c s where c: "int_text n = c # s" "c = CHR ''-'' \<or> is_digit c" using int_text_start by blast
  show ?thesis using parse_number_text [OF r, of n] number_start [OF c(2)] by (subst parse_value.simps) (simp add: c(1) skip_ws_start)
qed
subsection \<open>Values\<close>

lemma quote_apart: "CHR ''['' \<noteq> quote" "CHR ''{'' \<noteq> quote" "quote \<noteq> CHR ''}''"
  by (simp_all add: quote_def)

lemma stringify_hd: "stringify v = Inr t \<Longrightarrow> t \<noteq> [] \<and> \<not> json_space (hd t) \<and> hd t \<noteq> CHR '']'' \<and> hd t \<noteq> CHR ''}''"
proof (cases v)
  case (JInt n)
  assume "stringify v = Inr t"
  then show ?thesis using JInt int_text_start [of n] number_start by fastforce
next
  case (JArr xs)
  assume "stringify v = Inr t"
  then show ?thesis using JArr by (auto simp: bindE_eq_Inr)
next
  case (JObj ob)
  assume "stringify v = Inr t"
  then show ?thesis using JObj by (auto simp: bindE_eq_Inr)
next
  case (JBool b)
  assume "stringify v = Inr t"
  then show ?thesis using JBool by (cases b) auto
qed (auto simp: quote_text_def quote_def json_space_def)

lemma stringify_start:
  "stringify v = Inr t \<Longrightarrow> \<exists>c s. t = c # s \<and> \<not> json_space c \<and> c \<noteq> CHR '']'' \<and> c \<noteq> CHR ''}''"
  using stringify_hd [of v t] by (cases t) simp_all

lemma skip_ws_value: "stringify v = Inr t \<Longrightarrow> skip_ws (t @ r) = t @ r"
  using stringify_start [of v t] by (auto simp: skip_ws_start)

lemma join_items: "ts \<noteq> [] \<Longrightarrow> join sep (t # ts) = t @ sep @ join sep ts"
  by (cases ts) auto

lemma stringify_items_length: "stringify_items xs = Inr ts \<Longrightarrow> length ts = length xs"
  by (induction xs arbitrary: ts) (auto simp: bindE_eq_Inr)

lemma stringify_members_length: "stringify_members ms = Inr ts \<Longrightarrow> length ts = length ms"
  by (induction ms arbitrary: ts) (auto simp: bindE_eq_Inr)

lemma parse_stringified:
  "stringify v = Inr t \<Longrightarrow> json_value v \<Longrightarrow> after_value r \<Longrightarrow> parse_value (t @ r) = Inr (v, r)"
  "stringify_items xs = Inr ts \<Longrightarrow> json_values xs \<Longrightarrow> xs \<noteq> [] \<Longrightarrow>
   parse_elements (join '','' ts @ CHR '']'' # r) = Inr (xs, r)"
  "stringify_members ms = Inr ts \<Longrightarrow> json_members ms \<Longrightarrow> ms \<noteq> [] \<Longrightarrow>
   parse_members (join '','' ts @ CHR ''}'' # r) ob = Inr (obj_assign ob ms, r)"
proof (induction v and xs and ms arbitrary: t r and ts r and ts r ob
    rule: stringify_stringify_items_stringify_members.induct)
  case 1
  then show ?case using parse_constants by simp
next
  case (2 b)
  then show ?case using parse_constants by (cases b) simp_all
next
  case (3 n)
  then show ?case using parse_int_value by auto
next
  case (5 s)
  then have "t = quote_text s" by simp
  then show ?case by (subst parse_value.simps) (simp add: quote_text_def skip_ws_start parse_quoted)
next
  case (6 xs)
  then obtain ts where ts: "stringify_items xs = Inr ts" "t = CHR ''['' # join '','' ts @ [CHR '']'']" by (auto simp: bindE_eq_Inr)
  show ?case
  proof (cases xs)
    case Nil
    then show ?thesis using ts by (subst parse_value.simps) (simp add: skip_ws_start quote_def)
  next
    case (Cons x ys)
    then obtain u us where u: "ts = u # us" "stringify x = Inr u" using ts(1) by (auto simp: bindE_eq_Inr)
    obtain c s where c: "u = c # s" "\<not> json_space c" "c \<noteq> CHR '']''" using stringify_start [OF u(2)] by blast
    obtain s' where s': "join '','' ts = c # s'" using u(1) c(1) by (cases us) auto
    have "parse_elements (c # s' @ CHR '']'' # r) = Inr (xs, r)" using "6.IH" [OF ts(1), of r] "6.prems" Cons s' by simp
    then show ?thesis using c by (subst parse_value.simps) (simp add: ts(2) s' skip_ws_start quote_apart)
  qed
next
  case (7 ms)
  then obtain ts where ts: "stringify_members ms = Inr ts" "t = CHR ''{'' # join '','' ts @ [CHR ''}'']" by (auto simp: bindE_eq_Inr)
  show ?case
  proof (cases ms)
    case Nil
    then show ?thesis using ts by (subst parse_value.simps) (simp add: skip_ws_start quote_def)
  next
    case (Cons m ns)
    then obtain u us where u: "ts = u # us" "\<exists>s. u = quote # s" using ts(1) by (cases m) (auto simp: bindE_eq_Inr quote_text_def)
    then obtain s' where s': "join '','' ts = quote # s'" by (cases us) auto
    have "parse_members (quote # s' @ CHR ''}'' # r) [] = Inr (ms, r)" using "7.IH" [OF ts(1), of r "[]"] "7.prems" Cons s' by simp
    then show ?thesis by (subst parse_value.simps) (simp add: ts(2) s' skip_ws_start quote_apart)
  qed
next
  case (9 x xs)
  then obtain u us where u: "stringify x = Inr u" "stringify_items xs = Inr us" "ts = u # us" by (auto simp: bindE_eq_Inr)
  show ?case
  proof (cases "xs = []")
    case True
    then have "us = []" using u(2) by simp
    moreover have "parse_value (u @ CHR '']'' # r) = Inr (x, CHR '']'' # r)"
      using "9.IH"(1) [OF u(1)] "9.prems" by (simp add: after_value_def)
    ultimately show ?thesis using True u(3) by (subst parse_elements.simps) (simp add: skip_ws_start)
  next
    case False
    then have "us \<noteq> []" using stringify_items_length [OF u(2)] by auto
    then have j: "join '','' ts @ CHR '']'' # r = u @ CHR '','' # join '','' us @ CHR '']'' # r" using u(3) by (simp add: join_items)
    have "parse_value (u @ CHR '','' # join '','' us @ CHR '']'' # r) = Inr (x, CHR '','' # join '','' us @ CHR '']'' # r)"
      using "9.IH"(1) [OF u(1)] "9.prems" by (simp add: after_value_def)
    moreover have "parse_elements (join '','' us @ CHR '']'' # r) = Inr (xs, r)" using "9.IH"(2) u "9.prems" False by simp
    ultimately show ?thesis unfolding j by (subst parse_elements.simps) (simp add: skip_ws_start)
  qed
next
  case (11 k x ms)
  then obtain u us where u: "stringify x = Inr u" "stringify_members ms = Inr us" "ts = (quote_text k @ CHR '':'' # u) # us"
    by (auto simp: bindE_eq_Inr)
  show ?case
  proof (cases "ms = []")
    case True
    then have "us = []" using u(2) by simp
    moreover have "parse_value (u @ CHR ''}'' # r) = Inr (x, CHR ''}'' # r)"
      using "11.IH"(1) [OF u(1)] "11.prems" by (simp add: after_value_def)
    ultimately show ?thesis using True u(3)
      by (subst parse_members.simps) (simp add: quote_text_def skip_ws_start parse_quoted obj_assign_def)
  next
    case False
    then have "us \<noteq> []" using stringify_members_length [OF u(2)] by auto
    then have j: "join '','' ts @ CHR ''}'' # r = quote_text k @ CHR '':'' # u @ CHR '','' # join '','' us @ CHR ''}'' # r"
      using u(3) by (simp add: join_items)
    have "parse_value (u @ CHR '','' # join '','' us @ CHR ''}'' # r) = Inr (x, CHR '','' # join '','' us @ CHR ''}'' # r)"
      using "11.IH"(1) [OF u(1)] "11.prems" by (simp add: after_value_def)
    moreover have "parse_members (join '','' us @ CHR ''}'' # r) (obj_put k x ob) = Inr (obj_assign (obj_put k x ob) ms, r)"
      using "11.IH"(2) u "11.prems" False by simp
    ultimately show ?thesis unfolding j
      by (subst parse_members.simps) (simp add: quote_text_def skip_ws_start parse_quoted obj_assign_def)
  qed
qed simp_all

lemma stringify_total: "json_value v \<Longrightarrow> \<exists>t. stringify v = Inr t" "json_values xs \<Longrightarrow> \<exists>ts. stringify_items xs = Inr ts"
  "json_members ms \<Longrightarrow> \<exists>ts. stringify_members ms = Inr ts"
  by (induction v and xs and ms rule: stringify_stringify_items_stringify_members.induct) auto

lemma parse_stringify: "json_value v \<Longrightarrow> \<exists>t. stringify v = Inr t \<and> JSON_parse t = Inr v"
  using stringify_total(1) [of v] parse_stringified(1) [of v _ "[]"] by (auto simp: JSON_parse_def after_value_def skip_ws_def)

end
