(* ===== verification/Client_Correct.thy ===== *)
theory Client_Correct
  imports Client Json_Correct
begin

text \<open>
  What the REST client does: when the paging loop returns and what it returns, which fields the
  validations accept, what an update and a creation send, and what is left of a login.
\<close>

subsection \<open>The paging loop\<close>

text \<open>The query and the world after \<open>n\<close> pages, \<open>None\<close> when the loop has ended before.\<close>

fun after_pages ::
  "'w axios \<Rightarrow> axios_config \<Rightarrow> string \<Rightarrow> nat \<Rightarrow> jsv obj \<Rightarrow> 'w \<Rightarrow> (jsv obj \<times> 'w) option" where
  "after_pages ax cfg url 0 query w = Some (query, w)"
| "after_pages ax cfg url (Suc n) query w =
     (case ax_get ax cfg url (Some query) w of
        (Inl e, v) \<Rightarrow> None
      | (Inr rs, v) \<Rightarrow>
          (case next_cursor rs of
             Inl e \<Rightarrow> None
           | Inr cursor \<Rightarrow>
               if cursor = Str [] then None else after_pages ax cfg url n (obj_put ''cursor'' cursor query) v))"

lemma after_pages_ends: "after_pages ax cfg url n q w = None \<Longrightarrow> \<exists>r. runGetQuery ax cfg url q w = Some r"
proof (induction n arbitrary: q w)
  case (Suc n)
  obtain x v where g: "ax_get ax cfg url (Some q) w = (x, v)" by force
  show ?case
  proof (cases "\<exists>rs c. x = Inr rs \<and> next_cursor rs = Inr c \<and> c \<noteq> Str []")
    case False
    then show ?thesis using g by (subst runGetQuery.simps) (auto split: sum.splits)
  next
    case True
    then obtain rs c where c: "x = Inr rs" "next_cursor rs = Inr c" "c \<noteq> Str []" by blast
    then obtain r v' where "runGetQuery ax cfg url (obj_put ''cursor'' c q) v = Some (r, v')"
      using Suc g by fastforce
    then show ?thesis using g c by (subst runGetQuery.simps) simp
  qed
qed simp

lemma returns_after_pages:
  assumes "runGetQuery ax cfg url q w = Some r"
  shows "\<exists>n. after_pages ax cfg url n q w = None"
proof (rule runGetQuery.raw_induct [OF _ assms, where P = "\<lambda>ax cfg url q w r. \<exists>n. after_pages ax cfg url n q w = None"])
  fix run ax cfg url q and w :: 'b and r
  assume IH: "\<And>ax cfg url q w r. run ax cfg url q w = Some r \<Longrightarrow> \<exists>n. after_pages ax cfg url n q w = None"
    and r: "(case ax_get ax cfg url (Some q) w of
        (Inl e, v) \<Rightarrow> Some (Inl e, v)
      | (Inr rs, v) \<Rightarrow>
          (case next_cursor rs of
             Inl e \<Rightarrow> Some (Inl e, v)
           | Inr cursor \<Rightarrow>
               if cursor = Str [] then Some (last_page rs, v)
               else Option.bind (run ax cfg url (obj_put ''cursor'' cursor q) v) (\<lambda>(r, v'). Some (bindE r (concat_page rs), v')))) = Some r"
  obtain x v where g: "ax_get ax cfg url (Some q) w = (x, v)" by force
  show "\<exists>n. after_pages ax cfg url n q w = None"
  proof (cases "\<exists>rs c. x = Inr rs \<and> next_cursor rs = Inr c \<and> c \<noteq> Str []")
    case False
    then have "after_pages ax cfg url (Suc 0) q w = None" using g by (auto split: sum.splits)
    then show ?thesis by blast
  next
    case True
    then obtain rs c where c: "x = Inr rs" "next_cursor rs = Inr c" "c \<noteq> Str []" by blast
    then obtain r' where "run ax cfg url (obj_put ''cursor'' c q) v = Some r'" using r g by (auto simp: bind_eq_Some_conv)
    then obtain n where "after_pages ax cfg url n (obj_put ''cursor'' c q) v = None" using IH by blast
    then have "after_pages ax cfg url (Suc n) q w = None" using g c by simp
    then show ?thesis by blast
  qed
qed

text \<open>A server that has the items \<open>xs\<close> in pages of \<open>k\<close>: it answers the first query with the first page, and the
  same query with the cursor \<open>cur n\<close> with the items after the first \<open>n\<close>. The cursor of a page is the one of
  the next item, or empty on the last page. A page without items may be \<^verbatim>\<open>null\<close>.\<close>

definition page :: "nat \<Rightarrow> (nat \<Rightarrow> string) \<Rightarrow> jsval list \<Rightarrow> nat \<Rightarrow> jsval" where
  "page k cur xs n =
     JObj [(''data'', if drop n xs = [] then JNull else JArr (take k (drop n xs))),
           (''metadata'', JObj [(''next-page-cursor'', JStr (if n + k < length xs then cur (n + k) else []))])]"

definition pages_served ::
  "'w axios \<Rightarrow> axios_config \<Rightarrow> string \<Rightarrow> jsv obj \<Rightarrow> nat \<Rightarrow> (nat \<Rightarrow> string) \<Rightarrow> jsval list \<Rightarrow> bool" where
  "pages_served ax cfg url query k cur xs =
     (0 < k \<and> (\<forall>n. cur n \<noteq> []) \<and>
      (\<forall>w. \<exists>v hs. ax_get ax cfg url (Some query) w = (Inr \<lparr>rs_data = page k cur xs 0, rs_headers = hs\<rparr>, v)) \<and>
      (\<forall>n < length xs. \<forall>q w. field_of q ''cursor'' = Str (cur n) \<longrightarrow>
         (\<forall>k. k \<noteq> ''cursor'' \<longrightarrow> field_of q k = field_of query k) \<longrightarrow>
         (\<exists>v hs. ax_get ax cfg url (Some q) w = (Inr \<lparr>rs_data = page k cur xs n, rs_headers = hs\<rparr>, v))))"

lemma field_of_put [simp]: "field_of (obj_put k v ob) k' = (if k' = k then v else field_of ob k')"
  by (simp add: field_of_def)

lemma next_cursor_page: "next_cursor \<lparr>rs_data = page k cur xs n, rs_headers = hs\<rparr> = Inr (Str (if n + k < length xs then cur (n + k) else []))"
  by (simp add: next_cursor_def page_def)

lemma page_data:
  "last_page \<lparr>rs_data = page k cur xs n, rs_headers = hs\<rparr> = Inr (JArr (take k (drop n xs)))"
  "n < length xs \<Longrightarrow> concat_page \<lparr>rs_data = page k cur xs n, rs_headers = hs\<rparr> (JArr ys) = Inr (JArr (take k (drop n xs) @ ys))"
  by (auto simp: last_page_def concat_page_def page_def)

lemma pages_from:
  assumes s: "pages_served ax cfg url query k cur xs"
    and a: "\<exists>v hs. ax_get ax cfg url (Some q) w = (Inr \<lparr>rs_data = page k cur xs n, rs_headers = hs\<rparr>, v)"
    and q: "\<And>k. k \<noteq> ''cursor'' \<Longrightarrow> field_of q k = field_of query k"
  shows "\<exists>v. runGetQuery ax cfg url q w = Some (Inr (JArr (drop n xs)), v)"
  using a q
proof (induction "length xs - n" arbitrary: n q w rule: less_induct)
  case less
  obtain v hs where g: "ax_get ax cfg url (Some q) w = (Inr \<lparr>rs_data = page k cur xs n, rs_headers = hs\<rparr>, v)" using less.prems(1) by blast
  show ?case
  proof (cases "n + k < length xs")
    case False
    then show ?thesis using g by (subst runGetQuery.simps) (simp add: next_cursor_page page_data)
  next
    case True
    let ?q = "obj_put ''cursor'' (Str (cur (n + k))) q"
    have k: "0 < k" "cur (n + k) \<noteq> []" using s by (simp_all add: pages_served_def)
    have f: "field_of ?q j = field_of query j" if "j \<noteq> ''cursor''" for j using less.prems(2) [OF that] that by simp
    have lt: "length xs - (n + k) < length xs - n" using True k(1) by simp
    have e: "\<exists>v' hs. ax_get ax cfg url (Some ?q) v = (Inr \<lparr>rs_data = page k cur xs (n + k), rs_headers = hs\<rparr>, v')"
      using s True f by (simp add: pages_served_def)
    then obtain v' where "runGetQuery ax cfg url ?q v = Some (Inr (JArr (drop (n + k) xs)), v')"
      using less.hyps [OF lt e] f by blast
    moreover have "take k (drop n xs) @ drop (n + k) xs = drop n xs" by (metis append_take_drop_id drop_drop add.commute)
    ultimately show ?thesis using g True k by (subst runGetQuery.simps) (simp add: next_cursor_page page_data)
  qed
qed

lemma all_pages: "pages_served ax cfg url query k cur xs \<Longrightarrow> \<exists>v. runGetQuery ax cfg url query w = Some (Inr (JArr xs), v)"
  using pages_from [of ax cfg url query k cur xs query w 0] by (auto simp: pages_served_def)
text \<open>C13. The paging loop returns exactly when, after some number of pages, a request is refused, an answer has
  no cursor that can be read, or the cursor is the empty text; any other cursor, also a missing one, makes
  it request another page.\<close>

theorem query_returns_iff:
  "(\<exists>r. runGetQuery ax cfg url query w = Some r) = (\<exists>n. after_pages ax cfg url n query w = None)"
  using after_pages_ends [of ax cfg url _ query w] returns_after_pages [of ax cfg url query w] by blast

subsection \<open>Lists of items\<close>

lemma get_all_items:
  assumes "pages_served ax (axiosInstance ctx) url query k cur xs"
  shows "\<exists>v. get_items ax ctx transform url query w = Some (mapE transform (map Json xs), v)"
  using all_pages [OF assms, of w] by (auto simp: get_items_def)

lemma item_from_object:
  assumes "list_all (\<lambda>(k, p, f). \<forall>v. \<exists>x. f v = Inr x) spec"
  shows "\<exists>it. item_from spec (Json (JObj ob)) = Inr it"
  using assms unfolding item_from_def
proof (induction spec)
  case (Cons a spec)
  obtain k p f where a: "a = (k, p, f)" by (cases a) auto
  obtain v where "property (Json (JObj ob)) p = Inr v" by simp
  moreover obtain x where "f v = Inr x" using Cons.prems a by auto
  moreover obtain it where "mapE (\<lambda>(k, p, f). bindE (property (Json (JObj ob)) p) (\<lambda>v. bindE (f v) (\<lambda>x. Inr (k, x)))) spec = Inr it"
    using Cons by auto
  ultimately show ?case using a by (auto simp del: property.simps)
qed simp

lemma items_of_objects:
  assumes "list_all (\<lambda>(k, p, f). \<forall>v. \<exists>x. f v = Inr x) spec" and "\<forall>x \<in> set xs. \<exists>ob. x = JObj ob"
  shows "\<exists>its. mapE (item_from spec) (map Json xs) = Inr its \<and> list_all2 (\<lambda>x it. item_from spec (Json x) = Inr it) xs its"
proof -
  have "\<exists>its. mapE (item_from spec) (map Json xs) = Inr its"
    using assms(2)
  proof (induction xs)
    case (Cons x xs)
    then obtain ob its where "x = JObj ob" "mapE (item_from spec) (map Json xs) = Inr its" by auto
    then show ?case using item_from_object [OF assms(1), of ob] by auto
  qed simp
  then show ?thesis by (auto simp: mapE_eq_Inr list.rel_map)
qed

text \<open>C4. If the server has a collection of data sets in pages, \<^verbatim>\<open>getDatasets\<close> returns, however many pages there are,
  and its promise is resolved with one item for every data set, in the order of the server, none left out
  and none twice.\<close>

theorem get_all_datasets:
  assumes "bindE (stringify_field ''schema-in'' (decam (query_or_empty query))) (stringify_field ''schema-out'') = Inr q"
    and "pages_served ax (axiosInstance ctx) ''/datasets'' q k cur xs" and "\<forall>x \<in> set xs. \<exists>ob. x = JObj ob"
  shows "\<exists>items v. getDatasets decam ax ctx query w = Some (Inr items, v) \<and>
           list_all2 (\<lambda>x it. (dataset_item (Json x) :: 'u item res) = Inr it) xs items"
proof -
  obtain v where v: "get_items ax ctx (dataset_item :: jsv \<Rightarrow> 'u item res) ''/datasets'' q w = Some (mapE dataset_item (map Json xs), v)"
    using get_all_items [OF assms(2)] by blast
  have "\<exists>its. mapE (dataset_item :: jsv \<Rightarrow> 'u item res) (map Json xs) = Inr its \<and> list_all2 (\<lambda>x it. dataset_item (Json x) = Inr it) xs its"
    unfolding dataset_item_def by (rule items_of_objects [OF _ assms(3)]) (simp add: copied_def dated_def)
  then show ?thesis using v assms(1) by (auto simp: getDatasets_def)
qed

definition sample_server :: "unit axios" where
  "sample_server =
     \<lparr>ax_get = (\<lambda>cfg url params.
        ret \<lparr>rs_data = page 2 (\<lambda>n. replicate (Suc n) CHR ''c'') [JObj [(''id'', JStr ''a'')], JObj [(''id'', JStr ''b'')], JObj []]
               (case params of
                  None \<Rightarrow> 0
                | Some q \<Rightarrow> (case field_of q ''cursor'' of Json (JStr s) \<Rightarrow> length s - 1 | _ \<Rightarrow> 0)),
             rs_headers = []\<rparr>),
      ax_post = (\<lambda>_ _ _. throw TypeError), ax_patch = (\<lambda>_ _ _. throw TypeError)\<rparr>"

definition sample_context :: client_context where
  "sample_context =
     \<lparr>serverAddress = ''s'', userCredentials = [], baseURL = ''s/api/v1'', authHeader = [],
      axiosInstance = \<lparr>ac_timeout = 1000, ac_baseURL = ''s/api/v1'', ac_headers = [], ac_auth = None\<rparr>\<rparr>"

theorem get_all_datasets_witness:
  "\<exists>items v. getDatasets id sample_server sample_context None () = Some (Inr items, v) \<and>
     list_all2 (\<lambda>x it. (dataset_item (Json x) :: unit item res) = Inr it) [JObj [(''id'', JStr ''a'')], JObj [(''id'', JStr ''b'')], JObj []] items"
proof (rule get_all_datasets)
  show "pages_served sample_server (axiosInstance sample_context) ''/datasets'' [] 2 (\<lambda>n. replicate (Suc n) CHR ''c'')
      [JObj [(''id'', JStr ''a'')], JObj [(''id'', JStr ''b'')], JObj []]"
    by (auto simp: pages_served_def sample_server_def field_of_def)
qed (simp_all add: query_or_empty_def stringify_field_def)

subsection \<open>Validation of fields\<close>

lemma array_includes_iff: "array_includes names v \<longleftrightarrow> (\<exists>s. v = Str s \<and> s \<in> set names)"
  by (auto simp: array_includes_def)

lemma obj_put_nonempty [simp]: "obj_put k v ob \<noteq> []"
  by (auto simp: obj_put_def keys_def split: option.split)

lemma check_id_Inr:
  "check_id input errors = Inr errors' \<Longrightarrow> errors' = errors \<or> errors' = obj_put ''id'' ''The id must be specified.'' errors \<or>
     errors' = obj_put ''id'' ''The id can contain only letters, numbers and underscores.'' errors"
  by (auto simp: check_id_def bindE_eq_Inr split: if_splits)

lemma check_id_empty:
  "check_id input [] = Inr [] \<longleftrightarrow>
     js_truthy (field_of input ''id'') \<and> format_test ID_FORMAT (field_of input ''id'') = Inr True"
  by (auto simp: check_id_def format_test_def bindE_eq_Inr)

lemma check_name_empty:
  "check_name input errors = Inr [] \<longleftrightarrow> errors = [] \<and>
     (if js_truthy (field_of input ''name'') then format_test NAME_FORMAT (field_of input ''name'') = Inr True else True)"
  by (auto simp: check_name_def format_test_def bindE_eq_Inr)

text \<open>\<^verbatim>\<open>validateModuleFields\<close> never answers that the fields are valid: the source is compared with the types of
  modules and with the sources of modules, and no text is both.\<close>

theorem validate_module_rejects: "validateModuleFields decam raw \<noteq> Inr []"
proof -
  have s: "\<not> (array_includes [''model'', ''objective'', ''optimizer''] v \<and> array_includes [''upload'', ''download'', ''local'', ''registry''] v)" for v
    by (auto simp: array_includes_iff)
  show ?thesis
    using s [of "field_of (decam raw) ''source''"] unfolding validateModuleFields_def Let_def
    by (cases "check_id (decam raw) []") (auto simp: check_name_empty)
qed

lemma validate_job_empty:
  "(validateJobFields decam raw = []) =
     (js_truthy (field_of (decam raw) ''dataset'') \<and> js_truthy (field_of (decam raw) ''objective'') \<and> js_truthy (field_of (decam raw) ''models''))"
  by (simp add: validateJobFields_def Let_def)

text \<open>The name format leaves out one printable character.\<close>

lemma name_punctuation_codes:
  "map (of_char :: char \<Rightarrow> nat) name_punctuation =
     [34, 39, 96, 33, 35, 36, 37, 38, 40, 41, 42, 43, 44, 46, 47, 58, 59, 60, 61, 62, 63, 64, 91, 93, 32, 94, 95, 123, 124, 125, 126, 45]"
  by (simp add: name_punctuation_def)

lemma name_format_printable: "NAME_FORMAT [c] \<longleftrightarrow> 32 \<le> (of_char c :: nat) \<and> (of_char c :: nat) \<le> 126 \<and> c \<noteq> CHR 0x5C"
proof -
  let ?n = "of_char c :: nat"
  have "c \<in> set name_punctuation \<longleftrightarrow> ?n \<in> set (map (of_char :: char \<Rightarrow> nat) name_punctuation)" by (auto simp: of_char_eq_iff)
  also have "\<dots> \<longleftrightarrow> 32 \<le> ?n \<and> ?n \<le> 47 \<or> 58 \<le> ?n \<and> ?n \<le> 64 \<or> ?n = 91 \<or> 93 \<le> ?n \<and> ?n \<le> 96 \<or> 123 \<le> ?n \<and> ?n \<le> 126"
    unfolding name_punctuation_codes by (simp only: list.set insert_iff empty_iff) arith
  finally have p: "c \<in> set name_punctuation \<longleftrightarrow> 32 \<le> ?n \<and> ?n \<le> 47 \<or> 58 \<le> ?n \<and> ?n \<le> 64 \<or> ?n = 91 \<or> 93 \<le> ?n \<and> ?n \<le> 96 \<or> 123 \<le> ?n \<and> ?n \<le> 126" .
  have b: "c = CHR 0x5C \<longleftrightarrow> ?n = 92" using of_char_eq_iff [of c "CHR 0x5C", where 'a = nat] by simp
  have "NAME_FORMAT [c] \<longleftrightarrow> is_lower c \<or> is_upper c \<or> is_digit c \<or> c \<in> set name_punctuation" by (simp add: NAME_FORMAT_def)
  then show ?thesis unfolding p b is_lower_def is_upper_def is_digit_def by arith
qed

subsection \<open>Updates and creations\<close>

lemma map_of_select:
  "map_of (select_updates names updates) k =
     (if k \<in> set names \<and> obj_in k updates then Some (field_of updates k) else None)"
proof -
  have "map_of (fold (\<lambda>k data. if obj_in k updates then obj_put k (field_of updates k) data else data) ns ob) k =
      (if k \<in> set ns \<and> obj_in k updates then Some (field_of updates k) else map_of ob k)" for ns ob
    by (induction ns arbitrary: ob) auto
  then show ?thesis by (simp add: select_updates_def)
qed

text \<open>C34. An update sends one request, and its body has exactly those of the allowed fields that the caller gave,
  with their values: for data sets and modules the name, the description and the status, for jobs the number
  of tasks, the acceptance of new models and the status, for tasks the status. No other field is sent.\<close>

theorem updates_send_allowed_fields:
  "\<exists>d m j t.
     updateDataset decam ax ctx i updates = send_update ax ctx (''/datasets/'' @ i) d \<and>
     updateModule decam ax ctx i updates = send_update ax ctx (''/modules/'' @ i) m \<and>
     updateJob decam ax ctx i updates = send_update ax ctx (''/jobs/'' @ i) j \<and>
     updateTask decam ax ctx i updates = send_update ax ctx (''/tasks/'' @ i) t \<and>
     map_of d = map_of (decam updates) |` {''name'', ''description'', ''status''} \<and>
     map_of m = map_of (decam updates) |` {''name'', ''description'', ''status''} \<and>
     map_of j = map_of (decam updates) |` {''max-tasks'', ''accept-new-models'', ''status''} \<and>
     map_of t = map_of (decam updates) |` {''status''}"
proof -
  have s: "map_of (select_updates names ob) = map_of ob |` set names" if "list_all (\<lambda>k. \<not> inherited k) names" for names ob
  proof
    fix k
    show "map_of (select_updates names ob) k = (map_of ob |` set names) k"
    proof (cases "k \<in> set names")
      case True
      then have "\<not> inherited k" using that by (simp add: list_all_iff)
      then show ?thesis using True
        using map_of_eq_None_iff [of ob k] by (cases "map_of ob k") (simp_all add: map_of_select obj_in_def field_of_def keys_def)
    qed (simp add: map_of_select restrict_map_def)
  qed
  have n: "list_all (\<lambda>k. \<not> inherited k) [''name'', ''description'', ''status'']"
    "list_all (\<lambda>k. \<not> inherited k) [''max-tasks'', ''accept-new-models'', ''status'']" "list_all (\<lambda>k. \<not> inherited k) [''status'']"
    by code_simp+
  show ?thesis unfolding updateDataset_def updateModule_def updateJob_def updateTask_def
    using s [OF n(1), of "decam updates"] s [OF n(2), of "decam updates"] s [OF n(3), of "decam updates"] by auto
qed

text \<open>The config space of a new job, given as an array or an object, is sent as a text, and the server that parses
  the text gets the value that the caller gave.\<close>

theorem config_space_roundtrip:
  assumes "field_of (decam raw) ''config-space'' = Json v" and "json_value v" and "truthy v" and "\<forall>s. v \<noteq> JStr s"
    and "js_number (field_of (decam raw) ''max-tasks'') = Inr m"
  shows "\<exists>body t. createJob decam ax ctx raw = send_new ax ctx ''/jobs'' body \<and>
           field_of body ''config-space'' = Str t \<and> JSON_parse t = Inr v"
proof -
  obtain t where t: "stringify v = Inr t" "JSON_parse t = Inr v" using parse_stringify [OF assms(2)] by blast
  have "stringify_field ''config-space'' ob = Inr (obj_put ''config-space'' (Str t) ob)"
    if "field_of ob ''config-space'' = Json v" "''config-space'' \<in> set (keys ob)" for ob
    using that t(1) assms(4) by (cases v) (simp_all add: stringify_field_def)
  then show ?thesis using assms(1,3,5) t(2)
    by (auto simp: createJob_def Let_def or_else_def field_of_def keys_def fun_eq_iff bindS_def)
qed

theorem config_space_roundtrip_witness:
  "\<exists>body t. createJob id sample_server sample_context
       [(''config-space'', Json (JObj [(''a'', JArr [JInt 1, JStr ''x'']), (''b'', JNull)])), (''max-tasks'', Str ''7'')] =
     send_new sample_server sample_context ''/jobs'' body \<and>
     field_of body ''config-space'' = Str t \<and> JSON_parse t = Inr (JObj [(''a'', JArr [JInt 1, JStr ''x'']), (''b'', JNull)])"
proof (rule config_space_roundtrip)
  show "json_value (JObj [(''a'', JArr [JInt 1, JStr ''x'']), (''b'', JNull)])" by code_simp
  show "js_number (field_of (id [(''config-space'', Json (JObj [(''a'', JArr [JInt 1, JStr ''x'']), (''b'', JNull)])), (''max-tasks'', Str ''7'')])
      ''max-tasks'') = Inr (Json (JInt 7))" by code_simp
qed (simp_all add: field_of_def)

subsection \<open>Identifiers of what was created, logins\<close>

lemma split_on_slash_last: "CHR ''/'' \<notin> set i \<Longrightarrow> \<exists>x xs. split_on CHR ''/'' (p @ CHR ''/'' # i) = x # xs @ [i]"
proof (induction p)
  case (Cons c p)
  then obtain x xs where "split_on CHR ''/'' (p @ CHR ''/'' # i) = x # xs @ [i]" by blast
  then have "split_on CHR ''/'' ((c # p) @ CHR ''/'' # i) = (if c = CHR ''/'' then [] # x # xs @ [i] else (c # x) # xs @ [i])" by simp
  then show ?case by (metis append_Cons)
qed (simp add: split_on_single)

lemma after_last_slash_append: "CHR ''/'' \<notin> set i \<Longrightarrow> after_last_slash (p @ CHR ''/'' # i) = i"
  using split_on_slash_last [of i p] by (auto simp: after_last_slash_def)

lemma after_last_slash_no_slash: "CHR ''/'' \<notin> set (after_last_slash s)"
proof (induction s)
  case (Cons c s)
  then show ?case by (cases "split_on CHR ''/'' s") (auto simp: after_last_slash_def split: if_splits)
qed (simp add: after_last_slash_def)

text \<open>The identifier of a data set has a slash between the user and the name; what is returned is the
  identifier only if there is none.\<close>

lemma created_id_iff:
  assumes "map_of (rs_headers rs) ''location'' = Some (p @ CHR ''/'' # i)"
  shows "created_id rs = Inr i \<longleftrightarrow> CHR ''/'' \<notin> set i"
  using assms after_last_slash_append [of i p] after_last_slash_no_slash [of "p @ CHR ''/'' # i"] by (auto simp: created_id_def)

text \<open>Names of headers are lower case when axios delivers them. Then a login does not find the key.\<close>

lemma header_absent:
  "list_all (\<lambda>(k, x). list_all (\<lambda>c. \<not> is_upper c) k) (rs_headers rs) \<Longrightarrow> header_value rs API_KEY_HEADER = Undefined"
proof -
  assume "list_all (\<lambda>(k, x). list_all (\<lambda>c. \<not> is_upper c) k) (rs_headers rs)"
  then have "map_of (rs_headers rs) API_KEY_HEADER = None"
    by (fastforce simp: map_of_eq_None_iff list_all_iff API_KEY_HEADER_def is_upper_def)
  then show ?thesis by (simp add: header_value_def)
qed

lemma login_without_key:
  assumes "ax_get ax (axiosInstance ctx) ''/users/login'' None w = (Inr rs, v)"
    and "list_all (\<lambda>(k, x). list_all (\<lambda>c. \<not> is_upper c) k) (rs_headers rs)"
  shows "\<exists>ctx'. loginUser ax ctx w = (Inr (rs, ctx'), v) \<and> field_of (userCredentials ctx') ''apiKey'' = Undefined \<and>
           axiosInstance ctx' = axiosInstance ctx \<and> authHeader ctx' = authHeader ctx"
  using assms(1) header_absent [OF assms(2)] by (simp add: loginUser_def set_api_key_def bindS_def)

end
