(* ===== verification/Web_Correct.thy ===== *)
theory Web_Correct
  imports Web_Dataset Infer_Correct Client_Correct Load_Correct
begin

text \<open>
  What the dialog for new data sets does: the steps it can be in, the schemas it extracts from an
  archive, the requests it sends and in which order.
\<close>

subsection \<open>Directories that have been loaded\<close>

text \<open>No two files of a directory have the same name.\<close>

fun unique_tree :: "ds_file \<Rightarrow> bool" and unique_trees :: "(string \<times> ds_file) list \<Rightarrow> bool" where
  "unique_tree (Directory _ cs) = (distinct (map fst cs) \<and> unique_trees cs)"
| "unique_tree f = True"
| "unique_trees [] = True"
| "unique_trees ((k, f) # cs) = (unique_tree f \<and> unique_trees cs)"

lemma unique_trees_iff: "unique_trees cs \<longleftrightarrow> (\<forall>(k, f) \<in> set cs. unique_tree f)"
  by (induction cs rule: unique_tree_unique_trees.induct(2) [where P = "\<lambda>_. True"]) auto

lemma loaded_files_unique:
  "load_file op parse root p k meta t s w = (Inr f, w') \<Longrightarrow> unique_tree f"
  by (auto simp: load_file_def loadTensorFile_def loadCategoryFile_def loadClassFile_def loadLinksFile_def bindS_Inr lift_def Let_def
      split: if_splits option.splits)

lemma try_extension_unique:
  assumes "try_extension op parse root p meta te st w = (Inr st', w')" and "\<forall>f. snd st = Some f \<longrightarrow> unique_tree f"
  shows "\<forall>f. snd st' = Some f \<longrightarrow> unique_tree f"
  using assms loaded_files_unique
  by (auto simp: try_extension_def bindS_Inr Let_def split: prod.splits if_splits)

lemma wf_obj_unique: "wf_obj ob \<longleftrightarrow> distinct (map fst ob)"
  by (simp add: wf_obj_def keys_def)

lemma loaded_directory_unique: "loadDirectory n op parse root p k meta w = (Inr f, w') \<Longrightarrow> unique_tree f"
proof (induction n op parse root p k meta arbitrary: w f w' rule: loadDirectory.induct)
  case (2 n op parse root p k meta)
  obtain dirlist cs v v' where d: "foldS (load_entry op parse root meta n (directory_path p k)) dirlist [] v = (Inr cs, v')" "f = Directory k cs"
    using "2.prems" unfolding loadDirectory_Suc by (auto simp: bindS_Inr)
  have "wf_obj cs \<and> (\<forall>(k, f) \<in> set cs. unique_tree f)"
  proof (rule foldS_invariant [OF d(1)], goal_cases)
    case (2 e t t' u u')
    obtain name child x where c: "foldS (try_extension op parse root (directory_path p k) meta) TYPE_EXTENSIONS (e, None) u = (Inr (name, child), x)"
      and rest: "bindS (case child of Some f \<Rightarrow> ret f | None \<Rightarrow> loadDirectory n op parse root (directory_path p k) name meta)
          (\<lambda>f. ret (obj_put name f t)) x = (Inr t', u')"
      using 2(3) by (auto simp: load_entry_def bindS_Inr)
    obtain g y where g: "(case child of Some f \<Rightarrow> ret f | None \<Rightarrow> loadDirectory n op parse root (directory_path p k) name meta) x = (Inr g, y)"
        "t' = obj_put name g t"
      using rest by (auto simp: bindS_Inr)
    have "\<forall>f. snd (name, child) = Some f \<longrightarrow> unique_tree f"
      by (rule foldS_invariant [OF c]) (auto dest: try_extension_unique)
    then have "unique_tree g" using g(1) "2.IH" by (cases child) auto
    then show ?case using 2(2) unfolding g(2) by (auto simp: wf_obj_put dest: set_obj_put)
  qed (simp add: wf_obj_def keys_def)
  then show ?case using d(2) by (simp add: unique_trees_iff wf_obj_unique)
qed simp
subsection \<open>Schemas of an archive\<close>

text \<open>Every file of every sample of a data set fits a schema.\<close>

definition samples_fit :: "dataset \<Rightarrow> schema \<Rightarrow> bool" where
  "samples_fit d s =
     (case root_children (dir_children (ds_directory d)) of
        Inl e \<Rightarrow> False
      | Inr rf \<Rightarrow> list_all (list_all (file_fits (rf_classSets rf) (node_types (nodes s)))) (map snd (rf_samples rf)))"

lemma root_children_unique:
  assumes "root_children cs = Inr rf" and "unique_trees cs"
  shows "\<forall>ds \<in> snd ` set (rf_samples rf). unique_names ds"
proof (rule foldE_preserves [OF assms(1) [unfolded root_children_def], where P = "\<lambda>rf. \<forall>ds \<in> snd ` set (rf_samples rf). unique_names ds"])
  fix kc t t'
  assume a: "kc \<in> set cs" "\<forall>ds \<in> snd ` set (rf_samples t). unique_names ds" "root_child kc t = Inr t'"
  obtain k f where kc: "kc = (k, f)" by (cases kc)
  have u: "unique_tree f" using a(1) assms(2) kc by (auto simp: unique_trees_iff)
  show "\<forall>ds \<in> snd ` set (rf_samples t'). unique_names ds"
  proof (cases "\<exists>x ds. f = Directory x ds")
    case True
    then obtain x ds where f: "f = Directory x ds" by blast
    have "unique_names ds" using u unfolding f by (fastforce simp: unique_names_def unique_trees_iff list_all_iff split: ds_file.splits)
    then show ?thesis using a(2,3) kc f by (auto simp: root_child_def dest!: set_obj_put)
  next
    case False
    then show ?thesis using a(2,3) kc by (auto simp: root_child_def bindE_eq_Inr split: ds_file.splits)
  qed
qed simp

lemma loaded_part_unique: "load_part n parse t = Inr d \<Longrightarrow> \<exists>x cs. ds_directory d = Directory x cs \<and> unique_trees cs"
proof -
  assume "load_part n parse t = Inr d"
  then obtain v where "loadDataset n archive_opener parse [] True (archive_world t) = (Inr d, v)"
    unfolding load_part_def by (metis prod.collapse)
  then obtain f v' where f: "loadDirectory n archive_opener parse [] [] [] True (archive_world t) = (Inr f, v')" "ds_directory d = f"
    by (auto simp: loadDataset_def bindS_Inr)
  moreover have "\<exists>x cs. f = Directory x cs" using f(1) by (cases n) (auto simp: loadDirectory_Suc bindS_Inr simp del: loadDirectory.simps(2))
  ultimately show ?thesis using loaded_directory_unique [OF f(1)] by auto
qed

lemma inferred_fit:
  assumes "load_part n parse t = Inr d" and "inferSchema d = Inr s"
  shows "samples_fit d s"
proof -
  obtain rf where rf: "root_children (dir_children (ds_directory d)) = Inr rf" using assms(2) by (auto simp: inferSchema_def bindE_eq_Inr)
  obtain x cs where "ds_directory d = Directory x cs" "unique_trees cs" using loaded_part_unique [OF assms(1)] by blast
  then have "\<forall>ds \<in> snd ` set (rf_samples rf). unique_names ds" using root_children_unique rf by simp
  then show ?thesis using inferSchema_samples_fit [OF assms(2) rf] rf by (auto simp: samples_fit_def list_all_iff)
qed

lemma attempt_True: "attempt m report k st = (Inr True, st') \<longleftrightarrow> (\<exists>x. m = Inr x \<and> k x st = (Inr True, st'))"
  by (cases m) (auto simp: attempt_def bindS_Inr refuse_def modify_def)

lemma refuse_False: "refuse msg st \<noteq> (Inr True, st')"
  by (simp add: refuse_def bindS_def modify_def)

text \<open>C11. When the dialog accepts an archive, the two data sets \<^verbatim>\<open>train/input\<close> and \<^verbatim>\<open>train/output\<close> in it have been loaded,
  the schemas that it keeps and shows are those that are inferred from them, and every file of every
  sample fits them.\<close>

theorem extracted_schemas_fit:
  assumes "extractSchema n parse yaml files st = (Inr True, st')"
  shows "\<exists>dIn dOut sIn sOut vIn vOut.
     load_part n parse (entry_of ''input'' (entry_of ''train'' files)) = Inr dIn \<and>
     load_part n parse (entry_of ''output'' (entry_of ''train'' files)) = Inr dOut \<and>
     inferSchema dIn = Inr sIn \<and> inferSchema dOut = Inr sOut \<and> dump sIn = Inr vIn \<and> dump sOut = Inr vOut \<and>
     st' = st\<lparr>df_schemaIn := Some sIn, df_schemaOut := Some sOut, df_schemaInDump := yaml vIn, df_schemaOutDump := yaml vOut\<rparr> \<and>
     samples_fit dIn sIn \<and> samples_fit dOut sOut"
proof -
  obtain dIn dOut sIn sOut vIn vOut where
    d: "load_part n parse (entry_of ''input'' (entry_of ''train'' files)) = Inr dIn"
      "load_part n parse (entry_of ''output'' (entry_of ''train'' files)) = Inr dOut"
    and s: "inferSchema dIn = Inr sIn" "inferSchema dOut = Inr sOut" "dump sIn = Inr vIn" "dump sOut = Inr vOut"
      "st' = st\<lparr>df_schemaIn := Some sIn, df_schemaOut := Some sOut, df_schemaInDump := yaml vIn, df_schemaOutDump := yaml vOut\<rparr>"
    using assms unfolding extractSchema_def Let_def
    by (auto simp: attempt_True bindS_Inr refuse_False modify_def lift_def split: if_splits)
  show ?thesis using d s inferred_fit [OF d(1) s(1)] inferred_fit [OF d(2) s(2)] by blast
qed
definition sample_part :: tnode where
  "sample_part =
     TObj [(''s'', TObj [(''a.cat.txt'', TBuf (text_bytes ''red''))]),
           (''c.class.txt'', TBuf (text_bytes (''red'' @ [newline] @ ''blue'')))]"

definition sample_files_tree :: tnode where
  "sample_files_tree =
     TObj [(''train'', TObj [(''input'', sample_part), (''output'', sample_part)]), (''val'', TObj [(''input'', TObj []), (''output'', TObj [])])]"

lemma sample_extracted: "fst (extractSchema 2 (\<lambda>t. 0) (\<lambda>v. ''y'') sample_files_tree initial_form) = Inr True"
  by code_simp

theorem extracted_schemas_fit_witness:
  "\<exists>d s v. load_part 2 (\<lambda>t. 0) sample_part = Inr d \<and> inferSchema d = Inr s \<and> dump s = Inr v \<and> samples_fit d s \<and>
     df_schemaIn (snd (extractSchema 2 (\<lambda>t. 0) (\<lambda>v. ''y'') sample_files_tree initial_form)) = Some s"
proof -
  obtain st' where e: "extractSchema 2 (\<lambda>t. 0) (\<lambda>v. ''y'') sample_files_tree initial_form = (Inr True, st')"
    using sample_extracted by (cases "extractSchema 2 (\<lambda>t. 0) (\<lambda>v. ''y'') sample_files_tree initial_form") simp
  have "entry_of ''input'' (entry_of ''train'' sample_files_tree) = sample_part" by (simp add: entry_of_def sample_files_tree_def)
  then show ?thesis using extracted_schemas_fit [OF e] e by auto
qed

subsection \<open>The steps of the dialog\<close>

lemma switch_forward:
  "switchStep 1 st =
     Inr (if df_step st \<ge> 4 then st
          else if df_step st = 0 then st\<lparr>df_step := 1, df_rawData := None\<rparr>
          else if df_step st = 1 \<and> df_rawData st = None then st\<lparr>df_step := 3\<rparr>
          else st\<lparr>df_step := df_step st + 1\<rparr>)"
  by (subst switchStep.simps; simp add: Let_def; subst switchStep.simps; simp add: Let_def)

lemma switch_back:
  "switchStep (-1) st =
     Inr (if df_step st \<le> 1 then st
          else if df_step st = 2 \<or> df_step st = 3 \<and> df_rawData st = None then st\<lparr>df_step := 1, df_rawData := None\<rparr>
          else st\<lparr>df_step := df_step st - 1\<rparr>)"
  by (subst switchStep.simps; simp add: Let_def; subst switchStep.simps; simp add: Let_def)

lemma switch_open: "switchStep 0 (st\<lparr>df_step := 1\<rparr>) = Inr (st\<lparr>df_step := 1, df_rawData := None\<rparr>)"
  by (subst switchStep.simps) simp

text \<open>The events that change the data of the dialog. They may come in any order; the answers to requests and the
  end of the unpacking are events too.\<close>

inductive wizard :: "dataset_form \<Rightarrow> dataset_form \<Rightarrow> bool" where
  open_dialog: "switch 0 (st\<lparr>df_step := 1\<rparr>) = (r, st') \<Longrightarrow> wizard st st'"
| user_answer: "wizard st (st\<lparr>df_currentUserId := v\<rparr>)"
| press_prev: "prevVisible st \<Longrightarrow> prev st = (r, st') \<Longrightarrow> wizard st st'"
| press_next: "nextVisible st \<Longrightarrow> \<not> nextDisabled st \<Longrightarrow> next_step st = (r, st') \<Longrightarrow> wizard st st'"
| edit: "wizard st (st\<lparr>df_source := a, df_sourceAddress := b, df_path := c, df_accessKey := d, df_id := i, df_name := nm,
    df_description := t, df_componentKey := k\<rparr>)"
| new_file: "wizard st (newDatasetInput file st)"
| unpacked: "newDatasetLoaded n parse yaml files st = (r, st') \<Longrightarrow> wizard st st'"
| created: "switch 1 st = (r, st') \<Longrightarrow> wizard st st'"
| progress: "wizard st (set_progress sent all st)"
| failed: "wizard st (st\<lparr>df_error := msg\<rparr>)"

inductive_cases wizard_elims: "wizard st st'"

definition wizard_ok :: "dataset_form \<Rightarrow> bool" where
  "wizard_ok st = (1 \<le> df_step st \<and> df_step st \<le> 4 \<and> (df_step st = 2 \<longrightarrow> df_rawData st \<noteq> None))"

lemma switch_ok: "switch d st = (r, st') \<Longrightarrow> d = 1 \<or> d = -1 \<Longrightarrow> wizard_ok st \<Longrightarrow> wizard_ok st'"
  by (auto simp: switch_def switch_forward switch_back wizard_ok_def split: if_splits)

text \<open>What extracting a schema leaves alone.\<close>

definition same_steps :: "dataset_form \<Rightarrow> dataset_form \<Rightarrow> bool" where
  "same_steps st st' = (df_step st' = df_step st \<and> df_rawData st' = df_rawData st)"

definition keeps_steps :: "(dataset_form, 'a) io \<Rightarrow> bool" where
  "keeps_steps m = (\<forall>st r st'. m st = (r, st') \<longrightarrow> same_steps st st')"

lemma keeps_stepsI: "(\<And>st r st'. m st = (r, st') \<Longrightarrow> same_steps st st') \<Longrightarrow> keeps_steps m"
  by (simp add: keeps_steps_def)

lemma keeps_bind: "keeps_steps m \<Longrightarrow> (\<And>x. keeps_steps (f x)) \<Longrightarrow> keeps_steps (bindS m f)"
  by (rule keeps_stepsI) (fastforce simp: keeps_steps_def bindS_def same_steps_def split: prod.splits sum.splits)

lemma keeps_modify: "(\<And>st. same_steps st (f st)) \<Longrightarrow> keeps_steps (modify f)"
  by (simp add: keeps_steps_def modify_def)

lemma keeps_basic: "keeps_steps (ret x)" "keeps_steps (lift r)"
  by (simp_all add: keeps_steps_def same_steps_def)

lemma keeps_refuse: "keeps_steps (refuse msg)"
  unfolding refuse_def by (intro keeps_bind keeps_modify keeps_basic) (simp add: same_steps_def)

lemma keeps_attempt: "(\<And>x. keeps_steps (k x)) \<Longrightarrow> keeps_steps (attempt m report k)"
  by (cases m) (auto simp: attempt_def intro: keeps_bind keeps_basic keeps_refuse)

lemma keeps_if: "keeps_steps m \<Longrightarrow> keeps_steps m' \<Longrightarrow> keeps_steps (if c then m else m')"
  by simp

lemmas keeps_intros = keeps_bind keeps_modify keeps_basic keeps_refuse keeps_attempt keeps_if

lemma keeps_extract: "keeps_steps (extractSchema n parse yaml files)"
  unfolding extractSchema_def Let_def by (intro keeps_intros) (simp_all add: same_steps_def)

lemma loaded_steps:
  assumes "newDatasetLoaded n parse yaml files st = (r, st')"
  shows "\<exists>s. same_steps st s \<and> (st' = s \<or> (\<exists>x. switch 1 s = (x, st')))"
proof -
  define named :: "string \<times> string \<Rightarrow> dataset_form \<Rightarrow> dataset_form" where "named = (\<lambda>nd st. st\<lparr>df_name := fst nd, df_description := snd nd\<rparr>)"
  have named: "same_steps st (named nd st)" for nd st by (simp add: named_def same_steps_def)
  consider e where "fst (findReadmeAndScan archive_opener (archive_world files)) = Inl e" |
    nd b s where "fst (findReadmeAndScan archive_opener (archive_world files)) = Inr nd" "extractSchema n parse yaml files (named nd st) = (b, s)"
    by (metis prod.collapse sum.exhaust_sel)
  then show ?thesis
  proof cases
    case (1 e)
    then have "st' = st" using assms by (simp add: newDatasetLoaded_def catchS_def lift_def bindS_def split: if_splits)
    then show ?thesis by (auto simp: same_steps_def)
  next
    case (2 nd b s)
    have s: "same_steps st s" using keeps_extract [of n parse yaml files] 2(2) named [of st nd] by (auto simp: keeps_steps_def same_steps_def)
    have "st' = s \<or> (\<exists>x. switch 1 s = (x, st'))"
      using assms 2 unfolding newDatasetLoaded_def catchS_def
      by (cases nd) (auto simp: bindS_def lift_def modify_def named_def split: prod.splits sum.splits if_splits)
    then show ?thesis using s by blast
  qed
qed

text \<open>C16. Whatever the order of the events, the dialog is in one of its four steps, it shows the schemas of an archive
  only while it has an archive, and no change of the step runs out of stack.\<close>

theorem wizard_invariant:
  assumes "wizard\<^sup>*\<^sup>* initial_form st"
  shows "1 \<le> df_step st \<and> df_step st \<le> 4 \<and> (if df_step st = 2 then df_rawData st \<noteq> None else True) \<and>
         (\<exists>back forward. switchStep (-1) st = Inr back \<and> switchStep 1 st = Inr forward)"
proof -
  have "wizard_ok st" using assms
  proof (induction rule: rtranclp_induct)
    case base
    show ?case by (simp add: wizard_ok_def initial_form_def)
  next
    case (step st st')
    have i: "same_steps a b \<Longrightarrow> wizard_ok a \<Longrightarrow> wizard_ok b" for a b by (simp add: wizard_ok_def same_steps_def)
    show ?case using step(2)
    proof cases
      case (open_dialog r)
      then show ?thesis by (auto simp: switch_def switch_open wizard_ok_def)
    next
      case (unpacked n parse yaml files r)
      then show ?thesis using loaded_steps [OF unpacked] step(3) i switch_ok by blast
    qed (use step(3) switch_ok in \<open>auto simp: prev_def next_step_def wizard_ok_def newDatasetInput_def set_progress_def\<close>)
  qed
  then show ?thesis by (auto simp: wizard_ok_def switch_forward switch_back)
qed
definition sample_tar :: browser_file where
  "sample_tar = \<lparr>bf_name = ''d.tar.gz'', bf_type = ''application/x-tar'', bf_content = Inr []\<rparr>"

definition shown_form :: dataset_form where
  "shown_form = snd (newDatasetLoaded 2 (\<lambda>t. 0) (\<lambda>v. ''y'') sample_files_tree (newDatasetInput sample_tar initial_form))"

lemma shown_form_reached: "wizard\<^sup>*\<^sup>* initial_form shown_form"
proof -
  have "wizard initial_form (newDatasetInput sample_tar initial_form)" by (rule wizard.new_file)
  moreover have "wizard (newDatasetInput sample_tar initial_form) shown_form"
    unfolding shown_form_def by (rule wizard.unpacked [OF prod.collapse [symmetric]])
  ultimately show ?thesis by (meson converse_rtranclp_into_rtranclp rtranclp.rtrancl_refl)
qed

lemma shown_form_fields:
  "df_step shown_form = 2" "df_rawData shown_form = Some sample_tar" "df_source shown_form = ''upload''" "df_id shown_form = ''d''"
  "df_schemaInDump shown_form = ''y''" "df_schemaOutDump shown_form = ''y''"
proof -
  have "df_step shown_form = 2 \<and> df_rawData shown_form = Some sample_tar \<and> df_source shown_form = ''upload'' \<and> df_id shown_form = ''d'' \<and>
      df_schemaInDump shown_form = ''y'' \<and> df_schemaOutDump shown_form = ''y''" by code_simp
  then show "df_step shown_form = 2" "df_rawData shown_form = Some sample_tar" "df_source shown_form = ''upload''" "df_id shown_form = ''d''"
    "df_schemaInDump shown_form = ''y''" "df_schemaOutDump shown_form = ''y''" by blast+
qed

theorem wizard_invariant_witness:
  "df_step shown_form = 2 \<and> df_rawData shown_form \<noteq> None \<and> (\<exists>back forward. switchStep (-1) shown_form = Inr back \<and> switchStep 1 shown_form = Inr forward)"
  using wizard_invariant [OF shown_form_reached] shown_form_fields by simp

text \<open>Going back to the first step drops the archive but not the schemas that were shown, so the button to the next
  step is enabled, and the dialog can be finished as an upload without a file.\<close>

lemma upload_without_file:
  "\<exists>st. wizard\<^sup>*\<^sup>* initial_form st \<and> finishVisible st \<and> df_source st = ''upload'' \<and> df_rawData st = None"
proof -
  define first where "first = shown_form\<lparr>df_step := 1, df_rawData := None\<rparr>"
  have "wizard shown_form first"
    by (rule wizard.press_prev [where r = "Inr ()"])
      (simp_all add: prevVisible_def shown_form_fields prev_def switch_def switch_back first_def)
  moreover have "wizard first (first\<lparr>df_step := 3\<rparr>)"
    by (rule wizard.press_next [where r = "Inr ()"])
      (simp_all add: nextVisible_def nextDisabled_def shown_form_fields next_step_def switch_def switch_forward first_def)
  ultimately have "wizard\<^sup>*\<^sup>* initial_form (first\<lparr>df_step := 3\<rparr>)"
    using shown_form_reached by (meson rtranclp.rtrancl_into_rtrancl)
  then show ?thesis by (intro exI [of _ "first\<lparr>df_step := 3\<rparr>"]) (simp add: finishVisible_def shown_form_fields first_def)
qed

subsection \<open>The requests of the dialog\<close>

text \<open>The world with a log of the requests that change something on the server, each with its outcome.\<close>

datatype request = Posted string "jsv obj" | Patched string "jsv obj" | Uploaded string

definition logged :: "request \<Rightarrow> ('w, 'a) io \<Rightarrow> ('w \<times> (request \<times> bool) list, 'a) io" where
  "logged q m = (\<lambda>(w, l). case m w of (r, v) \<Rightarrow> (r, (v, l @ [(q, case r of Inl e \<Rightarrow> False | Inr x \<Rightarrow> True)])))"

definition logging_axios :: "'w axios \<Rightarrow> ('w \<times> (request \<times> bool) list) axios" where
  "logging_axios ax =
     \<lparr>ax_get = (\<lambda>cfg url q. on_world (ax_get ax cfg url q)),
      ax_post = (\<lambda>cfg url b. logged (Posted url b) (ax_post ax cfg url b)),
      ax_patch = (\<lambda>cfg url b. logged (Patched url b) (ax_patch ax cfg url b))\<rparr>"

text \<open>An upload may call back and change what the dialog shows of its progress.\<close>

definition logging_upload :: "('w \<times> dataset_form) tus \<Rightarrow> (('w \<times> (request \<times> bool) list) \<times> dataset_form) tus" where
  "logging_upload upload file options =
     (\<lambda>((w, l), st). case upload file options (w, st) of
        (r, (v, st')) \<Rightarrow> (r, ((v, l @ [(Uploaded (up_endpoint options), case r of Inl e \<Rightarrow> False | Inr x \<Rightarrow> True)]), st')))"

definition log_of :: "'r \<times> (('w \<times> (request \<times> bool) list) \<times> 's) \<Rightarrow> (request \<times> bool) list" where
  "log_of x = snd (fst (snd x))"

lemma log_of_pair: "log_of (r, ((w, l), s)) = l"
  by (simp add: log_of_def)

lemma catchS_log:
  "(\<And>e w st. log_of (h e (w, st)) = snd w) \<Longrightarrow> log_of (catchS m h s) = log_of (m s)"
  by (cases "m s") (auto simp: catchS_def log_of_def split: sum.splits)

lemma set_error_log: "log_of (set_error msg (w, st)) = snd w"
  by (simp add: set_error_def on_state_def modify_def log_of_def)

lemma sucess_log: "log_of (on_world (on_world sucess) ((w, l), st)) = l"
  by (simp add: on_world_def log_of_def split: prod.splits)

lemma send_new_logged:
  "\<exists>v r ok. on_world (send_new (logging_axios ax) ctx url body) ((w, l), st) = (r, ((v, l @ [(Posted url body, ok)]), st)) \<and>
     (ok = False \<longrightarrow> (\<exists>e. r = Inl e))"
  by (cases "ax_post ax (axiosInstance ctx) url body w"; cases "fst (ax_post ax (axiosInstance ctx) url body w)")
    (auto simp: on_world_def send_new_def logging_axios_def logged_def bindS_def)

lemma send_update_logged:
  "\<exists>v r ok. on_world (send_update (logging_axios ax) ctx url body) ((w, l), st) = (r, ((v, l @ [(Patched url body, ok)]), st))"
  by (cases "ax_patch ax (axiosInstance ctx) url body w"; cases "fst (ax_patch ax (axiosInstance ctx) url body w)")
    (auto simp: on_world_def send_update_def logging_axios_def logged_def bindS_def)

lemma upload_logged:
  "\<exists>v r st' ok. uploadDataset urljoin (logging_upload upload) ctx i file name cb ((w, l), st) =
       (r, ((v, l @ [(Uploaded (urljoin [baseURL ctx, ''datasets'', i, ''upload'']), ok)]), st')) \<and> (ok \<longleftrightarrow> (\<exists>x. r = Inr x))"
  unfolding uploadDataset_def logging_upload_def by (auto split: prod.splits sum.splits)

lemma upload_requests:
  assumes "df_rawData st = Some arch" and "df_step st \<noteq> 0"
  shows "\<exists>endpoint url status.
     log_of (upload_created urljoin decam (logging_axios ax) (logging_upload upload) (on_world sucess) ctx i ((w, l), st)) \<in>
       {l @ [(Uploaded endpoint, False)], l @ [(Uploaded endpoint, True), (Patched url status, False)],
        l @ [(Uploaded endpoint, True), (Patched url status, True)]}"
proof -
  obtain st1 where s: "switch 1 st = (Inr (), st1)" "df_rawData st1 = Some arch"
    using assms by (auto simp: switch_def switch_forward)
  let ?ep = "urljoin [baseURL ctx, ''datasets'', i, ''upload'']"
  let ?patch = "bindS (on_world (updateDataset decam (logging_axios ax) ctx i [(''status'', Str ''transferred'')])) (\<lambda>_. on_world (on_world sucess))"
  obtain v r st' ok where u: "uploadDataset urljoin (logging_upload upload) ctx i arch (bf_name arch) set_progress ((w, l), st1) =
      (r, ((v, l @ [(Uploaded ?ep, ok)]), st'))" "ok \<longleftrightarrow> (\<exists>x. r = Inr x)"
    using upload_logged [of urljoin upload ctx i arch "bf_name arch" set_progress w l st1] by (elim exE conjE) (rule that)
  have "log_of (upload_created urljoin decam (logging_axios ax) (logging_upload upload) (on_world sucess) ctx i ((w, l), st)) =
      log_of (bindS (uploadDataset urljoin (logging_upload upload) ctx i arch (bf_name arch) set_progress)
        (\<lambda>_. catchS ?patch (\<lambda>e. set_error ''Failed to update the dataset.'')) ((w, l), st1))"
    using s by (simp add: upload_created_def on_state_def bindS_def catchS_log set_error_log)
  also have "\<dots> = (case r of Inl e \<Rightarrow> l @ [(Uploaded ?ep, ok)] | Inr x \<Rightarrow> log_of (?patch ((v, l @ [(Uploaded ?ep, ok)]), st')))"
    using u(1) by (cases r) (simp_all add: catchS_log set_error_log log_of_pair)
  finally have t: "log_of (upload_created urljoin decam (logging_axios ax) (logging_upload upload) (on_world sucess) ctx i ((w, l), st)) =
      (case r of Inl e \<Rightarrow> l @ [(Uploaded ?ep, ok)] | Inr x \<Rightarrow> log_of (?patch ((v, l @ [(Uploaded ?ep, ok)]), st')))" .
  show ?thesis
  proof (cases r)
    case (Inl e)
    then show ?thesis using t u(2) by auto
  next
    case (Inr x)
    let ?upd = "select_updates [''name'', ''description'', ''status''] (decam [(''status'', Str ''transferred'')])"
    obtain v' r' ok' where p: "on_world (send_update (logging_axios ax) ctx (''/datasets/'' @ i) ?upd) ((v, l @ [(Uploaded ?ep, ok)]), st') =
        (r', ((v', (l @ [(Uploaded ?ep, ok)]) @ [(Patched (''/datasets/'' @ i) ?upd, ok')]), st'))"
      using send_update_logged [of ax ctx "''/datasets/'' @ i" ?upd v "l @ [(Uploaded ?ep, ok)]" st'] by (elim exE) (rule that)
    have "log_of (?patch ((v, l @ [(Uploaded ?ep, ok)]), st')) = l @ [(Uploaded ?ep, True), (Patched (''/datasets/'' @ i) ?upd, ok')]"
      using p u(2) Inr sucess_log by (cases r') (auto simp: updateDataset_def bindS_def log_of_def)
    then show ?thesis using t Inr by (cases ok') auto
  qed
qed

lemma upload_nothing:
  "df_rawData st = None \<or> df_step st = 0 \<Longrightarrow> log_of (upload_created urljoin decam ax upload sucess ctx i ((w, l), st)) = l"
  by (auto simp: upload_created_def on_state_def switch_def switch_forward bindS_def throw_def log_of_def)

text \<open>The requests of an attempt that gets as far as creating the data set.\<close>

lemma finish_log:
  fixes st :: dataset_form
  assumes st0: "st0 = (if df_source st = ''git'' then st\<lparr>df_sourceAddress := df_sourceAddress st @ ''::'' @ df_path st\<rparr> else st)"
    and 2: "stored_context urljoin stored = Inr ctx" "js_text (df_currentUserId st0) = Inr user"
  shows "\<exists>body v r ok. (ok = False \<longrightarrow> (\<exists>e :: js_error. r = Inl e)) \<and>
    log_of (finish urljoin decam (logging_axios ax) (logging_upload upload) (on_world sucess) stored ((w, []), st)) =
      (case r of Inl e \<Rightarrow> [(Posted ''/datasets'' body, ok)]
       | Inr (x :: string) \<Rightarrow> if df_source st0 = ''upload''
           then log_of (upload_created urljoin decam (logging_axios ax) (logging_upload upload) (on_world sucess) ctx
             (user @ CHR ''/'' # df_id st0) ((v, [(Posted ''/datasets'' body, ok)]), st0))
           else [(Posted ''/datasets'' body, ok)])"
proof -
  let ?fin = "finish urljoin decam (logging_axios ax) (logging_upload upload) (on_world sucess) stored ((w, []), st)"
  let ?i = "user @ CHR ''/'' # df_id st0"
  let ?ds = "[(''id'', Str ?i), (''source'', Str (df_source st0)), (''sourceAddress'', Str (df_sourceAddress st0)),
      (''name'', Str (df_name st0)), (''description'', Str (df_description st0)), (''accessKey'', Str (df_accessKey st0))]"
  obtain body where body: "createDataset decam (logging_axios ax) ctx ?ds = send_new (logging_axios ax) ctx ''/datasets'' body"
    by (simp add: createDataset_def Let_def)
  obtain v r ok where c: "on_world (send_new (logging_axios ax) ctx ''/datasets'' body) ((w, []), st0) =
      (r, ((v, [(Posted ''/datasets'' body, ok)]), st0))" "ok = False \<longrightarrow> (\<exists>e. r = Inl e)"
    using send_new_logged [of ax ctx "''/datasets''" body w "[]" st0] by auto
  have "log_of ?fin = log_of (bindS (on_world (createDataset decam (logging_axios ax) ctx ?ds)) (\<lambda>_.
       bindS (\<lambda>(w, st). (Inr (df_source st), (w, st))) (\<lambda>source.
       if source = ''upload'' then upload_created urljoin decam (logging_axios ax) (logging_upload upload) (on_world sucess) ctx ?i
       else on_world (on_world sucess))) ((w, []), st0))"
    using 2 by (simp add: finish_def bindS_def [of "lift _"] bindS_def [of "on_state _"] bindS_def [of "\<lambda>(w, st). (Inr st, (w, st))"]
        on_state_def modify_def st0 [symmetric] Let_def catchS_log set_error_log)
  then have "log_of ?fin = (case r of Inl e \<Rightarrow> [(Posted ''/datasets'' body, ok)]
     | Inr x \<Rightarrow> if df_source st0 = ''upload''
         then log_of (upload_created urljoin decam (logging_axios ax) (logging_upload upload) (on_world sucess) ctx ?i ((v, [(Posted ''/datasets'' body, ok)]), st0))
         else [(Posted ''/datasets'' body, ok)])"
    using c(1) by (cases r) (simp_all add: body bindS_def log_of_def sucess_log [unfolded log_of_def])
  then show ?thesis using c(2) by (intro exI [of _ body] exI [of _ v] exI [of _ r] exI [of _ ok] conjI)
qed


text \<open>Without a file, what follows the creation raises a \<^verbatim>\<open>TypeError\<close>, and the dialog reports that the creation has
  failed although the server has the data set.\<close>

lemma finish_without_file:
  assumes "stored_context urljoin stored = Inr ctx" and "js_text (df_currentUserId st) = Inr user"
    and "df_source st = ''upload''" and "df_rawData st = None"
    and "createDataset decam ax ctx
        [(''id'', Str (user @ CHR ''/'' # df_id st)), (''source'', Str ''upload''), (''sourceAddress'', Str (df_sourceAddress st)),
         (''name'', Str (df_name st)), (''description'', Str (df_description st)), (''accessKey'', Str (df_accessKey st))] w = (Inr i, v)"
  shows "\<exists>st'. finish urljoin decam ax upload sucess stored (w, st) = (Inr (), (v, st')) \<and> df_error st' = ''Dataset creation error.''"
proof -
  obtain s where s: "switchStep 1 st = Inr s" "df_rawData s = None" using assms(4) by (auto simp: switch_forward)
  let ?ds = "[(''id'', Str (user @ CHR ''/'' # df_id st)), (''source'', Str ''upload''), (''sourceAddress'', Str (df_sourceAddress st)),
         (''name'', Str (df_name st)), (''description'', Str (df_description st)), (''accessKey'', Str (df_accessKey st))]"
  let ?git = "\<lambda>st. if df_source st = ''git'' then st\<lparr>df_sourceAddress := df_sourceAddress st @ ''::'' @ df_path st\<rparr> else st"
  let ?u = "upload_created urljoin decam ax upload sucess ctx (user @ CHR ''/'' # df_id st)"
  have u: "?u (v, st) = (Inl TypeError, (v, s))"
    using s by (simp add: upload_created_def on_state_def switch_def bindS_def throw_def)
  have b: "bindS (on_world (createDataset decam ax ctx ?ds)) (\<lambda>_.
      bindS (\<lambda>(w, st). (Inr (df_source st), (w, st))) (\<lambda>source. if source = ''upload'' then ?u else on_world sucess)) (w, st) =
      (Inl TypeError, (v, s))"
    using u assms(3,5) by (simp add: bindS_def on_world_def)
  have g: "on_state (modify ?git) (w, st) = (Inr (), (w, st))" using assms(3) by (simp add: on_state_def modify_def)
  have e: "(\<lambda>(w, st). (Inr st, (w, st))) (w, st) = (Inr st, (w, st))" by simp
  show ?thesis unfolding finish_def assms(1) bindS_lift bindS_step [of "on_state (modify ?git)", OF g] bindS_step [of "\<lambda>(w, st). (Inr st, (w, st))" "(w, st)" st "(w, st)", OF e] assms(2) Let_def
    using b assms(3) by (simp add: catchS_def set_error_def on_state_def modify_def cong: if_cong)
qed

subsection \<open>Names\<close>

lemma runs_chars: "w \<in> set (runs p s) \<Longrightarrow> w \<noteq> [] \<and> list_all p w"
proof (induction s arbitrary: w)
  case (Cons c cs)
  show ?case
  proof (cases "p c \<and> cs \<noteq> [] \<and> p (hd cs)")
    case True
    then show ?thesis using Cons by (cases "runs p cs") auto
  next
    case False
    then show ?thesis using Cons by (cases "p c") auto
  qed
qed simp

text \<open>The name that is read from a README consists of letters, digits, blanks and hyphens.\<close>

lemma scanned_name:
  assumes "list_all README_NAME (fst nd)"
  shows "list_all README_NAME (fst (fold scan_line ls nd))"
proof -
  have d: "set (dropWhile is_space xs) \<subseteq> set xs" for xs by (meson set_dropWhileD subsetI)
  have t: "set (trim w) \<subseteq> set w" for w
    using d [of w] d [of "rev (dropWhile is_space w)"] unfolding trim_def set_rev by (rule subset_trans [rotated])
  have "list_all README_NAME (concat (map trim (runs README_NAME line)))" for line
  proof -
    have "README_NAME c" if "w \<in> set (runs README_NAME line)" "c \<in> set (trim w)" for w c
      using runs_chars [OF that(1)] t [of w] that(2) by (auto simp: list_all_iff)
    then show ?thesis by (auto simp: list_all_iff)
  qed
  then have s: "list_all README_NAME (fst nd) \<Longrightarrow> list_all README_NAME (fst (scan_line l nd))" for l nd
    by (cases nd) (simp add: scan_line_def Let_def)
  show ?thesis using assms by (induction ls arbitrary: nd) (auto simp: s)
qed

lemma strip_extension_prefix: "\<exists>e. s = strip_extension s @ e"
proof -
  define a where "a = (\<lambda>c. is_lower c \<or> is_upper c \<or> is_digit c)"
  let ?t = "takeWhile a (rev s)" and ?d = "drop (length (takeWhile a (rev s))) (rev s)"
  have "rev s = ?t @ ?d" by (metis dropWhile_eq_drop takeWhile_dropWhile_id)
  then have r: "s = rev ?d @ rev ?t" by (metis rev_append rev_rev_ident)
  show ?thesis
  proof (cases "?t \<noteq> [] \<and> ?d \<noteq> [] \<and> hd ?d = CHR ''.''")
    case True
    then have "rev ?d = rev (tl ?d) @ [CHR ''.'']" by (cases ?d) auto
    then have "s = rev (tl ?d) @ CHR ''.'' # rev ?t" using r by simp
    moreover have "strip_extension s = rev (tl ?d)" using True by (simp add: strip_extension_def Let_def a_def)
    ultimately show ?thesis by (intro exI [of _ "CHR ''.'' # rev ?t"]) simp
  qed (auto simp: strip_extension_def Let_def a_def)
qed

lemma progress_bounds:
  assumes "0 < n" and "k \<le> n"
  shows "\<exists>x. df_uploadProgress (set_progress k n st) = Some x \<and> 0 \<le> x \<and> x \<le> 100"
proof -
  have "(200 * int k + int n) div (2 * int n) \<le> (201 * int n) div (2 * int n)" using assms by (intro zdiv_mono1) auto
  also have "\<dots> = 100" using assms(1) by simp
  finally show ?thesis using assms(1) by (simp add: set_progress_def pos_imp_zdiv_nonneg_iff)
qed

subsection \<open>Archives that store data sets\<close>

text \<open>The opener of the package, with the methods that are in effect in it, reads archives: those methods are the
  ones of the archive opener.\<close>

lemma package_reader: "m_read package_methods = tar_read" "m_readLines package_methods = tar_readLines" "m_close package_methods = tar_close"
  by (simp_all add: package_methods_def install_tar_def)

interpretation package_tree_reader: tree_reader archive_opener tar_contents "[]" "\<lambda>w. archive_tree (w_struct w)"
proof (unfold_locales, goal_cases)
  case (1 h w bs pos n k)
  then show ?case using tar_tree_reader.read_range [of h w bs pos n k]
    by (simp add: archive_opener_def opener_parts package_reader tar_methods_def install_tar_def)
next
  case (2 h w bs)
  then show ?case using tar_tree_reader.close_reader [of h w bs]
    by (simp add: archive_opener_def opener_parts package_reader tar_methods_def install_tar_def)
next
  case (3 w ps es)
  then show ?case using tar_tree_reader.open_directory [of w ps es] by (simp add: archive_opener_def opener_parts)
next
  case (4 w ps bs)
  then show ?case using tar_tree_reader.open_reader [of w ps bs] by (simp add: archive_opener_def opener_parts)
next
  case (5 h w bs)
  then show ?case using tar_tree_reader.read_lines [of h w bs]
    by (simp add: archive_opener_def opener_parts package_reader tar_methods_def install_tar_def)
next
  case (6 h w bs w')
  then show ?case using tar_tree_reader.close_tree [of h w bs w']
    by (simp add: archive_opener_def opener_parts package_reader tar_methods_def install_tar_def)
qed

lemma stored_part_loads:
  assumes "stores parse True es fs" and "archive_tree t = DirNode es" and "depth fs < n"
  shows "load_part n parse t = Inr \<lparr>ds_root = [], ds_directory = Directory [] fs\<rparr>"
  using package_tree_reader.load_stored [OF assms(1), of "archive_world t" n] assms(2,3) by (auto simp: load_part_def archive_world_def)

text \<open>An archive whose training parts store data sets from which schemas can be inferred is accepted, with exactly these
  schemas.\<close>

lemma stored_archive_accepted:
  assumes "has_entry ''train'' files" "has_entry ''val'' files"
    and "has_entry ''input'' (entry_of ''train'' files)" "has_entry ''output'' (entry_of ''train'' files)"
    and "has_entry ''input'' (entry_of ''val'' files)" "has_entry ''output'' (entry_of ''val'' files)"
    and "stores parse True es fs" "archive_tree (entry_of ''input'' (entry_of ''train'' files)) = DirNode es" "depth fs < n"
    and "stores parse True es' fs'" "archive_tree (entry_of ''output'' (entry_of ''train'' files)) = DirNode es'" "depth fs' < n"
    and "inferSchema \<lparr>ds_root = [], ds_directory = Directory [] fs\<rparr> = Inr s" "dump s = Inr v"
    and "inferSchema \<lparr>ds_root = [], ds_directory = Directory [] fs'\<rparr> = Inr s'" "dump s' = Inr v'"
  shows "extractSchema n parse yaml files st =
    (Inr True, st\<lparr>df_schemaIn := Some s, df_schemaOut := Some s', df_schemaInDump := yaml v, df_schemaOutDump := yaml v'\<rparr>)"
  using assms(1-6) stored_part_loads [OF assms(7-9)] stored_part_loads [OF assms(10-12)] assms(13-16)
  by (simp add: extractSchema_def Let_def attempt_def bindS_def modify_def lift_def)

end
