(* ===== verification/Web_Session.thy ===== *)
theory Web_Session
  imports Web_Dataset
begin

text \<open>
  Sessions of the web interface: the page \<^verbatim>\<open>src/web/src/pages/Login.vue\<close>, the guard of the router in
  \<^verbatim>\<open>src/web/src/router\<close> and the logout of \<^verbatim>\<open>src/web/src/layout/TopNavbar.vue\<close>. The store of the browser is
  an object of texts. The pages keep no context of their own: each operation loads it from the store
  (\<open>stored_context\<close> in theory \<open>Web_Dataset\<close>).
\<close>

subsection \<open>Routes\<close>

record route =
  rt_path :: string
  rt_name :: string
  rt_component :: string
  rt_redirect :: "string option"
  rt_requiresAuth :: bool

definition page_route :: "string \<Rightarrow> string \<Rightarrow> string \<Rightarrow> route" where
  "page_route path name component =
     \<lparr>rt_path = path, rt_name = name, rt_component = component, rt_redirect = None, rt_requiresAuth = True\<rparr>"

text \<open>The two routes, each with its children. The login has the meta field \<^verbatim>\<open>guest\<close>, which nothing reads.\<close>

definition routes :: "(route \<times> route list) list" where
  "routes =
     [(\<lparr>rt_path = ''/'', rt_name = ''home'', rt_component = ''DashboardLayout'', rt_redirect = Some ''/datasets'', rt_requiresAuth = True\<rparr>,
       [page_route ''datasets'' ''datasets'' ''Datasets'', page_route ''jobs'' ''jobs'' ''Jobs'', page_route ''jobs/:id'' ''job'' ''Job'',
        page_route ''models'' ''models'' ''Models'']),
      (\<lparr>rt_path = ''/login'', rt_name = ''login'', rt_component = ''Login'', rt_redirect = None, rt_requiresAuth = False\<rparr>, [])]"

text \<open>The records that match an address are found by \<^verbatim>\<open>vue-router\<close> among these and their children.\<close>

definition route_records :: "route list" where
  "route_records = concat (map (\<lambda>(r, cs). r # cs) routes)"

text \<open>A redirection has a path, the address to return to and the query.\<close>

datatype navigation = Proceed | RedirectTo string string "string obj"

definition beforeEach :: "route list \<Rightarrow> string \<Rightarrow> string obj \<Rightarrow> string obj \<Rightarrow> navigation" where
  "beforeEach matched fullPath query store =
     (if list_ex rt_requiresAuth matched then
        (if map_of store ''user'' = None then RedirectTo ''/login'' fullPath query else Proceed)
      else Proceed)"

subsection \<open>JSON texts of users and contexts\<close>

text \<open>\<^verbatim>\<open>JSON.stringify\<close> leaves out the properties that are undefined and the instance of axios, which is a
  function. \<^verbatim>\<open>NaN\<close> is written as \<^verbatim>\<open>null\<close>.\<close>

definition json_object :: "jsv obj \<Rightarrow> jsval" where
  "json_object ob =
     JObj (concat (map (\<lambda>(k, v). case v of Undefined \<Rightarrow> [] | NaN \<Rightarrow> [(k, JNull)] | Json x \<Rightarrow> [(k, x)]) ob))"

definition context_json :: "client_context \<Rightarrow> jsval" where
  "context_json ctx =
     JObj [(''serverAddress'', JStr (serverAddress ctx)), (''userCredentials'', json_object (userCredentials ctx)),
           (''baseURL'', JStr (baseURL ctx)), (''authHeader'', json_object (authHeader ctx))]"

definition user_json :: "unit item \<Rightarrow> jsval" where
  "user_json it = json_object (map (\<lambda>(k, x). (k, case x of Val v \<Rightarrow> v | _ \<Rightarrow> Undefined)) it)"

subsection \<open>The login page\<close>

datatype destination = ToUrl string | ToName string

record login_page =
  lp_userid :: string
  lp_password :: string
  lp_apiKey :: string
  lp_error :: string
  lp_store :: "string obj"
  lp_visits :: "destination list"

text \<open>What both ways of logging in end with: the user and the context are stored, and the page is left.\<close>

definition enter ::
  "'w axios \<Rightarrow> string option \<Rightarrow> client_context \<Rightarrow> ('w \<times> login_page, unit) io" where
  "enter ax nextUrl ctx =
     bindS (on_world (getUserById ax ctx ''this'')) (\<lambda>result.
     bindS (lift (stringify (user_json result))) (\<lambda>user.
     bindS (on_state (modify (\<lambda>p. p\<lparr>lp_store := obj_put ''user'' user (lp_store p)\<rparr>))) (\<lambda>_.
     bindS (lift (stringify (context_json ctx))) (\<lambda>text.
     on_state (modify (\<lambda>p. p\<lparr>lp_store := obj_put ''context'' text (lp_store p),
       lp_visits := lp_visits p @ [case nextUrl of Some u \<Rightarrow> ToUrl u | None \<Rightarrow> ToName ''home'']\<rparr>))))))"

definition server_error :: "('w \<times> login_page, unit) io" where
  "server_error = on_state (modify (lp_error_update (\<lambda>_. ''Server error.'')))"

text \<open>The handler of the error ends with \<^verbatim>\<open>console.log(error)\<close> where no \<^verbatim>\<open>error\<close> is in scope; the exception has no
  further effect, since nothing follows in the promise.\<close>

definition login ::
  "(string list \<Rightarrow> string) \<Rightarrow> 'w axios \<Rightarrow> string option \<Rightarrow> string \<Rightarrow> string \<Rightarrow> string option \<Rightarrow> ('w \<times> login_page, unit) io" where
  "login urljoin ax envHost protocol locationHost nextUrl =
     bindS (on_state (modify (lp_error_update (\<lambda>_. [])))) (\<lambda>_.
     bindS (\<lambda>(w, p). (Inr p, (w, p))) (\<lambda>p.
     let host = (case envHost of Some h \<Rightarrow> if h \<noteq> [] then h else locationHost | None \<Rightarrow> locationHost);
         address = protocol @ ''//'' @ host @ ''/''
     in if lp_apiKey p \<noteq> [] then
          bindS (lift (new_Context urljoin address [(''apiKey'', Str (lp_apiKey p))])) (\<lambda>ctx.
          catchS (enter ax nextUrl ctx) (\<lambda>e. server_error))
        else
          bindS (lift (new_Context urljoin address [(''username'', Str (lp_userid p)), (''password'', Str (lp_password p))])) (\<lambda>ctx.
          catchS
            (bindS (on_world (loginUser ax ctx)) (\<lambda>(rs, ctx').
             catchS (enter ax nextUrl ctx') (\<lambda>e. server_error)))
            (\<lambda>e. on_state (modify (lp_error_update (\<lambda>_. ''Bad credentials.'')))))))"

text \<open>\<^verbatim>\<open>beforeMount\<close>: a key in the address logs in at once.\<close>

definition beforeMount ::
  "(string list \<Rightarrow> string) \<Rightarrow> 'w axios \<Rightarrow> string option \<Rightarrow> string \<Rightarrow> string \<Rightarrow> string option \<Rightarrow> string option \<Rightarrow>
   ('w \<times> login_page, unit) io" where
  "beforeMount urljoin ax envHost protocol locationHost nextUrl key =
     (case key of
        Some k \<Rightarrow>
          if k \<noteq> [] then
            bindS (on_state (modify (lp_apiKey_update (\<lambda>_. k)))) (\<lambda>_. login urljoin ax envHost protocol locationHost nextUrl)
          else on_state (modify (\<lambda>p. p\<lparr>lp_userid := [], lp_password := [], lp_apiKey := []\<rparr>))
      | None \<Rightarrow> on_state (modify (\<lambda>p. p\<lparr>lp_userid := [], lp_password := [], lp_apiKey := []\<rparr>)))"

subsection \<open>Logout\<close>

definition remove_item :: "string \<Rightarrow> string obj \<Rightarrow> string obj" where
  "remove_item k store = filter (\<lambda>(j, v). j \<noteq> k) store"

definition logout :: "string obj \<Rightarrow> string obj \<times> destination" where
  "logout store = (remove_item ''context'' (remove_item ''user'' store), ToName ''login'')"

end
