(* ===== verification/Session_Correct.thy ===== *)
theory Session_Correct
  imports Web_Session Client_Correct
begin

text \<open>
  A login leaves behind a session: the context that is stored is the one the pages load again, and the
  guard of the router lets them be shown until the logout.
\<close>

subsection \<open>Contexts through the store\<close>

lemma json_object_strings: "json_object (map (\<lambda>(k, s). (k, Str s)) kvs) = JObj (map (\<lambda>(k, s). (k, JStr s)) kvs)"
  by (induction kvs) (auto simp: json_object_def)

text \<open>The two kinds of credentials that the login page makes.\<close>

definition login_credentials :: "login_page \<Rightarrow> jsv obj" where
  "login_credentials p =
     (if lp_apiKey p \<noteq> [] then [(''apiKey'', Str (lp_apiKey p))]
      else [(''username'', Str (lp_userid p)), (''password'', Str (lp_password p))])"

lemma index_free:
  "index_of_key ''serverAddress'' = None" "index_of_key ''userCredentials'' = None" "index_of_key ''baseURL'' = None"
  "index_of_key ''authHeader'' = None" "index_of_key ''apiKey'' = None" "index_of_key ''username'' = None"
  "index_of_key ''password'' = None" "index_of_key ''X-API-KEY'' = None" "index_of_key ''Authorization'' = None"
  by code_simp+

lemma inherited_free: "\<not> inherited ''apiKey''" "\<not> inherited ''username''" "\<not> inherited ''password''"
  by code_simp+

lemma new_context_forms:
  assumes "new_Context urljoin a (login_credentials p) = Inr ctx"
  shows "serverAddress ctx = a" "userCredentials ctx = login_credentials p"
    "\<exists>h s. authHeader ctx = [(h, Str s)] \<and> index_of_key h = None"
  using assms by (auto simp: new_Context_def login_credentials_def obj_in_def keys_def inherited_free field_of_def index_free Let_def split: if_splits)

lemma context_json_value:
  assumes "new_Context urljoin a (login_credentials p) = Inr ctx"
  shows "json_value (context_json ctx)"
proof -
  obtain h s where h: "authHeader ctx = [(h, Str s)]" "index_of_key h = None" using new_context_forms(3) [OF assms] by blast
  show ?thesis unfolding context_json_def new_context_forms(2) [OF assms] h(1)
    by (simp add: json_object_def login_credentials_def obj_assign_def obj_put_def keys_def index_free h(2))
qed

lemma context_restored:
  assumes "new_Context urljoin a (login_credentials p) = Inr ctx"
  shows "\<exists>t. stringify (context_json ctx) = Inr t \<and> stored_context urljoin (Some t) = Inr ctx"
proof -
  obtain t where t: "stringify (context_json ctx) = Inr t" "JSON_parse t = Inr (context_json ctx)"
    using parse_stringify [OF context_json_value [OF assms]] by blast
  have "loadContext urljoin (context_json ctx) = new_Context urljoin a (login_credentials p)"
    unfolding context_json_def new_context_forms(1,2) [OF assms] loadContext_def
    by (simp add: login_credentials_def json_object_def)
  then show ?thesis using t assms by (auto simp: stored_context_def)
qed

text \<open>A key that was not found in the answer to a login is not stored.\<close>

lemma context_json_no_key:
  assumes "map_of (userCredentials ctx) ''apiKey'' = None"
  shows "context_json (set_api_key Undefined ctx) = context_json ctx"
proof -
  have "obj_put ''apiKey'' Undefined (userCredentials ctx) = userCredentials ctx @ [(''apiKey'', Undefined)]"
    using assms by (simp add: obj_put_def keys_def map_of_eq_None_iff index_free)
  then show ?thesis by (simp add: context_json_def set_api_key_def json_object_def)
qed
subsection \<open>Logging in and out\<close>

lemma enter_stores:
  "enter ax nextUrl ctx (w, p) = (Inr (), (v, p')) \<Longrightarrow>
   \<exists>u t. stringify (context_json ctx) = Inr t \<and> lp_store p' = obj_put ''context'' t (obj_put ''user'' u (lp_store p))"
  by (auto simp: enter_def bindS_Inr lift_def on_state_def on_world_def modify_def split: prod.splits)

lemma caught_error:
  "catchS m (\<lambda>e. on_state (modify (lp_error_update (\<lambda>_. msg)))) (w, p) = (Inr (), (v, p')) \<Longrightarrow> lp_error p' = [] \<Longrightarrow> msg \<noteq> [] \<Longrightarrow>
   m (w, p) = (Inr (), (v, p'))"
  by (auto simp: catchS_def on_state_def modify_def split: prod.splits sum.splits if_splits)

definition login_address :: "string option \<Rightarrow> string \<Rightarrow> string \<Rightarrow> string" where
  "login_address envHost protocol locationHost =
     protocol @ ''//'' @ (case envHost of Some h \<Rightarrow> if h \<noteq> [] then h else locationHost | None \<Rightarrow> locationHost) @ ''/''"

text \<open>The documented behaviour of axios: the names of the headers of an answer are in lower case.\<close>

definition lower_case_headers :: "'w axios \<Rightarrow> bool" where
  "lower_case_headers ax =
     (\<forall>cfg url q w rs v. ax_get ax cfg url q w = (Inr rs, v) \<longrightarrow> list_all (\<lambda>(k, x). list_all (\<lambda>c. \<not> is_upper c) k) (rs_headers rs))"

lemma login_enters:
  assumes l: "login urljoin ax envHost protocol locationHost nextUrl (w, p) = (Inr (), (v, p'))" and e: "lp_error p' = []"
    and h: "lower_case_headers ax"
  shows "\<exists>ctx ctx' w1 p1. new_Context urljoin (login_address envHost protocol locationHost) (login_credentials p) = Inr ctx \<and>
           (ctx' = ctx \<or> ctx' = set_api_key Undefined ctx \<and> map_of (userCredentials ctx) ''apiKey'' = None) \<and>
           enter ax nextUrl ctx' (w1, p1) = (Inr (), (v, p'))"
proof -
  define p0 where "p0 = p\<lparr>lp_error := []\<rparr>"
  have p0: "lp_apiKey p0 = lp_apiKey p" "lp_userid p0 = lp_userid p" "lp_password p0 = lp_password p" by (simp_all add: p0_def)
  let ?a = "login_address envHost protocol locationHost"
  show ?thesis
  proof (cases "lp_apiKey p = []")
    case False
    then obtain ctx where c: "new_Context urljoin ?a (login_credentials p) = Inr ctx" "catchS (enter ax nextUrl ctx) (\<lambda>e. server_error) (w, p0) = (Inr (), (v, p'))"
      using l by (auto simp: login_def on_state_def modify_def bindS_Inr lift_def Let_def login_credentials_def login_address_def p0_def [symmetric] p0)
    have "enter ax nextUrl ctx (w, p0) = (Inr (), (v, p'))"
      using caught_error [OF c(2) [unfolded server_error_def] e] by simp
    then show ?thesis using c(1) by blast
  next
    case True
    then obtain ctx where c: "new_Context urljoin ?a (login_credentials p) = Inr ctx"
        "catchS (bindS (on_world (loginUser ax ctx)) (\<lambda>(rs, ctx'). catchS (enter ax nextUrl ctx') (\<lambda>e. server_error)))
           (\<lambda>e. on_state (modify (lp_error_update (\<lambda>_. ''Bad credentials.'')))) (w, p0) = (Inr (), (v, p'))"
      using l by (auto simp: login_def on_state_def modify_def bindS_Inr lift_def Let_def login_credentials_def login_address_def p0_def [symmetric] p0)
    have "bindS (on_world (loginUser ax ctx)) (\<lambda>(rs, ctx'). catchS (enter ax nextUrl ctx') (\<lambda>e. server_error)) (w, p0) = (Inr (), (v, p'))"
      using caught_error [OF c(2) e] by simp
    then obtain rs ctx' w1 where u: "loginUser ax ctx w = (Inr (rs, ctx'), w1)" "catchS (enter ax nextUrl ctx') (\<lambda>e. server_error) (w1, p0) = (Inr (), (v, p'))"
      by (auto simp: bindS_Inr on_world_def split: prod.splits)
    have "header_value rs API_KEY_HEADER = Undefined \<and> ctx' = set_api_key (header_value rs API_KEY_HEADER) ctx"
    proof -
      have g: "ax_get ax (axiosInstance ctx) ''/users/login'' None w = (Inr rs, w1)" using u(1) by (auto simp: loginUser_def bindS_Inr)
      then have "list_all (\<lambda>(k, x). list_all (\<lambda>c. \<not> is_upper c) k) (rs_headers rs)" using h unfolding lower_case_headers_def by blast
      then show ?thesis using login_without_key [OF g] u(1) g header_absent by (auto simp: loginUser_def bindS_def)
    qed
    moreover have "map_of (userCredentials ctx) ''apiKey'' = None"
      using new_context_forms(2) [OF c(1)] True by (simp add: login_credentials_def)
    moreover have "enter ax nextUrl ctx' (w1, p0) = (Inr (), (v, p'))"
      using caught_error [OF u(2) [unfolded server_error_def] e] by simp
    ultimately show ?thesis using c(1) by auto
  qed
qed

text \<open>C37. After a login that shows no error, with a key or with a name and a password, the store holds a user and a
  context; every page that loads this context gets the context that the credentials make, and the guard
  of the router lets every page be shown. After a logout it sends every page that needs a login back to the
  login page.\<close>

theorem login_session:
  assumes "login urljoin ax envHost protocol locationHost nextUrl (w, p) = (Inr (), (v, p'))" and "lp_error p' = []"
    and "lower_case_headers ax"
  shows "\<exists>ctx. new_Context urljoin (login_address envHost protocol locationHost) (login_credentials p) = Inr ctx \<and>
           stored_context urljoin (map_of (lp_store p') ''context'') = Inr ctx \<and>
           beforeEach matched path query (lp_store p') = Proceed \<and>
           beforeEach matched path query (fst (logout (lp_store p'))) =
             (if list_ex rt_requiresAuth matched then RedirectTo ''/login'' path query else Proceed)"
proof -
  obtain ctx ctx' w1 p1 where c: "new_Context urljoin (login_address envHost protocol locationHost) (login_credentials p) = Inr ctx"
      "ctx' = ctx \<or> ctx' = set_api_key Undefined ctx \<and> map_of (userCredentials ctx) ''apiKey'' = None"
      "enter ax nextUrl ctx' (w1, p1) = (Inr (), (v, p'))"
    using login_enters [OF assms] by blast
  obtain u t where s: "stringify (context_json ctx') = Inr t" "lp_store p' = obj_put ''context'' t (obj_put ''user'' u (lp_store p1))"
    using enter_stores [OF c(3)] by blast
  have "context_json ctx' = context_json ctx" using c(2) context_json_no_key by auto
  then have "stored_context urljoin (Some t) = Inr ctx" using context_restored [OF c(1)] s(1) by auto
  moreover have "map_of (remove_item ''context'' (remove_item ''user'' ob)) ''user'' = None" for ob :: "string obj"
    by (auto simp: remove_item_def map_of_eq_None_iff)
  ultimately show ?thesis using c(1) s(2) by (simp add: beforeEach_def logout_def)
qed

definition user_server :: "unit axios" where
  "user_server =
     \<lparr>ax_get = (\<lambda>cfg url params. ret \<lparr>rs_data = JObj [(''data'', JObj [(''id'', JStr ''u'')])], rs_headers = [(''x-api-key'', ''k'')]\<rparr>),
      ax_post = (\<lambda>_ _ _. throw TypeError), ax_patch = (\<lambda>_ _ _. throw TypeError)\<rparr>"

definition filled_page :: login_page where
  "filled_page = \<lparr>lp_userid = ''u'', lp_password = ''p'', lp_apiKey = [], lp_error = [], lp_store = [], lp_visits = []\<rparr>"

definition entered_page :: login_page where
  "entered_page = snd (snd (login (join ''/'') user_server None ''http:'' ''host'' None ((), filled_page)))"

theorem login_session_witness:
  "\<exists>ctx. stored_context (join ''/'') (map_of (lp_store entered_page) ''context'') = Inr ctx \<and> userCredentials ctx = login_credentials filled_page \<and>
     beforeEach route_records ''/jobs'' [] (lp_store entered_page) = Proceed \<and>
     beforeEach route_records ''/jobs'' [] (fst (logout (lp_store entered_page))) = RedirectTo ''/login'' ''/jobs'' []"
proof -
  have "fst (login (join ''/'') user_server None ''http:'' ''host'' None ((), filled_page)) = Inr () \<and> lp_error entered_page = []" by code_simp
  then have l: "login (join ''/'') user_server None ''http:'' ''host'' None ((), filled_page) = (Inr (), ((), entered_page))" "lp_error entered_page = []"
    by (simp_all add: entered_page_def prod_eq_iff)
  have h: "lower_case_headers user_server" by (simp add: lower_case_headers_def user_server_def is_upper_def)
  have r: "list_ex rt_requiresAuth route_records" by code_simp
  from login_session [OF l h, of route_records "''/jobs''" "[]"] show ?thesis using r new_context_forms(2) by auto
qed

end
