(* ===== verification/Web_Jobs.thy ===== *)
theory Web_Jobs
  imports Web_Dataset
begin

text \<open>
  Jobs in the web interface: the dialog \<^verbatim>\<open>src/web/src/modals/NewJob.vue\<close> and the page
  \<^verbatim>\<open>src/web/src/pages/Job.vue\<close>, with the loading of the lists of the other pages. A list that is requested
  page by page may never be complete; then the operation that waits for it is \<open>None\<close>. Descriptions as
  HTML (\<^verbatim>\<open>showdown\<close>) and the timers that repeat a request are left out.
\<close>

subsection \<open>Operations that may not return\<close>

type_synonym ('w, 'a) pio = "'w \<Rightarrow> ('a res \<times> 'w) option"

text \<open>\<^verbatim>\<open>m.then(data => update).catch(e => console.log(e))\<close> where the update is a function on a state.\<close>

definition fetch :: "('w, 'a) pio \<Rightarrow> ('a \<Rightarrow> 's \<Rightarrow> 's) \<Rightarrow> ('w \<times> 's, unit) pio" where
  "fetch m f = (\<lambda>(w, st).
     case m w of
       None \<Rightarrow> None
     | Some (Inr x, v) \<Rightarrow> Some (Inr (), (v, f x st))
     | Some (Inl e, v) \<Rightarrow> Some (if e = Unmodelled then Inl Unmodelled else Inr (), (v, st)))"

text \<open>\<^verbatim>\<open>loadData\<close> of the pages \<^verbatim>\<open>Datasets.vue\<close>, \<^verbatim>\<open>Jobs.vue\<close> and \<^verbatim>\<open>Models.vue\<close>: the state is the list of items.\<close>

definition with_context ::
  "(string list \<Rightarrow> string) \<Rightarrow> string option \<Rightarrow> (client_context \<Rightarrow> ('w, 'a) pio) \<Rightarrow> ('w, 'a) pio" where
  "with_context urljoin stored m w = (case stored_context urljoin stored of Inl e \<Rightarrow> Some (Inl e, w) | Inr ctx \<Rightarrow> m ctx w)"

definition load_datasets_page ::
  "(string list \<Rightarrow> string) \<Rightarrow> (jsv obj \<Rightarrow> jsv obj) \<Rightarrow> 'w axios \<Rightarrow> string option \<Rightarrow> ('w \<times> 'u item list, unit) pio" where
  "load_datasets_page urljoin decam ax stored =
     with_context urljoin stored (\<lambda>ctx. fetch (getDatasets decam ax ctx None) (\<lambda>data items. data))"

definition load_jobs_page ::
  "(string list \<Rightarrow> string) \<Rightarrow> (jsv obj \<Rightarrow> jsv obj) \<Rightarrow> 'u texts \<Rightarrow> 'w axios \<Rightarrow> string option \<Rightarrow> ('w \<times> 'u item list, unit) pio" where
  "load_jobs_page urljoin decam tx ax stored =
     with_context urljoin stored (\<lambda>ctx. fetch (getJobs decam tx ax ctx None) (\<lambda>data items. data))"

definition load_models_page ::
  "(string list \<Rightarrow> string) \<Rightarrow> (jsv obj \<Rightarrow> jsv obj) \<Rightarrow> 'w axios \<Rightarrow> string option \<Rightarrow> ('w \<times> 'u item list, unit) pio" where
  "load_models_page urljoin decam ax stored =
     with_context urljoin stored (\<lambda>ctx. fetch (getModules decam ax ctx (Some [(''type'', Str ''model'')])) (\<lambda>data items. data))"

subsection \<open>The dialog for a new job\<close>

text \<open>The selected objective is an empty text before the objectives have been loaded (\<open>None\<close>); no property of it
  is defined then.\<close>

record 'u job_form =
  jf_step :: nat
  jf_datasets :: "'u item list"
  jf_selectedDataset :: "'u item"
  jf_objectives :: "'u item list"
  jf_selectedObjective :: "'u item option"
  jf_models :: "'u item list"
  jf_selectedModels :: "'u item list"
  jf_maxTasks :: jsv
  jf_maxTasksUnlimited :: bool
  jf_acceptNewModels :: bool

definition initial_job :: "'u job_form" where
  "initial_job =
     \<lparr>jf_step = 1, jf_datasets = [], jf_selectedDataset = [], jf_objectives = [], jf_selectedObjective = None, jf_models = [],
      jf_selectedModels = [], jf_maxTasks = Json (JInt 100), jf_maxTasksUnlimited = False, jf_acceptNewModels = True\<rparr>"

definition item_name :: "'u item \<Rightarrow> jsv" where
  "item_name it = (if js_truthy (item_field ''name'' it) then item_field ''name'' it else item_field ''id'' it)"

text \<open>\<^verbatim>\<open>this.selectedModels.map(m => m.name || m.id).join("/n")\<close>; in a joined array nothing stands for \<^verbatim>\<open>undefined\<close>
  and \<^verbatim>\<open>null\<close>.\<close>

definition selectedModelNames :: "'u job_form \<Rightarrow> string res" where
  "selectedModelNames st =
     bindE (mapE (\<lambda>m. if item_name m = Undefined \<or> item_name m = Json JNull then Inr [] else js_text (item_name m)) (jf_selectedModels st))
       (\<lambda>names. Inr (join ''/n'' names))"

definition selectedModelName :: "'u job_form \<Rightarrow> jsv" where
  "selectedModelName st = (case jf_selectedModels st of [m] \<Rightarrow> item_name m | _ \<Rightarrow> Str [])"

definition select_first :: "'u item list \<Rightarrow> 'u item \<Rightarrow> 'u item" where
  "select_first data old = (if data \<noteq> [] then hd data else old)"

definition initStep ::
  "(string list \<Rightarrow> string) \<Rightarrow> (jsv obj \<Rightarrow> jsv obj) \<Rightarrow> 'w axios \<Rightarrow> string option \<Rightarrow> ('w \<times> 'u job_form, unit) pio" where
  "initStep urljoin decam ax stored = with_context urljoin stored (\<lambda>ctx (w, st).
     if jf_step st = 1 then
       fetch (getDatasets decam ax ctx (Some [(''status'', Str ''validated'')]))
         (\<lambda>data st. st\<lparr>jf_datasets := data, jf_selectedDataset := select_first data (jf_selectedDataset st)\<rparr>) (w, st)
     else if jf_step st = 2 then
       fetch (getModules decam ax ctx
           (Some [(''type'', Str ''objective''), (''status'', Str ''active''), (''schemaIn'', item_field ''schemaOut'' (jf_selectedDataset st))]))
         (\<lambda>data st. st\<lparr>jf_objectives := data,
            jf_selectedObjective := if data \<noteq> [] then Some (hd data) else jf_selectedObjective st\<rparr>) (w, st)
     else if jf_step st = 3 then
       fetch (getModules decam ax ctx
           (Some [(''type'', Str ''model''), (''status'', Str ''active''), (''schemaIn'', item_field ''schemaIn'' (jf_selectedDataset st)),
                  (''schemaOut'', item_field ''schemaOut'' (jf_selectedDataset st))]))
         (\<lambda>data st. st\<lparr>jf_models := data, jf_selectedModels := data\<rparr>) (w, st)
     else Some (Inr (), (w, st)))"

definition job_prev ::
  "(string list \<Rightarrow> string) \<Rightarrow> (jsv obj \<Rightarrow> jsv obj) \<Rightarrow> 'w axios \<Rightarrow> string option \<Rightarrow> ('w \<times> 'u job_form, unit) pio" where
  "job_prev urljoin decam ax stored = (\<lambda>(w, st).
     if jf_step st > 1 then initStep urljoin decam ax stored (w, st\<lparr>jf_step := jf_step st - 1\<rparr>) else Some (Inr (), (w, st)))"

definition job_next ::
  "(string list \<Rightarrow> string) \<Rightarrow> (jsv obj \<Rightarrow> jsv obj) \<Rightarrow> 'w axios \<Rightarrow> string option \<Rightarrow> ('w \<times> 'u job_form, unit) pio" where
  "job_next urljoin decam ax stored = (\<lambda>(w, st).
     if jf_step st < 4 then initStep urljoin decam ax stored (w, st\<lparr>jf_step := jf_step st + 1\<rparr>) else Some (Inr (), (w, st)))"

definition job_beforeOpen ::
  "(string list \<Rightarrow> string) \<Rightarrow> (jsv obj \<Rightarrow> jsv obj) \<Rightarrow> 'w axios \<Rightarrow> string option \<Rightarrow> ('w \<times> 'u job_form, unit) pio" where
  "job_beforeOpen urljoin decam ax stored = (\<lambda>(w, st). initStep urljoin decam ax stored (w, st\<lparr>jf_step := 1\<rparr>))"

text \<open>The identifiers of the selected models; an item without one is outside the model.\<close>

definition model_ids :: "'u item list \<Rightarrow> jsval list res" where
  "model_ids ms = mapE (\<lambda>m. case item_field ''id'' m of Json v \<Rightarrow> Inr v | _ \<Rightarrow> Inl Unmodelled) ms"

definition objective_id :: "'u job_form \<Rightarrow> jsv" where
  "objective_id st = (case jf_selectedObjective st of None \<Rightarrow> Undefined | Some it \<Rightarrow> item_field ''id'' it)"

text \<open>\<open>sucess\<close> is what is done with the page when the job has been created.\<close>

definition job_finish ::
  "(string list \<Rightarrow> string) \<Rightarrow> (jsv obj \<Rightarrow> jsv obj) \<Rightarrow> 'w axios \<Rightarrow> (string \<Rightarrow> ('w, unit) io) \<Rightarrow> string option \<Rightarrow> 'u job_form \<Rightarrow> ('w, unit) io" where
  "job_finish urljoin decam ax sucess stored st =
     bindS (lift (stored_context urljoin stored)) (\<lambda>ctx.
     bindS (lift (model_ids (jf_selectedModels st))) (\<lambda>models.
     catchS
       (bindS (createJob decam ax ctx
           [(''dataset'', item_field ''id'' (jf_selectedDataset st)), (''objective'', objective_id st), (''models'', Json (JArr models)),
            (''acceptNewModels'', Json (JBool (jf_acceptNewModels st))),
            (''maxTasks'', if jf_maxTasksUnlimited st then Json (JInt 0) else jf_maxTasks st)]) sucess)
       (\<lambda>e. ret ())))"

subsection \<open>The page of a job\<close>

record 'u job_page =
  jp_items :: "'u item list"
  jp_jobId :: string
  jp_job :: "'u item"
  jp_jobModels :: jsv
  jp_notices :: "jsval list"

definition job_status :: "'u job_page \<Rightarrow> jsv" where
  "job_status p = item_field ''status'' (jp_job p)"

definition pauseLabel :: "'u job_page \<Rightarrow> string" where
  "pauseLabel p =
     (if array_includes [''running'', ''pausing''] (job_status p) then ''Pause''
      else if array_includes [''paused'', ''resuming''] (job_status p) then ''Resume''
      else if job_status p = Str ''scheduled'' then ''Start''
      else ''[none]'')"

text \<open>The classes of the icon, or a text.\<close>

definition pauseIcon :: "'u job_page \<Rightarrow> string + string list" where
  "pauseIcon p =
     (if array_includes [''running'', ''pausing''] (job_status p) then Inr [''fa'', ''fa-pause-circle'']
      else if array_includes [''paused'', ''resuming''] (job_status p) then Inr [''fa'', ''fa-play-circle'']
      else if job_status p = Str ''scheduled'' then Inr [''fa'', ''fa-play-circle'']
      else Inl ''[none]'')"

definition pauseDisabled :: "'u job_page \<Rightarrow> bool" where
  "pauseDisabled p = (job_status p \<noteq> Str ''running'' \<and> job_status p \<noteq> Str ''paused'')"

definition pauseShow :: "'u job_page \<Rightarrow> bool" where
  "pauseShow p = array_includes [''scheduled'', ''running'', ''paused'', ''pausing'', ''resuming''] (job_status p)"

definition stopShow :: "'u job_page \<Rightarrow> bool" where
  "stopShow p = array_includes [''scheduled'', ''running'', ''paused'', ''pausing'', ''resuming''] (job_status p)"

text \<open>The request is sent, and the page shows the new status at once, whatever the answer is.\<close>

definition request_status ::
  "(jsv obj \<Rightarrow> jsv obj) \<Rightarrow> 'w axios \<Rightarrow> client_context \<Rightarrow> string \<Rightarrow> ('w \<times> 'u job_page, unit) io" where
  "request_status decam ax ctx newStatus = (\<lambda>(w, p).
     (Inr (), (snd (updateJob decam ax ctx (jp_jobId p) [(''status'', Str newStatus)] w),
               p\<lparr>jp_job := obj_put ''status'' (Val (Str newStatus)) (jp_job p)\<rparr>)))"

definition pauseClick ::
  "(string list \<Rightarrow> string) \<Rightarrow> (jsv obj \<Rightarrow> jsv obj) \<Rightarrow> 'w axios \<Rightarrow> string option \<Rightarrow> ('w \<times> 'u job_page, unit) io" where
  "pauseClick urljoin decam ax stored =
     bindS (lift (stored_context urljoin stored)) (\<lambda>ctx.
     bindS (\<lambda>(w, p). (Inr p, (w, p))) (\<lambda>p.
     if job_status p = Str ''running'' then request_status decam ax ctx ''pausing''
     else if job_status p = Str ''paused'' then request_status decam ax ctx ''resuming''
     else if job_status p = Str ''scheduled'' then request_status decam ax ctx ''running''
     else ret ()))"

definition stopClick ::
  "(string list \<Rightarrow> string) \<Rightarrow> (jsv obj \<Rightarrow> jsv obj) \<Rightarrow> 'w axios \<Rightarrow> string option \<Rightarrow> ('w \<times> 'u job_page, unit) io" where
  "stopClick urljoin decam ax stored =
     bindS (lift (stored_context urljoin stored)) (\<lambda>ctx.
     bindS (\<lambda>(w, p). (Inr p, (w, p))) (\<lambda>p.
     if array_includes [''scheduled'', ''running'', ''paused'', ''pausing''] (job_status p)
     then request_status decam ax ctx ''terminating'' else ret ()))"

text \<open>\<^verbatim>\<open>loadData\<close> sends two requests, whose answers are independent.\<close>

definition load_tasks ::
  "(string list \<Rightarrow> string) \<Rightarrow> (jsv obj \<Rightarrow> jsv obj) \<Rightarrow> 'u texts \<Rightarrow> 'w axios \<Rightarrow> string option \<Rightarrow> ('w \<times> 'u job_page, unit) pio" where
  "load_tasks urljoin decam tx ax stored = with_context urljoin stored (\<lambda>ctx (w, p).
     fetch (getTasks decam tx ax ctx (Some [(''job'', Str (jp_jobId p)), (''orderBy'', Str ''quality''), (''order'', Str ''desc'')]))
       (\<lambda>data p. p\<lparr>jp_items := data\<rparr>) (w, p))"

text \<open>The models that the job has now and had not before, if the number of its models has changed. Both are
  arrays where the server keeps to its types; anything else but a missing list is outside the model.\<close>

definition new_models :: "jsv \<Rightarrow> jsv \<Rightarrow> jsval list res" where
  "new_models old new =
     (if \<not> js_truthy old then Inr []
      else case (old, new) of
             (Json (JArr xs), Json (JArr ys)) \<Rightarrow> Inr (if length xs \<noteq> length ys then filter (\<lambda>y. y \<notin> set xs) ys else [])
           | (_, Undefined) \<Rightarrow> Inl TypeError
           | (_, Json JNull) \<Rightarrow> Inl TypeError
           | _ \<Rightarrow> Inl Unmodelled)"

definition show_job :: "'u item \<Rightarrow> ('u job_page, unit) io" where
  "show_job data =
     bindS (modify (\<lambda>p. p\<lparr>jp_job := data\<rparr>)) (\<lambda>_.
     bindS (\<lambda>p. (new_models (jp_jobModels p) (item_field ''models'' data), p)) (\<lambda>ms.
     modify (\<lambda>p. p\<lparr>jp_notices := jp_notices p @ ms, jp_jobModels := item_field ''models'' data\<rparr>)))"

definition load_job ::
  "(string list \<Rightarrow> string) \<Rightarrow> 'u texts \<Rightarrow> 'w axios \<Rightarrow> string option \<Rightarrow> ('w \<times> 'u job_page, unit) io" where
  "load_job urljoin tx ax stored =
     bindS (lift (stored_context urljoin stored)) (\<lambda>ctx.
     bindS (\<lambda>(w, p). (Inr p, (w, p))) (\<lambda>p.
     catchS (bindS (on_world (getJobById tx ax ctx (jp_jobId p))) (\<lambda>data. on_state (show_job data))) (\<lambda>e. ret ())))"

definition downloadPredictions ::
  "(string list \<Rightarrow> string) \<Rightarrow> (dom_call \<Rightarrow> ('w, unit) io) \<Rightarrow> 'w axios \<Rightarrow> string option \<Rightarrow> string \<Rightarrow> ('w, blob option) io" where
  "downloadPredictions urljoin doc ax stored taskId =
     bindS (lift (stored_context urljoin stored)) (\<lambda>ctx. downloadTaskPredictionsByPath doc ax ctx taskId ''.tar'' True)"

definition downloadTrainedModel ::
  "(string list \<Rightarrow> string) \<Rightarrow> (dom_call \<Rightarrow> ('w, unit) io) \<Rightarrow> 'w axios \<Rightarrow> string option \<Rightarrow> string \<Rightarrow> ('w, blob option) io" where
  "downloadTrainedModel urljoin doc ax stored taskId =
     bindS (lift (stored_context urljoin stored)) (\<lambda>ctx. downloadTrainedModelAsImage doc ax ctx taskId True)"

definition downloadData ::
  "(string list \<Rightarrow> string) \<Rightarrow> (dom_call \<Rightarrow> ('w, unit) io) \<Rightarrow> 'w axios \<Rightarrow> string option \<Rightarrow> string \<Rightarrow> ('w, blob option) io" where
  "downloadData urljoin doc ax stored datasetId =
     bindS (lift (stored_context urljoin stored)) (\<lambda>ctx. downloadDatasetByPath doc ax ctx datasetId ''.tar'' True)"

end
