(* ===== verification/Web_Pages.thy ===== *)
theory Web_Pages
  imports Web_Jobs Web_Session
begin

text \<open>
  What surrounds the operations of the web interface: how its dialogs are opened and closed and what they show,
  how a page starts and stops to repeat its request, the events of the drop zone, and the bar at the top. What a
  page asks of \<^verbatim>\<open>vue-js-modal\<close>, \<^verbatim>\<open>vue-sweetalert2\<close>, the router and the timers of the browser is a list of calls.
\<close>

datatype page_call =
    ShowModal string "(string \<times> bool) list"
  | HideModal string
  | Alert string "string option" string nat
  | PushRoute string "(string \<times> string) list"
  | SetInterval nat
  | ClearInterval

subsection \<open>Dialogs\<close>

text \<open>The layout opens the dialogs (\<^verbatim>\<open>layout/Sidebar.vue\<close>).\<close>

definition newDataset :: "page_call list" where
  "newDataset = [ShowModal ''new-dataset'' [(''clickToClose'', False)]]"

definition newJob :: "page_call list" where
  "newJob = [ShowModal ''new-job'' []]"

definition dataset_close :: "page_call list" where
  "dataset_close = [HideModal ''new-dataset'']"

definition dataset_sucess :: "page_call list" where
  "dataset_sucess = [HideModal ''new-dataset'', Alert ''Dataset Created'' None ''success'' 3000]"

definition job_close :: "page_call list" where
  "job_close = [HideModal ''new-job'']"

definition job_sucess :: "string \<Rightarrow> page_call list" where
  "job_sucess i =
     [HideModal ''new-job'', Alert ''Job Created'' (Some (''Job ID: '' @ i)) ''success'' 3000, PushRoute ''job'' [(''id'', i)]]"

definition wizContainerClasses :: "dataset_form \<Rightarrow> string list" where
  "wizContainerClasses st = (if df_step st < 4 then [''wiz-container''] else [''wiz-container wiz-container-short''])"

definition linesToParagraphs :: "string \<Rightarrow> string" where
  "linesToParagraphs input = join [CHR 0x0A] (map (\<lambda>text. ''<p>'' @ text @ ''</p>'') (split_on CHR 0x0A input))"

definition job_prevVisible :: "'u job_form \<Rightarrow> bool" where
  "job_prevVisible st = (jf_step st > 1)"

definition job_nextVisible :: "'u job_form \<Rightarrow> bool" where
  "job_nextVisible st = (jf_step st < 4)"

text \<open>Descriptions are converted by \<^verbatim>\<open>showdown\<close>, an argument; the object of the selected data set is never false.\<close>

definition selectedDatasetDescriptionHtml :: "(jsv \<Rightarrow> string) \<Rightarrow> 'u job_form \<Rightarrow> string" where
  "selectedDatasetDescriptionHtml makeHtml st = makeHtml (item_field ''description'' (jf_selectedDataset st))"

definition selectedObjectiveDescriptionHtml :: "(jsv \<Rightarrow> string) \<Rightarrow> 'u job_form \<Rightarrow> string" where
  "selectedObjectiveDescriptionHtml makeHtml st =
     (case jf_selectedObjective st of Some it \<Rightarrow> makeHtml (item_field ''description'' it) | None \<Rightarrow> [])"

definition selectedModelDescriptionHtml :: "(jsv \<Rightarrow> string) \<Rightarrow> 'u job_form \<Rightarrow> string" where
  "selectedModelDescriptionHtml makeHtml st =
     (case jf_selectedModels st of [it] \<Rightarrow> makeHtml (item_field ''description'' it) | _ \<Rightarrow> [])"

text \<open>What the user can choose in the dialog for a new job: one of the options of each list.\<close>

definition choose_dataset :: "nat \<Rightarrow> 'u job_form \<Rightarrow> 'u job_form" where
  "choose_dataset k st = (if k < length (jf_datasets st) then st\<lparr>jf_selectedDataset := jf_datasets st ! k\<rparr> else st)"

definition choose_objective :: "nat \<Rightarrow> 'u job_form \<Rightarrow> 'u job_form" where
  "choose_objective k st = (if k < length (jf_objectives st) then st\<lparr>jf_selectedObjective := Some (jf_objectives st ! k)\<rparr> else st)"

definition choose_models :: "bool list \<Rightarrow> 'u job_form \<Rightarrow> 'u job_form" where
  "choose_models marks st = st\<lparr>jf_selectedModels := map fst (filter snd (zip (jf_models st) marks))\<rparr>"

text \<open>The field for the number of tasks can be changed unless the number is unlimited; what is typed is a text.\<close>

definition type_maxTasks :: "string \<Rightarrow> 'u job_form \<Rightarrow> 'u job_form" where
  "type_maxTasks s st = (if jf_maxTasksUnlimited st then st else st\<lparr>jf_maxTasks := Str s\<rparr>)"

definition check_unlimited :: "bool \<Rightarrow> 'u job_form \<Rightarrow> 'u job_form" where
  "check_unlimited b st = st\<lparr>jf_maxTasksUnlimited := b\<rparr>"

definition choose_acceptNewModels :: "bool \<Rightarrow> 'u job_form \<Rightarrow> 'u job_form" where
  "choose_acceptNewModels b st = st\<lparr>jf_acceptNewModels := b\<rparr>"

subsection \<open>Pages that repeat a request\<close>

text \<open>A page loads its data when it is mounted, and again after each period; the timer is given up when it is
  left. The page of a job takes the identifier from its route.\<close>

definition page_mounted :: "nat \<Rightarrow> ('w \<times> 's, unit) pio \<Rightarrow> 'w \<times> 's \<Rightarrow> page_call list \<times> (unit res \<times> 'w \<times> 's) option" where
  "page_mounted period loadData = (\<lambda>ws. ([SetInterval period], loadData ws))"

definition jobs_mounted :: "('w \<times> 's, unit) pio \<Rightarrow> 'w \<times> 's \<Rightarrow> page_call list \<times> (unit res \<times> 'w \<times> 's) option" where
  "jobs_mounted = page_mounted 5000"

definition datasets_mounted :: "('w \<times> 's, unit) pio \<Rightarrow> 'w \<times> 's \<Rightarrow> page_call list \<times> (unit res \<times> 'w \<times> 's) option" where
  "datasets_mounted = page_mounted 5000"

definition models_mounted :: "('w \<times> 's, unit) pio \<Rightarrow> 'w \<times> 's \<Rightarrow> page_call list \<times> (unit res \<times> 'w \<times> 's) option" where
  "models_mounted = page_mounted 10000"

definition job_mounted ::
  "string \<Rightarrow> ('w \<times> 'u job_page, unit) pio \<Rightarrow> 'w \<times> 'u job_page \<Rightarrow> page_call list \<times> (unit res \<times> 'w \<times> 'u job_page) option" where
  "job_mounted i loadData = (\<lambda>(w, p). page_mounted 5000 loadData (w, p\<lparr>jp_jobId := i\<rparr>))"

definition beforeDestroy :: "page_call list" where
  "beforeDestroy = [ClearInterval]"

subsection \<open>The drop zone\<close>

text \<open>The names that a division and the window have.\<close>

definition determineDragAndDropCapable :: "string list \<Rightarrow> string list \<Rightarrow> bool" where
  "determineDragAndDropCapable div_names window_names =
     ((''draggable'' \<in> set div_names \<or> ''ondragstart'' \<in> set div_names \<and> ''ondrop'' \<in> set div_names) \<and>
      ''FormData'' \<in> set window_names \<and> ''FileReader'' \<in> set window_names)"

definition drag_events :: "string list" where
  "drag_events = [''drag'', ''dragstart'', ''dragend'', ''dragover'', ''dragenter'', ''dragleave'', ''drop'']"

text \<open>An event of the mouse on the zone, after it has been mounted: whether the default action is prevented, and what
  happens. Files that are dropped are treated like those of the input field.\<close>

definition dropzone_event ::
  "string list \<Rightarrow> bool \<Rightarrow> string \<Rightarrow> browser_file list \<Rightarrow> bool \<times> (dropzone, browser_file option) io" where
  "dropzone_event types capable event files =
     (if capable \<and> event \<in> set drag_events
      then (True, if event = ''drop'' then acceptFileInput types files else ret None)
      else (False, ret None))"

definition fileInputFieldChange :: "string list \<Rightarrow> browser_file list option \<Rightarrow> (dropzone, browser_file option) io" where
  "fileInputFieldChange types files = (case files of Some fs \<Rightarrow> acceptFileInput types fs | None \<Rightarrow> ret None)"

subsection \<open>The bar at the top\<close>

text \<open>The first character of the names of routes is a letter or some other character of ASCII.\<close>

definition capitalizeFirstLetter :: "string \<Rightarrow> string res" where
  "capitalizeFirstLetter s =
     (case s of
        [] \<Rightarrow> Inr []
      | c # cs \<Rightarrow>
          if 128 \<le> (of_char c :: nat) then Inl Unmodelled
          else Inr ((if is_lower c then char_of ((of_char c :: nat) - 32) else c) # cs))"

definition breadcrumbs :: "route list \<Rightarrow> (string \<times> string) list res" where
  "breadcrumbs matched = mapE (\<lambda>r. bindE (capitalizeFirstLetter (rt_name r)) (\<lambda>cname. Inr (cname, rt_name r))) matched"

definition currentName :: "route \<Rightarrow> string res" where
  "currentName r = capitalizeFirstLetter (rt_name r)"

text \<open>The name that is shown for the user of the store.\<close>

definition navbar_user :: "string obj \<Rightarrow> jsv res" where
  "navbar_user store =
     bindE (case map_of store ''user'' of None \<Rightarrow> Inr JNull | Some t \<Rightarrow> JSON_parse t) (\<lambda>user.
     bindE (property (Json user) ''name'') (\<lambda>name.
     bindE (property (Json user) ''id'') (\<lambda>i. Inr (if js_truthy name then name else i))))"

subsection \<open>Facts\<close>

lemma breadcrumbs_of_routes:
  "mapE (\<lambda>r. currentName r) route_records = Inr [''Home'', ''Datasets'', ''Jobs'', ''Job'', ''Models'', ''Login'']"
  by code_simp

text \<open>Nobody is shown before a login: the page raises a TypeError.\<close>

lemma navbar_without_user: "map_of store ''user'' = None \<Longrightarrow> navbar_user store = Inl TypeError"
  by (simp add: navbar_user_def)

lemma dropped_files:
  "dropzone_event types True ''drop'' files = (True, acceptFileInput types files)"
  by (simp add: dropzone_event_def drag_events_def)

text \<open>The choices keep to the lists.\<close>

lemma chosen:
  "set (jf_selectedModels (choose_models marks st)) \<subseteq> set (jf_models st)"
  "k < length (jf_datasets st) \<Longrightarrow> jf_selectedDataset (choose_dataset k st) \<in> set (jf_datasets st)"
  by (auto simp: choose_models_def choose_dataset_def dest: set_zip_leftD)

end
