(* ===== verification/Jobs_Correct.thy ===== *)
theory Jobs_Correct
  imports Web_Pages Client_Correct
begin

text \<open>
  Jobs in the web interface: the steps of the dialog, the job that it sends, and what the two buttons of the
  page of a job do.
\<close>

subsection \<open>The dialog\<close>

lemma fetch_step:
  "fetch m f (w, st) = Some (r, (v, st')) \<Longrightarrow> (\<And>x. jf_step (f x st) = jf_step st) \<Longrightarrow> jf_step st' = jf_step st"
  by (auto simp: fetch_def split: option.splits prod.splits sum.splits)

lemma initStep_step: "initStep urljoin decam ax stored (w, st) = Some (r, (v, st')) \<Longrightarrow> jf_step st' = jf_step st"
  unfolding initStep_def with_context_def
  by (auto split: sum.splits if_splits) (drule fetch_step, simp, simp)+

lemma dialog_steps:
  "job_beforeOpen urljoin decam ax stored (w, st) = Some (r, (v, st')) \<Longrightarrow> jf_step st' = 1"
  "job_prev urljoin decam ax stored (w, st) = Some (r, (v, st')) \<Longrightarrow> jf_step st \<in> {1..4} \<Longrightarrow> jf_step st' \<in> {1..4}"
  "job_next urljoin decam ax stored (w, st) = Some (r, (v, st')) \<Longrightarrow> jf_step st \<in> {1..4} \<Longrightarrow> jf_step st' \<in> {1..4}"
  by (auto simp: job_beforeOpen_def job_prev_def job_next_def split: if_splits dest!: initStep_step)

text \<open>An unlimited number of tasks is sent as zero, whatever was typed; the other fields are those that were
  selected.\<close>

lemma finished_job:
  assumes "stored_context urljoin stored = Inr ctx" and "model_ids (jf_selectedModels st) = Inr ids"
    and "\<And>v. decam [(''dataset'', item_field ''id'' (jf_selectedDataset st)), (''objective'', objective_id st), (''models'', Json (JArr ids)),
            (''acceptNewModels'', Json (JBool (jf_acceptNewModels st))), (''maxTasks'', v)] =
          [(''dataset'', item_field ''id'' (jf_selectedDataset st)), (''objective'', objective_id st), (''models'', Json (JArr ids)),
            (''accept-new-models'', Json (JBool (jf_acceptNewModels st))), (''max-tasks'', v)]"
    and "jf_maxTasksUnlimited st"
  shows "job_finish urljoin decam ax sucess stored st =
    catchS (bindS (send_new ax ctx ''/jobs''
        [(''dataset'', item_field ''id'' (jf_selectedDataset st)), (''objective'', objective_id st), (''alt-objectives'', Json (JArr [])),
         (''models'', Json (JArr ids)), (''accept-new-models'', Json (JBool (jf_acceptNewModels st))), (''max-tasks'', Json (JInt 0)),
         (''config-space'', Str [])]) sucess) (\<lambda>e. ret ())"
  unfolding job_finish_def assms(1,2) bindS_lift if_P [OF assms(4)] createJob_def assms(3) Let_def
  by (simp add: field_of_def or_else_def stringify_field_def keys_def)

subsection \<open>The buttons of the page\<close>

lemma requested_status:
  "snd (snd (request_status decam ax ctx s (w, p))) = p\<lparr>jp_job := obj_put ''status'' (Val (Str s)) (jp_job p)\<rparr>"
  "job_status (p\<lparr>jp_job := obj_put ''status'' (Val (Str s)) (jp_job p)\<rparr>) = Str s"
  by (simp_all add: request_status_def job_status_def item_field_def)

text \<open>The first button is enabled exactly in two of the three states that its handler acts on.\<close>

lemma pause_click:
  assumes "stored_context urljoin stored = Inr ctx" and "\<not> pauseDisabled p"
  shows "\<exists>v. pauseClick urljoin decam ax stored (w, p) =
    (Inr (), (v, p\<lparr>jp_job := obj_put ''status'' (Val (Str (if job_status p = Str ''running'' then ''pausing'' else ''resuming''))) (jp_job p)\<rparr>))"
  using assms by (auto simp: pauseClick_def pauseDisabled_def bindS_def lift_def request_status_def)

lemma start_disabled:
  "job_status p = Str ''scheduled'' \<Longrightarrow> pauseShow p \<and> pauseLabel p = ''Start'' \<and> pauseDisabled p"
  by (simp add: pauseShow_def pauseLabel_def pauseDisabled_def array_includes_def)

text \<open>While a job resumes, the button that stops it is shown and does nothing.\<close>

lemma stop_ignored:
  assumes "stored_context urljoin stored = Inr ctx" and "job_status p = Str ''resuming''"
  shows "stopShow p \<and> stopClick urljoin decam ax stored (w, p) = (Inr (), (w, p))"
  using assms by (simp add: stopShow_def stopClick_def array_includes_def bindS_def lift_def)

lemma new_models_new:
  "new_models (Json (JArr xs)) (Json (JArr ys)) = Inr ms \<Longrightarrow> set ms \<subseteq> set ys - set xs"
  by (auto simp: new_models_def split: if_splits)

subsection \<open>Choices that stay\<close>

text \<open>The steps of the dialog and the choices of the user; what the server answers is left open.\<close>

inductive job_dialog :: "'w axios \<Rightarrow> 'u job_form \<Rightarrow> 'u job_form \<Rightarrow> bool" for ax :: "'w axios" where
  opened: "job_beforeOpen urljoin decam ax stored (w, st) = Some (r, (v, st')) \<Longrightarrow> job_dialog ax st st'"
| backward: "job_prevVisible st \<Longrightarrow> job_prev urljoin decam ax stored (w, st) = Some (r, (v, st')) \<Longrightarrow> job_dialog ax st st'"
| forward: "job_nextVisible st \<Longrightarrow> job_next urljoin decam ax stored (w, st) = Some (r, (v, st')) \<Longrightarrow> job_dialog ax st st'"
| dataset: "job_dialog ax st (choose_dataset k st)"
| objective: "job_dialog ax st (choose_objective k st)"
| models: "job_dialog ax st (choose_models marks st)"
| tasks: "job_dialog ax st (type_maxTasks s st)"
| unlimited: "job_dialog ax st (check_unlimited b st)"
| accept: "job_dialog ax st (choose_acceptNewModels b st)"

definition job_form_ok :: "'u job_form \<Rightarrow> bool" where
  "job_form_ok st =
     (jf_step st \<in> {1..4} \<and> set (jf_selectedModels st) \<subseteq> set (jf_models st))"

lemma fetch_keeps:
  assumes "fetch m f (w, st) = Some (r, (v, st'))" and "I st" and "\<And>x. I (f x st)"
  shows "I st'"
  using assms by (auto simp: fetch_def split: option.splits prod.splits sum.splits)

lemma initStep_ok:
  assumes "initStep urljoin decam ax stored (w, st) = Some (r, (v, st'))" and "job_form_ok st"
  shows "job_form_ok st'"
proof -
  have "job_form_ok (st\<lparr>jf_datasets := data, jf_selectedDataset := select_first data (jf_selectedDataset st)\<rparr>)" for data
    using assms(2) by (cases data) (auto simp: job_form_ok_def select_first_def)
  moreover have "job_form_ok (st\<lparr>jf_objectives := data, jf_selectedObjective := x\<rparr>)" for data x
    using assms(2) by (simp add: job_form_ok_def)
  moreover have "job_form_ok (st\<lparr>jf_models := data, jf_selectedModels := data\<rparr>)" for data
    using assms(2) by (simp add: job_form_ok_def)
  ultimately show ?thesis using assms unfolding initStep_def with_context_def
    by (auto split: sum.splits if_splits elim!: fetch_keeps [where I = job_form_ok])
qed

lemma job_form_ok_step:
  "job_form_ok st \<Longrightarrow> job_form_ok (st\<lparr>jf_step := 1\<rparr>)"
  "job_form_ok st \<Longrightarrow> jf_step st > 1 \<Longrightarrow> job_form_ok (st\<lparr>jf_step := jf_step st - 1\<rparr>)"
  "job_form_ok st \<Longrightarrow> jf_step st < 4 \<Longrightarrow> job_form_ok (st\<lparr>jf_step := jf_step st + 1\<rparr>)"
  by (auto simp: job_form_ok_def)

text \<open>Whatever the user does, the dialog is in one of its four steps, and only models of the list are selected.\<close>

lemma job_dialog_ok: "job_dialog ax st st' \<Longrightarrow> job_form_ok st \<Longrightarrow> job_form_ok st'"
proof (induction rule: job_dialog.induct)
  case (opened urljoin decam stored w st r v st')
  then show ?case using job_form_ok_step(1) by (auto simp: job_beforeOpen_def intro: initStep_ok)
next
  case (backward st urljoin decam stored w r v st')
  then show ?case using job_form_ok_step(2)
    by (auto simp: job_prev_def intro: initStep_ok split: if_splits)
next
  case (forward st urljoin decam stored w r v st')
  then show ?case using job_form_ok_step(3)
    by (auto simp: job_next_def intro: initStep_ok split: if_splits)
qed (auto simp: job_form_ok_def choose_dataset_def choose_objective_def choose_models_def type_maxTasks_def check_unlimited_def
      choose_acceptNewModels_def dest: set_zip_leftD)

text \<open>If the server has no objective for the data set, the objective that was selected for another data set stays,
  and it is what the dialog sends.\<close>

lemma objective_kept:
  fixes st :: "'u job_form"
  assumes "stored_context urljoin stored = Inr ctx" and "jf_step st = 1"
    and "getModules decam ax ctx (Some [(''type'', Str ''objective''), (''status'', Str ''active''),
           (''schemaIn'', item_field ''schemaOut'' (jf_selectedDataset st))]) w = Some (Inr ([] :: 'u item list), v)"
  shows "job_next urljoin decam ax stored (w, st) = Some (Inr (), (v, st\<lparr>jf_step := 2, jf_objectives := []\<rparr>))"
    and "objective_id (st\<lparr>jf_step := 2, jf_objectives := []\<rparr>) = objective_id st"
  using assms by (simp_all add: job_next_def initStep_def with_context_def fetch_def objective_id_def)

end
