(* ===== verification/Job_Engine.thy ===== *)
theory Job_Engine
  imports Web_Jobs
begin

text \<open>
  The other side of the page of a job: the part of the engine (\<^verbatim>\<open>src/engine\<close>, in Go) that keeps the status of
  a job. \<^verbatim>\<open>database/model/types/job.go\<close> names the statuses, \<open>UpdateJob\<close> of \<^verbatim>\<open>database/model/job.go\<close> checks the
  transitions between them, \<^verbatim>\<open>api/handlers/jobs.go\<close> answers the requests of the page, and the workers of
  \<^verbatim>\<open>workers/job_status_maintainer.go\<close> take a job that is pausing, resuming or terminating to the next status.
  One job is followed. Times are nanoseconds since 1970.
\<close>

subsection \<open>Jobs\<close>

abbreviation JobScheduled :: string where "JobScheduled \<equiv> ''scheduled''"
abbreviation JobRunning :: string where "JobRunning \<equiv> ''running''"
abbreviation JobPausing :: string where "JobPausing \<equiv> ''pausing''"
abbreviation JobPaused :: string where "JobPaused \<equiv> ''paused''"
abbreviation JobResuming :: string where "JobResuming \<equiv> ''resuming''"
abbreviation JobCompleted :: string where "JobCompleted \<equiv> ''completed''"
abbreviation JobTerminating :: string where "JobTerminating \<equiv> ''terminating''"
abbreviation JobTerminated :: string where "JobTerminated \<equiv> ''terminated''"
abbreviation JobError :: string where "JobError \<equiv> ''error''"

text \<open>The fields that the transitions read and write; the zero value of a time is the first day of year 1.\<close>

record job =
  jb_user :: string
  jb_acceptNewModels :: bool
  jb_status :: string
  jb_start :: int
  jb_end :: int
  jb_pauseStart :: int
  jb_prevPause :: "64 word"
  jb_process :: "string option"

definition zero_time :: int where
  "zero_time = - 62135596800 * 1000000000"

text \<open>A new job is put to the running state at once.\<close>

definition new_job :: "int \<Rightarrow> string \<Rightarrow> bool \<Rightarrow> job" where
  "new_job now user accept =
     \<lparr>jb_user = user, jb_acceptNewModels = accept, jb_status = JobRunning, jb_start = now, jb_end = zero_time,
      jb_pauseStart = zero_time, jb_prevPause = 0, jb_process = None\<rparr>"

text \<open>\<^verbatim>\<open>time.Since\<close> is a duration of 64 bits and saturates; a division of integers truncates, and the conversion
  to \<^verbatim>\<open>uint64\<close> wraps around.\<close>

definition time_since :: "int \<Rightarrow> int \<Rightarrow> int" where
  "time_since now t = max (- (2 ^ 63)) (min (2 ^ 63 - 1) (now - t))"

definition milliseconds :: "int \<Rightarrow> 64 word" where
  "milliseconds d = of_int (if d < 0 then - (- d div 1000000) else d div 1000000)"

definition GetPauseDuration :: "int \<Rightarrow> job \<Rightarrow> 64 word" where
  "GetPauseDuration now j =
     (if jb_status j = JobPaused then jb_prevPause j + milliseconds (time_since now (jb_pauseStart j)) else jb_prevPause j)"

subsection \<open>Updates of a job\<close>

datatype engine_error = ErrBadInput | ErrNotFound | ErrUnauthorized | DatabaseError

datatype job_update =
    SetAcceptNewModels bool
  | SetStatus string
  | SetStart int
  | SetEnd int
  | SetPauseStart int
  | SetPrevPause "64 word"

fun apply_update :: "job_update \<Rightarrow> job \<Rightarrow> job" where
  "apply_update (SetAcceptNewModels b) j = j\<lparr>jb_acceptNewModels := b\<rparr>"
| "apply_update (SetStatus s) j = j\<lparr>jb_status := s\<rparr>"
| "apply_update (SetStart t) j = j\<lparr>jb_start := t\<rparr>"
| "apply_update (SetEnd t) j = j\<lparr>jb_end := t\<rparr>"
| "apply_update (SetPauseStart t) j = j\<lparr>jb_pauseStart := t\<rparr>"
| "apply_update (SetPrevPause d) j = j\<lparr>jb_prevPause := d\<rparr>"

text \<open>The case of the key \<^verbatim>\<open>status\<close>: the transition is validated, and the fields to be set are collected.\<close>

definition status_updates :: "int \<Rightarrow> job \<Rightarrow> string \<Rightarrow> engine_error + job_update list" where
  "status_updates now j s =
     (let current = jb_status j; set_with = (\<lambda>us. Inr (us @ [SetStatus s]))
      in if s = current then Inr []
         else if s = JobScheduled then
           (if current \<noteq> JobScheduled then Inl ErrBadInput else set_with [])
         else if s = JobRunning then
           (if current \<noteq> JobScheduled \<and> current \<noteq> JobResuming then Inl ErrBadInput
            else set_with
              ((if current = JobScheduled then [SetStart now] else []) @
               (if current = JobPaused
                then [SetPrevPause (jb_prevPause j + milliseconds (time_since now (jb_pauseStart j)))] else [])))
         else if s = JobPausing then
           (if current \<noteq> JobRunning then Inl ErrBadInput else set_with [])
         else if s = JobPaused then
           (if current \<noteq> JobPausing then Inl ErrBadInput else set_with [SetPauseStart now])
         else if s = JobResuming then
           (if current \<noteq> JobPausing \<and> current \<noteq> JobPaused then Inl ErrBadInput else set_with [])
         else if s = JobCompleted then
           (if current \<noteq> JobRunning then Inl ErrBadInput else set_with [SetEnd now])
         else if s = JobTerminating then
           (if current \<noteq> JobRunning \<and> current \<noteq> JobPausing \<and> current \<noteq> JobPaused then Inl ErrBadInput else set_with [])
         else if s = JobTerminated then
           (if current \<noteq> JobTerminating then Inl ErrBadInput else set_with [SetEnd now])
         else if s = JobError then set_with [SetEnd now]
         else Inl ErrBadInput)"

text \<open>The user of a context: the root, or a user with an identifier.\<close>

datatype caller = Root | Named string

definition owns :: "caller \<Rightarrow> job \<Rightarrow> bool" where
  "owns c j = (case c of Root \<Rightarrow> True | Named u \<Rightarrow> jb_user j = u)"

text \<open>\<^verbatim>\<open>GetJobByID\<close>: jobs of the root are seen by everybody.\<close>

definition sees :: "caller \<Rightarrow> job \<Rightarrow> bool" where
  "sees c j = (case c of Root \<Rightarrow> True | Named u \<Rightarrow> jb_user j \<in> {u, ''root''})"

text \<open>The engine: the time, and the identifier of the job that is followed.\<close>

record engine =
  en_now :: int
  en_id :: string
  en_job :: job

definition GetJobByID :: "caller \<Rightarrow> string \<Rightarrow> engine \<Rightarrow> engine_error + job" where
  "GetJobByID c i e = (if i = en_id e \<and> sees c (en_job e) then Inr (en_job e) else Inl ErrNotFound)"

text \<open>The keys \<^verbatim>\<open>accept-new-models\<close> and \<^verbatim>\<open>status\<close> of an update; the time is read once. Reading the job and
  writing it are one step here.\<close>

record job_updates =
  up_acceptNewModels :: "bool option"
  up_status :: "string option"

definition UpdateJob :: "caller \<Rightarrow> string \<Rightarrow> job_updates \<Rightarrow> engine \<Rightarrow> engine_error option \<times> engine" where
  "UpdateJob c i us e =
     (case GetJobByID c i e of
        Inl err \<Rightarrow> (Some err, e)
      | Inr j \<Rightarrow>
          if \<not> owns c j then (Some ErrUnauthorized, e)
          else
            (case (case up_status us of None \<Rightarrow> Inr [] | Some s \<Rightarrow> status_updates (en_now e) j s) of
               Inl err \<Rightarrow> (Some err, e)
             | Inr vs \<Rightarrow>
                 (None, e\<lparr>en_job := fold apply_update
                    ((case up_acceptNewModels us of None \<Rightarrow> [] | Some b \<Rightarrow> [SetAcceptNewModels b]) @ vs) j\<rparr>)))"

definition update_status :: "caller \<Rightarrow> string \<Rightarrow> engine \<Rightarrow> engine_error option \<times> engine" where
  "update_status c s e = UpdateJob c (en_id e) \<lparr>up_acceptNewModels = None, up_status = Some s\<rparr> e"

subsection \<open>The handlers of requests\<close>

text \<open>A field of the body that is read into a variable of a type. A field that is \<^verbatim>\<open>null\<close> is a pointer without
  a target, and reading it ends the request without a response.\<close>

datatype 'a body_field = Absent | NullPointer | Malformed | Field 'a

definition body_field :: "(jsval \<Rightarrow> 'a option) \<Rightarrow> string \<Rightarrow> jsv obj \<Rightarrow> 'a body_field" where
  "body_field f k body =
     (case map_of body k of
        Some (Json JNull) \<Rightarrow> NullPointer
      | Some NaN \<Rightarrow> NullPointer
      | Some (Json v) \<Rightarrow> (case f v of Some x \<Rightarrow> Field x | None \<Rightarrow> Malformed)
      | _ \<Rightarrow> Absent)"

definition json_bool :: "jsval \<Rightarrow> bool option" where
  "json_bool v = (case v of JBool b \<Rightarrow> Some b | _ \<Rightarrow> None)"

definition json_string :: "jsval \<Rightarrow> string option" where
  "json_string v = (case v of JStr s \<Rightarrow> Some s | _ \<Rightarrow> None)"

definition field_option :: "'a body_field \<Rightarrow> 'a option" where
  "field_option f = (case f of Field x \<Rightarrow> Some x | _ \<Rightarrow> None)"

text \<open>The status code of the response, if there is one. The client never sends the field \<^verbatim>\<open>models\<close>, which is left
  out here; other fields are ignored.\<close>

definition JobsByIDPatch :: "caller \<Rightarrow> string \<Rightarrow> jsv obj \<Rightarrow> engine \<Rightarrow> nat option \<times> engine" where
  "JobsByIDPatch c i body e =
     (let accept = body_field json_bool ''accept-new-models'' body; status = body_field json_string ''status'' body
      in if i = [] then (Some 400, e)
         else if accept = NullPointer then (None, e)
         else if accept = Malformed then (Some 400, e)
         else if status = NullPointer then (None, e)
         else if status = Malformed then (Some 400, e)
         else
           (case UpdateJob c i \<lparr>up_acceptNewModels = field_option accept, up_status = field_option status\<rparr> e of
              (None, e') \<Rightarrow> (Some 200, e')
            | (Some ErrNotFound, e') \<Rightarrow> (Some 404, e')
            | (Some ErrBadInput, e') \<Rightarrow> (Some 400, e')
            | (Some ErrUnauthorized, e') \<Rightarrow> (Some 401, e')
            | (Some DatabaseError, e') \<Rightarrow> (Some 500, e')))"

text \<open>The fields of a job other than its status are given as a function of the job and the time.\<close>

definition JobsByIDGet ::
  "(job \<Rightarrow> int \<Rightarrow> jsval obj) \<Rightarrow> caller \<Rightarrow> string \<Rightarrow> engine \<Rightarrow> nat \<times> jsval" where
  "JobsByIDGet others c i e =
     (if i = [] then (400, JNull)
      else case GetJobByID c i e of
             Inl err \<Rightarrow> (404, JNull)
           | Inr j \<Rightarrow> (200, JObj [(''data'', JObj ((''status'', JStr (jb_status j)) # others j (en_now e)))]))"

text \<open>The requests of the page about its job, sent to the engine: \<^verbatim>\<open>axios\<close> resolves a promise for a status code
  from 200 to 299 and rejects it otherwise. Other requests find nothing.\<close>

definition job_path :: "string \<Rightarrow> string option" where
  "job_path url = (if starts_with url ''/jobs/'' then Some (drop 6 url) else None)"

definition answered :: "nat option \<Rightarrow> jsval \<Rightarrow> response res" where
  "answered code data =
     (case code of
        Some n \<Rightarrow>
          if 200 \<le> n \<and> n < 300 then Inr \<lparr>rs_data = data, rs_headers = []\<rparr>
          else Inl (GenericError (Text ''Request failed''))
      | None \<Rightarrow> Inl (GenericError (Text ''Network Error'')))"

definition engine_axios :: "(job \<Rightarrow> int \<Rightarrow> jsval obj) \<Rightarrow> caller \<Rightarrow> engine axios" where
  "engine_axios others c =
     \<lparr>ax_get = (\<lambda>cfg url q e.
        case job_path url of
          None \<Rightarrow> (answered (Some 404) JNull, e)
        | Some i \<Rightarrow> (case JobsByIDGet others c i e of (code, data) \<Rightarrow> (answered (Some code) data, e))),
      ax_post = (\<lambda>cfg url data e. (answered (Some 404) JNull, e)),
      ax_patch = (\<lambda>cfg url data e.
        case job_path url of
          None \<Rightarrow> (answered (Some 404) JNull, e)
        | Some i \<Rightarrow> (case JobsByIDPatch c i data e of (code, e') \<Rightarrow> (answered code JNull, e')))\<rparr>"

subsection \<open>Repeating an operation\<close>

text \<open>\<^verbatim>\<open>repeatUntilSuccess\<close> calls its operation in the first clause of the loop only. After an error the loop
  waits, doubles the time to wait, and tests the same error again.\<close>

datatype go_outcome = Done | Panicked

partial_function (option) retry_loop :: "engine_error \<Rightarrow> 64 word \<Rightarrow> 'w \<Rightarrow> (go_outcome \<times> 'w) option" where
  "retry_loop err timeout w =
     (if err = ErrNotFound then Some (Panicked, w) else retry_loop err (timeout * 2) w)"

definition repeatUntilSuccess :: "('w \<Rightarrow> engine_error option \<times> 'w) \<Rightarrow> 'w \<Rightarrow> (go_outcome \<times> 'w) option" where
  "repeatUntilSuccess f w =
     (case f w of (None, w') \<Rightarrow> Some (Done, w') | (Some err, w') \<Rightarrow> retry_loop err 1000000000 w')"

subsection \<open>The workers\<close>

datatype worker_kind = PausingWorker | ResumingWorker | TerminatingWorker

text \<open>The next operation of a worker; one that hangs or has panicked does nothing any more.\<close>

datatype worker_state = AtTasks | AtMark | AtUnlock | Finished | Hanging | Crashed

definition watched_status :: "worker_kind \<Rightarrow> string" where
  "watched_status k =
     (case k of PausingWorker \<Rightarrow> JobPausing | ResumingWorker \<Rightarrow> JobResuming | TerminatingWorker \<Rightarrow> JobTerminating)"

definition target_status :: "worker_kind \<Rightarrow> string" where
  "target_status k =
     (case k of PausingWorker \<Rightarrow> JobPaused | ResumingWorker \<Rightarrow> JobRunning | TerminatingWorker \<Rightarrow> JobTerminated)"

text \<open>\<^verbatim>\<open>LockJob\<close> with a filter by status: only a job that no process has locked is found.\<close>

definition LockJob :: "string \<Rightarrow> string \<Rightarrow> engine \<Rightarrow> engine_error option \<times> engine" where
  "LockJob status process e =
     (if jb_process (en_job e) = None \<and> jb_status (en_job e) = status
      then (None, e\<lparr>en_job := (en_job e)\<lparr>jb_process := Some process\<rparr>\<rparr>) else (Some ErrNotFound, e))"

definition UnlockJob :: "string \<Rightarrow> engine \<Rightarrow> engine_error option \<times> engine" where
  "UnlockJob process e =
     (if jb_process (en_job e) = Some process
      then (None, e\<lparr>en_job := (en_job e)\<lparr>jb_process := None\<rparr>\<rparr>) else (Some ErrNotFound, e))"

text \<open>The first operation of a worker changes the tasks of the job, which are not followed; whether the database
  does it is the argument.\<close>

definition worker_operation :: "string \<Rightarrow> bool \<Rightarrow> worker_kind \<Rightarrow> worker_state \<Rightarrow> engine \<Rightarrow> engine_error option \<times> engine" where
  "worker_operation process ok k ws e =
     (case ws of
        AtTasks \<Rightarrow> (if ok then None else Some DatabaseError, e)
      | AtMark \<Rightarrow> update_status Root (target_status k) e
      | AtUnlock \<Rightarrow> UnlockJob process e
      | _ \<Rightarrow> (None, e))"

definition next_operation :: "worker_state \<Rightarrow> worker_state" where
  "next_operation ws = (case ws of AtTasks \<Rightarrow> AtMark | AtMark \<Rightarrow> AtUnlock | AtUnlock \<Rightarrow> Finished | _ \<Rightarrow> ws)"

definition worker_step :: "string \<Rightarrow> bool \<Rightarrow> worker_kind \<Rightarrow> worker_state \<Rightarrow> engine \<Rightarrow> worker_state \<times> engine" where
  "worker_step process ok k ws e =
     (case repeatUntilSuccess (worker_operation process ok k ws) e of
        None \<Rightarrow> (Hanging, e)
      | Some (Done, e') \<Rightarrow> (next_operation ws, e')
      | Some (Panicked, e') \<Rightarrow> (Crashed, e'))"

text \<open>The goroutine of a worker from the beginning to the end; it may hang in each of its three operations.\<close>

definition job_worker :: "string \<Rightarrow> bool \<Rightarrow> worker_kind \<Rightarrow> engine \<Rightarrow> (go_outcome \<times> engine) option" where
  "job_worker process ok k e =
     (case repeatUntilSuccess (worker_operation process ok k AtTasks) e of
        Some (Done, e1) \<Rightarrow>
          (case repeatUntilSuccess (worker_operation process ok k AtMark) e1 of
             Some (Done, e2) \<Rightarrow> repeatUntilSuccess (worker_operation process ok k AtUnlock) e2
           | r \<Rightarrow> r)
      | r \<Rightarrow> r)"

end
