(* ===== verification/Job_System.thy ===== *)
theory Job_System
  imports Job_Engine
begin

text \<open>
  A job with its page and its engine: the user presses the buttons of the page, the page loads the job again,
  the maintainer of the engine locks the job and its workers go on, a task runner completes the job, and time
  passes, in any order.
\<close>

subsection \<open>The steps\<close>

record 'u environment =
  ev_urljoin :: "string list \<Rightarrow> string"
  ev_decam :: "jsv obj \<Rightarrow> jsv obj"
  ev_texts :: "'u texts"
  ev_others :: "job \<Rightarrow> int \<Rightarrow> jsval obj"
  ev_caller :: caller
  ev_stored :: "string option"
  ev_process :: string

record 'u job_system =
  sy_engine :: engine
  sy_page :: "'u job_page"
  sy_kind :: worker_kind
  sy_worker :: worker_state
  sy_hanging :: nat

definition env_axios :: "'u environment \<Rightarrow> engine axios" where
  "env_axios env = engine_axios (ev_others env) (ev_caller env)"

text \<open>An operation of the page on the engine and its own data.\<close>

definition page_does :: "(engine \<times> 'u job_page, unit) io \<Rightarrow> 'u job_system \<Rightarrow> 'u job_system" where
  "page_does m s = (case m (sy_engine s, sy_page s) of (r, (e, p)) \<Rightarrow> s\<lparr>sy_engine := e, sy_page := p\<rparr>)"

definition press_pause :: "'u environment \<Rightarrow> 'u job_system \<Rightarrow> 'u job_system" where
  "press_pause env = page_does (pauseClick (ev_urljoin env) (ev_decam env) (env_axios env) (ev_stored env))"

definition press_stop :: "'u environment \<Rightarrow> 'u job_system \<Rightarrow> 'u job_system" where
  "press_stop env = page_does (stopClick (ev_urljoin env) (ev_decam env) (env_axios env) (ev_stored env))"

definition refresh :: "'u environment \<Rightarrow> 'u job_system \<Rightarrow> 'u job_system" where
  "refresh env = page_does (load_job (ev_urljoin env) (ev_texts env) (env_axios env) (ev_stored env))"

text \<open>A task runner that has counted enough tasks completes the job; it hangs if that is refused.\<close>

definition complete_job :: "'u job_system \<Rightarrow> 'u job_system" where
  "complete_job s =
     (case repeatUntilSuccess (update_status Root JobCompleted) (sy_engine s) of
        None \<Rightarrow> s\<lparr>sy_hanging := sy_hanging s + 1\<rparr>
      | Some (r, e) \<Rightarrow> s\<lparr>sy_engine := e\<rparr>)"

inductive job_step :: "'u environment \<Rightarrow> 'u job_system \<Rightarrow> 'u job_system \<Rightarrow> bool" for env :: "'u environment" where
  pause: "pauseShow (sy_page s) \<Longrightarrow> \<not> pauseDisabled (sy_page s) \<Longrightarrow> job_step env s (press_pause env s)"
| stop: "stopShow (sy_page s) \<Longrightarrow> job_step env s (press_stop env s)"
| load: "job_step env s (refresh env s)"
| lock: "LockJob (watched_status k) (ev_process env) (sy_engine s) = (None, e) \<Longrightarrow>
    job_step env s (s\<lparr>sy_engine := e, sy_kind := k, sy_worker := AtTasks\<rparr>)"
| work: "worker_step (ev_process env) ok (sy_kind s) (sy_worker s) (sy_engine s) = (ws, e) \<Longrightarrow>
    job_step env s (s\<lparr>sy_engine := e, sy_worker := ws\<rparr>)"
| complete: "job_step env s (complete_job s)"
| tick: "en_now (sy_engine s) \<le> t \<Longrightarrow> job_step env s (s\<lparr>sy_engine := (sy_engine s)\<lparr>en_now := t\<rparr>\<rparr>)"

inductive_cases job_stepE: "job_step env s t"

definition job_steps :: "'u environment \<Rightarrow> 'u job_system \<Rightarrow> 'u job_system \<Rightarrow> bool" where
  "job_steps env = (job_step env)\<^sup>*\<^sup>*"

text \<open>A job that has just been created, and its page before anything has been loaded.\<close>

definition opened :: "int \<Rightarrow> string \<Rightarrow> string \<Rightarrow> bool \<Rightarrow> 'u job_system" where
  "opened now user i accept =
     \<lparr>sy_engine = \<lparr>en_now = now, en_id = i, en_job = new_job now user accept\<rparr>,
      sy_page = \<lparr>jp_items = [], jp_jobId = i, jp_job = [], jp_jobModels = Json JNull, jp_notices = []\<rparr>,
      sy_kind = PausingWorker, sy_worker = Finished, sy_hanging = 0\<rparr>"

definition reachable :: "'u environment \<Rightarrow> 'u job_system \<Rightarrow> bool" where
  "reachable env s = (\<exists>now user i accept. i \<noteq> [] \<and> owns (ev_caller env) (new_job now user accept) \<and>
     job_steps env (opened now user i accept) s)"

abbreviation engine_status :: "'u job_system \<Rightarrow> string" where
  "engine_status s \<equiv> jb_status (en_job (sy_engine s))"

abbreviation shown_status :: "'u job_system \<Rightarrow> jsv" where
  "shown_status s \<equiv> job_status (sy_page s)"

text \<open>What is assumed of the browser: the user is logged in, and \<^verbatim>\<open>decamelizeKeys\<close> leaves a name in lower case as it is.\<close>

definition logged_in :: "'u environment \<Rightarrow> bool" where
  "logged_in env =
     ((\<exists>ctx. stored_context (ev_urljoin env) (ev_stored env) = Inr ctx) \<and>
      (\<forall>v. ev_decam env [(''status'', v)] = [(''status'', v)]))"

subsection \<open>Repeating an operation\<close>

lemma retry_loop_returns:
  assumes "retry_loop err timeout w = Some y"
  shows "err = ErrNotFound \<and> y = (Panicked, w)"
  by (rule retry_loop.raw_induct [OF _ assms, where P = "\<lambda>err timeout w y. err = ErrNotFound \<and> y = (Panicked, w)"])
     (auto split: if_splits)

lemma retry_loop_eq: "retry_loop err timeout w = (if err = ErrNotFound then Some (Panicked, w) else None)"
proof (cases "err = ErrNotFound")
  case True
  then show ?thesis by (subst retry_loop.simps) simp
next
  case False
  then show ?thesis using retry_loop_returns [of err timeout w] by (cases "retry_loop err timeout w") auto
qed

lemma repeat_eq:
  "repeatUntilSuccess f w =
     (case f w of (None, w') \<Rightarrow> Some (Done, w') | (Some err, w') \<Rightarrow> if err = ErrNotFound then Some (Panicked, w') else None)"
  by (simp add: repeatUntilSuccess_def retry_loop_eq split: prod.split option.split)

subsection \<open>Transitions\<close>

text \<open>What an update that is accepted sets besides the status. The pause duration is never among it.\<close>

lemma status_updates_shape:
  assumes "status_updates now j s = Inr us"
  shows "us = [] \<and> s = jb_status j \<or>
    us \<in> {[SetStatus s], [SetStart now, SetStatus s], [SetEnd now, SetStatus s], [SetPauseStart now, SetStatus s]}"
  using assms unfolding status_updates_def Let_def
  by (simp split: if_split_asm)

lemma status_after: "status_updates now j s = Inr us \<Longrightarrow> jb_status (fold apply_update us j) = s"
  by (drule status_updates_shape) auto

lemma status_keeps:
  assumes "status_updates now j s = Inr us"
  shows "jb_prevPause (fold apply_update us j) = jb_prevPause j"
    and "jb_process (fold apply_update us j) = jb_process j"
    and "jb_user (fold apply_update us j) = jb_user j"
  using status_updates_shape [OF assms] by auto

text \<open>From which statuses a status can be entered.\<close>

definition sources :: "string \<Rightarrow> string list" where
  "sources s =
     (if s = JobRunning then [JobScheduled, JobResuming]
      else if s = JobPausing then [JobRunning]
      else if s = JobPaused then [JobPausing]
      else if s = JobResuming then [JobPausing, JobPaused]
      else if s = JobCompleted then [JobRunning]
      else if s = JobTerminating then [JobRunning, JobPausing, JobPaused]
      else if s = JobTerminated then [JobTerminating]
      else [])"

lemma status_updates_iff:
  "s \<noteq> JobError \<Longrightarrow> (\<exists>us. status_updates now j s = Inr us) \<longleftrightarrow> s = jb_status j \<or> jb_status j \<in> set (sources s)"
proof (cases "s = jb_status j")
  case False
  assume err: "s \<noteq> JobError"
  let ?known = "[JobScheduled, JobRunning, JobPausing, JobPaused, JobResuming, JobCompleted, JobTerminating, JobTerminated]"
  have known: "(\<exists>us. status_updates now j t = Inr us) \<longleftrightarrow> jb_status j \<in> set (sources t)"
    if "t \<in> set ?known" "t \<noteq> jb_status j" for t
    using that by (simp add: status_updates_def sources_def Let_def) (elim disjE; auto split: if_splits)
  show ?thesis
  proof (cases "s \<in> set ?known")
    case True
    then show ?thesis using known False by simp
  next
    case False
    then show ?thesis using err by (simp add: status_updates_def sources_def Let_def)
  qed
qed (simp add: status_updates_def)

lemma status_refused:
  "status_updates now j s = Inl err \<Longrightarrow> err = ErrBadInput"
  by (auto simp: status_updates_def Let_def split: if_splits)

subsection \<open>Updates by the engine and by the page\<close>

lemma update_status_cases:
  "update_status c s e =
     (if \<not> sees c (en_job e) then (Some ErrNotFound, e)
      else if \<not> owns c (en_job e) then (Some ErrUnauthorized, e)
      else case status_updates (en_now e) (en_job e) s of
             Inl err \<Rightarrow> (Some err, e)
           | Inr us \<Rightarrow> (None, e\<lparr>en_job := fold apply_update us (en_job e)\<rparr>))"
  by (simp add: update_status_def UpdateJob_def GetJobByID_def split: sum.split)

lemma owns_sees: "owns c j \<Longrightarrow> sees c j"
  by (auto simp: owns_def sees_def split: caller.splits)

text \<open>Every update of the status leaves a job in the statuses that follow the creation, and what it does not set
  as it was.\<close>

definition live_statuses :: "string list" where
  "live_statuses =
     [JobRunning, JobPausing, JobPaused, JobResuming, JobCompleted, JobTerminating, JobTerminated, JobError]"

lemma status_live:
  assumes "status_updates now j s = Inr us" and "jb_status j \<in> set live_statuses"
  shows "s \<in> set live_statuses"
  using assms unfolding status_updates_def Let_def
  by (simp add: live_statuses_def split: if_split_asm)

definition same_but_status :: "engine \<Rightarrow> engine \<Rightarrow> bool" where
  "same_but_status e e' =
     (en_id e' = en_id e \<and> en_now e' = en_now e \<and> jb_prevPause (en_job e') = jb_prevPause (en_job e) \<and>
      jb_process (en_job e') = jb_process (en_job e) \<and> jb_user (en_job e') = jb_user (en_job e) \<and>
      (jb_status (en_job e) \<in> set live_statuses \<longrightarrow> jb_status (en_job e') \<in> set live_statuses))"

lemma same_but_status_refl [simp]: "same_but_status e e"
  by (simp add: same_but_status_def)

lemma update_status_same: "same_but_status e (snd (update_status c s e))"
  by (auto simp: update_status_cases same_but_status_def status_keeps status_after status_live split: sum.split)

lemma JobsByIDPatch_status:
  "en_id e \<noteq> [] \<Longrightarrow> snd (JobsByIDPatch c (en_id e) [(''status'', Str s)] e) = snd (update_status c s e)"
  by (simp add: JobsByIDPatch_def body_field_def json_string_def field_option_def update_status_def UpdateJob_def Let_def
      split: prod.split option.split engine_error.split sum.split)

lemma page_request:
  assumes "\<And>v. decam [(''status'', v)] = [(''status'', v)]" and "en_id e \<noteq> []" and "jp_jobId p = en_id e"
  shows "request_status decam (engine_axios others c) ctx s (e, p) =
    (Inr (), (snd (update_status c s e), p\<lparr>jp_job := obj_put ''status'' (Val (Str s)) (jp_job p)\<rparr>))"
proof -
  have sel: "select_updates [''max-tasks'', ''accept-new-models'', ''status''] [(''status'', Str s)] = [(''status'', Str s)]"
    by code_simp
  have "snd (updateJob decam (engine_axios others c) ctx (en_id e) [(''status'', Str s)] e) = snd (update_status c s e)"
    using JobsByIDPatch_status [OF assms(2), of c s]
    by (auto simp: updateJob_def assms(1) sel send_update_def engine_axios_def job_path_def starts_with_def bindS_def
        split: prod.split sum.split)
  then show ?thesis by (simp add: request_status_def assms(3))
qed

subsection \<open>What the page does\<close>

text \<open>The page shows the job that the engine keeps.\<close>

definition tied :: "'u job_system \<Rightarrow> bool" where
  "tied s = (en_id (sy_engine s) \<noteq> [] \<and> jp_jobId (sy_page s) = en_id (sy_engine s))"

text \<open>A status is requested and shown.\<close>

definition requested :: "'u environment \<Rightarrow> string \<Rightarrow> 'u job_system \<Rightarrow> 'u job_system" where
  "requested env x s =
     s\<lparr>sy_engine := snd (update_status (ev_caller env) x (sy_engine s)),
       sy_page := (sy_page s)\<lparr>jp_job := obj_put ''status'' (Val (Str x)) (jp_job (sy_page s))\<rparr>\<rparr>"

lemma shown_requested [simp]: "shown_status (requested env x s) = Str x"
  by (simp add: requested_def job_status_def item_field_def)

lemma requested_request:
  assumes "logged_in env" and "tied s"
  shows "page_does (request_status (ev_decam env) (env_axios env) ctx x) s = requested env x s"
proof -
  have "request_status (ev_decam env) (env_axios env) ctx x (sy_engine s, sy_page s) =
    (Inr (), (snd (update_status (ev_caller env) x (sy_engine s)),
       (sy_page s)\<lparr>jp_job := obj_put ''status'' (Val (Str x)) (jp_job (sy_page s))\<rparr>))"
    unfolding env_axios_def
    by (rule page_request) (use assms in \<open>auto simp: logged_in_def tied_def\<close>)
  then show ?thesis by (simp add: page_does_def requested_def)
qed

lemma page_does_read:
  assumes "logged_in env"
  shows "page_does (bindS (lift (stored_context (ev_urljoin env) (ev_stored env))) (\<lambda>ctx.
           bindS (\<lambda>(w, p). (Inr p, (w, p))) (k ctx))) s =
         page_does (k (projr (stored_context (ev_urljoin env) (ev_stored env))) (sy_page s)) s"
  using assms by (auto simp: logged_in_def page_does_def bindS_def)

lemma page_does_nothing [simp]: "page_does (ret ()) s = s"
  by (simp add: page_does_def)

lemma press_pause_eq:
  assumes "logged_in env" and "tied s"
  shows "press_pause env s =
    (if shown_status s = Str JobRunning then requested env JobPausing s
     else if shown_status s = Str JobPaused then requested env JobResuming s
     else if shown_status s = Str JobScheduled then requested env JobRunning s
     else s)"
  unfolding press_pause_def pauseClick_def page_does_read [OF assms(1)]
  by (simp add: requested_request [OF assms])

lemma press_stop_eq:
  assumes "logged_in env" and "tied s"
  shows "press_stop env s =
    (if array_includes [JobScheduled, JobRunning, JobPaused, JobPausing] (shown_status s)
     then requested env JobTerminating s else s)"
  unfolding press_stop_def stopClick_def page_does_read [OF assms(1)]
  by (simp add: requested_request [OF assms])

text \<open>Loading the job shows the status that the engine has, and changes nothing else of what is followed.\<close>

lemma job_item_status:
  "\<exists>it. job_item tx (Json (JObj ((''status'', v) # ob))) = Inr it \<and> item_field ''status'' it = Json v"
  by (simp add: job_item_def item_from_def copied_def dated_def dated_text_def timed_def timed_text_def item_field_def)

lemma show_job_state:
  "\<exists>r p'. show_job data p = (r, p') \<and> jp_job p' = data \<and> jp_jobId p' = jp_jobId p"
  by (auto simp: show_job_def bindS_def modify_def split: sum.split)

lemma load_job_state:
  assumes "stored_context urljoin stored = Inr ctx"
  shows "\<exists>r p'. load_job urljoin tx (engine_axios others c) stored (e, p) = (r, (e, p')) \<and> jp_jobId p' = jp_jobId p \<and>
    (if jp_jobId p = en_id e \<and> en_id e \<noteq> [] \<and> sees c (en_job e)
     then job_status p' = Str (jb_status (en_job e)) else p' = p)"
proof (cases "jp_jobId p = en_id e \<and> en_id e \<noteq> [] \<and> sees c (en_job e)")
  case True
  obtain it where it: "job_item tx (Json (JObj ((''status'', JStr (jb_status (en_job e))) # others (en_job e) (en_now e)))) = Inr it"
      "item_field ''status'' it = Str (jb_status (en_job e))"
    using job_item_status by blast
  have "getJobById tx (engine_axios others c) ctx (en_id e) e = (Inr it, e)"
    using True it(1)
    by (simp add: getJobById_def get_item_def engine_axios_def job_path_def starts_with_def JobsByIDGet_def GetJobByID_def
        answered_def bindS_def)
  moreover obtain r p' where "show_job it p = (r, p')" "jp_job p' = it" "jp_jobId p' = jp_jobId p"
    using show_job_state by blast
  ultimately show ?thesis using True it(2) assms
    by (auto simp: load_job_def bindS_def catchS_def on_world_def on_state_def job_status_def split: sum.split)
next
  case False
  then have "\<exists>err. fst (getJobById tx (engine_axios others c) ctx (jp_jobId p) e) = Inl err \<and> err \<noteq> Unmodelled \<and>
      snd (getJobById tx (engine_axios others c) ctx (jp_jobId p) e) = e"
    by (auto simp: getJobById_def get_item_def engine_axios_def job_path_def starts_with_def JobsByIDGet_def GetJobByID_def
        answered_def bindS_def)
  then show ?thesis using False assms
    by (auto simp: load_job_def bindS_def catchS_def on_world_def on_state_def split: prod.split)
qed

lemma refresh_eq:
  assumes "logged_in env"
  shows "\<exists>p'. refresh env s = s\<lparr>sy_page := p'\<rparr> \<and> jp_jobId p' = jp_jobId (sy_page s) \<and>
    (tied s \<and> sees (ev_caller env) (en_job (sy_engine s)) \<longrightarrow> job_status p' = Str (engine_status s))"
proof -
  obtain ctx where "stored_context (ev_urljoin env) (ev_stored env) = Inr ctx" using assms by (auto simp: logged_in_def)
  from load_job_state [OF this, of "ev_texts env" "ev_others env" "ev_caller env" "sy_engine s" "sy_page s"]
  obtain r p' where p: "load_job (ev_urljoin env) (ev_texts env) (env_axios env) (ev_stored env) (sy_engine s, sy_page s) =
        (r, (sy_engine s, p'))" "jp_jobId p' = jp_jobId (sy_page s)"
      "if jp_jobId (sy_page s) = en_id (sy_engine s) \<and> en_id (sy_engine s) \<noteq> [] \<and> sees (ev_caller env) (en_job (sy_engine s))
       then job_status p' = Str (engine_status s) else p' = sy_page s"
    unfolding env_axios_def by blast
  have "refresh env s = s\<lparr>sy_page := p'\<rparr>" by (simp add: refresh_def page_does_def p(1))
  then show ?thesis using p(2,3) by (auto simp: tied_def)
qed

subsection \<open>What holds in every state\<close>

lemma worker_step_eq:
  "worker_step process ok k ws e =
     (case worker_operation process ok k ws e of
        (None, e') \<Rightarrow> (next_operation ws, e')
      | (Some err, e') \<Rightarrow> if err = ErrNotFound then (Crashed, e') else (Hanging, e))"
  by (simp add: worker_step_def repeat_eq split: prod.split option.split)

lemma complete_job_eq:
  "complete_job s =
     (case update_status Root JobCompleted (sy_engine s) of
        (None, e) \<Rightarrow> s\<lparr>sy_engine := e\<rparr>
      | (Some err, e) \<Rightarrow> s\<lparr>sy_hanging := sy_hanging s + 1\<rparr>)"
  by (auto simp: complete_job_def repeat_eq update_status_cases sees_def dest: status_refused split: sum.split)

text \<open>The job is locked exactly while a worker is at work on it or hangs.\<close>

definition job_invariant :: "'u environment \<Rightarrow> 'u job_system \<Rightarrow> bool" where
  "job_invariant env s =
     (engine_status s \<in> set live_statuses \<and>
      jb_prevPause (en_job (sy_engine s)) = 0 \<and>
      jb_process (en_job (sy_engine s)) = (if sy_worker s = Finished then None else Some (ev_process env)) \<and>
      sy_worker s \<noteq> Crashed \<and> tied s \<and> owns (ev_caller env) (en_job (sy_engine s)))"

lemma job_invariant_opened:
  "i \<noteq> [] \<Longrightarrow> owns (ev_caller env) (new_job now user accept) \<Longrightarrow> job_invariant env (opened now user i accept)"
  by (simp add: job_invariant_def opened_def new_job_def live_statuses_def tied_def)

lemma owns_user: "jb_user j = jb_user j' \<Longrightarrow> owns c j = owns c j'"
  by (simp add: owns_def split: caller.split)

lemma invariant_updated:
  assumes "job_invariant env s" and "same_but_status (sy_engine s) e" and "jp_jobId p = jp_jobId (sy_page s)"
  shows "job_invariant env (s\<lparr>sy_engine := e, sy_page := p\<rparr>)"
  using assms owns_user [of "en_job e" "en_job (sy_engine s)"]
  by (simp add: job_invariant_def same_but_status_def tied_def)

lemma invariant_engine:
  assumes "job_invariant env s" and "same_but_status (sy_engine s) e"
  shows "job_invariant env (s\<lparr>sy_engine := e\<rparr>)"
  using assms owns_user [of "en_job e" "en_job (sy_engine s)"]
  by (simp add: job_invariant_def same_but_status_def tied_def)

lemma invariant_requested: "job_invariant env s \<Longrightarrow> job_invariant env (requested env x s)"
  unfolding requested_def by (rule invariant_updated) (simp_all add: update_status_same)

lemma invariant_complete:
  assumes "job_invariant env s" shows "job_invariant env (complete_job s)"
proof -
  obtain r e where u: "update_status Root JobCompleted (sy_engine s) = (r, e)" by (cases "update_status Root JobCompleted (sy_engine s)")
  then have "same_but_status (sy_engine s) e" using update_status_same [of "sy_engine s" Root JobCompleted] by simp
  then have "job_invariant env (s\<lparr>sy_engine := e\<rparr>)" by (rule invariant_engine [OF assms])
  then show ?thesis using assms by (auto simp: complete_job_eq u job_invariant_def tied_def split: option.split)
qed

lemma invariant_work:
  assumes "job_invariant env s" and "worker_step (ev_process env) ok (sy_kind s) (sy_worker s) (sy_engine s) = (ws, e)"
  shows "job_invariant env (s\<lparr>sy_engine := e, sy_worker := ws\<rparr>)"
proof (cases "sy_worker s")
  case AtTasks
  then show ?thesis using assms
    by (auto simp: worker_step_eq worker_operation_def next_operation_def job_invariant_def tied_def split: if_splits)
next
  case AtMark
  define u where "u = update_status Root (target_status (sy_kind s)) (sy_engine s)"
  have "ws \<in> {AtUnlock, Hanging} \<and> (e = snd u \<or> e = sy_engine s)"
    using assms(2) AtMark
    by (auto simp: worker_step_eq worker_operation_def next_operation_def u_def update_status_cases sees_def owns_def
        dest: status_refused split: sum.splits)
  moreover have "same_but_status (sy_engine s) (snd u)" by (simp add: u_def update_status_same)
  ultimately have "same_but_status (sy_engine s) e" and ws: "ws \<in> {AtUnlock, Hanging}" by auto
  then have "job_invariant env (s\<lparr>sy_engine := e\<rparr>)" by (intro invariant_engine [OF assms(1)])
  then show ?thesis using ws AtMark by (auto simp: job_invariant_def tied_def)
next
  case AtUnlock
  then show ?thesis using assms
    by (auto simp: worker_step_eq worker_operation_def next_operation_def UnlockJob_def job_invariant_def tied_def owns_def
        split: caller.splits)
qed (use assms in \<open>auto simp: worker_step_eq worker_operation_def next_operation_def job_invariant_def tied_def\<close>)

lemma invariant_lock:
  assumes "job_invariant env s" and "LockJob st (ev_process env) (sy_engine s) = (None, e)"
  shows "job_invariant env (s\<lparr>sy_engine := e, sy_kind := k, sy_worker := AtTasks\<rparr>)"
  using assms by (auto simp: LockJob_def job_invariant_def tied_def owns_def split: if_splits caller.splits)

lemma invariant_tied: "job_invariant env s \<Longrightarrow> tied s"
  by (simp add: job_invariant_def)

lemma press_shapes:
  assumes "logged_in env" and "tied s"
  shows "press_pause env s = s \<or> (\<exists>x. press_pause env s = requested env x s)"
    and "press_stop env s = s \<or> press_stop env s = requested env JobTerminating s"
  unfolding press_pause_eq [OF assms] press_stop_eq [OF assms] by metis+

lemma invariant_step:
  assumes "logged_in env" and "job_step env s t" and "job_invariant env s"
  shows "job_invariant env t"
  using assms(2)
proof cases
  case pause
  then show ?thesis
    using press_shapes(1) [OF assms(1) invariant_tied [OF assms(3)]] assms(3) invariant_requested [OF assms(3)] by metis
next
  case stop
  then show ?thesis
    using press_shapes(2) [OF assms(1) invariant_tied [OF assms(3)]] assms(3) invariant_requested [OF assms(3)] by metis
next
  case load
  obtain p' where "refresh env s = s\<lparr>sy_page := p'\<rparr>" "jp_jobId p' = jp_jobId (sy_page s)"
    using refresh_eq [OF assms(1)] by blast
  then show ?thesis using load assms(3) by (simp add: job_invariant_def tied_def)
next
  case (lock k e)
  then show ?thesis using invariant_lock [OF assms(3)] by simp
next
  case (work ok ws e)
  then show ?thesis using invariant_work [OF assms(3)] by simp
next
  case complete
  then show ?thesis using invariant_complete [OF assms(3)] by simp
next
  case (tick t)
  then show ?thesis using assms(3) by (simp add: job_invariant_def tied_def)
qed

lemma invariant_steps:
  assumes "logged_in env" and "job_steps env s t" and "job_invariant env s"
  shows "job_invariant env t"
  using assms(2,3) unfolding job_steps_def by (induction rule: rtranclp_induct) (auto intro: invariant_step [OF assms(1)])

lemma reachable_invariant: "logged_in env \<Longrightarrow> reachable env s \<Longrightarrow> job_invariant env s"
  by (auto simp: reachable_def intro: invariant_steps job_invariant_opened)

subsection \<open>Agreement between the page and the engine\<close>

lemma update_status_admitted:
  assumes "owns c (en_job e)" and "x \<noteq> JobError"
  shows "jb_status (en_job (snd (update_status c x e))) =
    (if jb_status (en_job e) \<in> set (sources x) then x else jb_status (en_job e))"
proof (cases "\<exists>us. status_updates (en_now e) (en_job e) x = Inr us")
  case True
  then obtain us where us: "status_updates (en_now e) (en_job e) x = Inr us" by blast
  then have "jb_status (en_job (snd (update_status c x e))) = x"
    using assms(1) by (simp add: update_status_cases owns_sees status_after [OF us])
  then show ?thesis using True unfolding status_updates_iff [OF assms(2)] by auto
next
  case False
  then obtain err where "status_updates (en_now e) (en_job e) x = Inl err" by (metis sum.exhaust)
  moreover have "jb_status (en_job e) \<notin> set (sources x)" using False status_updates_iff [OF assms(2)] by blast
  ultimately show ?thesis by (simp add: update_status_cases)
qed

lemma requested_engine_status:
  assumes "job_invariant env s" and "x \<noteq> JobError"
  shows "engine_status (requested env x s) = (if engine_status s \<in> set (sources x) then x else engine_status s)"
  using update_status_admitted [OF _ assms(2), of "ev_caller env" "sy_engine s"] assms(1)
  by (simp add: requested_def job_invariant_def)


subsection \<open>A stop while the job is pausing\<close>

text \<open>The worker that pauses the job has not marked it yet, and the job is terminating: it can neither mark the
  job nor give it back.\<close>

definition overtaken :: "'u environment \<Rightarrow> 'u job_system \<Rightarrow> bool" where
  "overtaken env s =
     (job_invariant env s \<and> engine_status s = JobTerminating \<and> sy_kind s = PausingWorker \<and>
      sy_worker s \<in> {AtTasks, AtMark, Hanging})"

lemma overtaken_requested:
  assumes "overtaken env s" and "x \<in> {JobPausing, JobResuming, JobRunning, JobTerminating}"
  shows "overtaken env (requested env x s)"
proof -
  have "x \<noteq> JobError \<and> JobTerminating \<notin> set (sources x)"
    using assms(2) by (elim insertE emptyE) (simp_all add: sources_def)
  then have "engine_status (requested env x s) = JobTerminating"
    using assms(1) requested_engine_status [of env s x] by (simp add: overtaken_def)
  then show ?thesis using assms(1) invariant_requested [of env s x] by (simp add: overtaken_def requested_def)
qed

lemma overtaken_complete: "overtaken env s \<Longrightarrow> overtaken env (complete_job s)"
proof -
  assume o: "overtaken env s"
  have "status_updates (en_now (sy_engine s)) (en_job (sy_engine s)) JobCompleted = Inl ErrBadInput"
    using o by (simp add: overtaken_def status_updates_def)
  then have "complete_job s = s\<lparr>sy_hanging := sy_hanging s + 1\<rparr>"
    by (simp add: complete_job_eq update_status_cases sees_def owns_def)
  then show ?thesis using o by (simp add: overtaken_def job_invariant_def tied_def live_statuses_def)
qed

lemma overtaken_work:
  assumes "overtaken env s" and "worker_step (ev_process env) ok (sy_kind s) (sy_worker s) (sy_engine s) = (ws, e)"
  shows "e = sy_engine s \<and> ws \<in> {AtMark, Hanging}"
proof -
  have "status_updates (en_now (sy_engine s)) (en_job (sy_engine s)) JobPaused = Inl ErrBadInput"
    using assms(1) by (simp add: overtaken_def status_updates_def)
  then show ?thesis using assms
    by (auto simp: overtaken_def worker_step_eq worker_operation_def next_operation_def target_status_def
        update_status_cases sees_def owns_def split: if_splits)
qed

lemma overtaken_step:
  assumes "logged_in env" and "job_step env s t" and "overtaken env s"
  shows "overtaken env t"
proof -
  have inv: "job_invariant env t" and tied: "tied s"
    using assms invariant_step invariant_tied by (auto simp: overtaken_def)
  show ?thesis using assms(2)
  proof cases
    case pause
    then show ?thesis using assms(3) overtaken_requested [OF assms(3)] by (simp add: press_pause_eq [OF assms(1) tied])
  next
    case stop
    then show ?thesis using assms(3) overtaken_requested [OF assms(3)] by (simp add: press_stop_eq [OF assms(1) tied])
  next
    case load
    then show ?thesis using refresh_eq [OF assms(1), of s] assms(3) inv by (auto simp: overtaken_def)
  next
    case (lock k e)
    then show ?thesis using assms(3) by (auto simp: overtaken_def job_invariant_def LockJob_def split: if_splits)
  next
    case (work ok ws e)
    then show ?thesis using overtaken_work [OF assms(3) work(2)] assms(3) inv by (auto simp: overtaken_def)
  next
    case complete
    then show ?thesis using overtaken_complete [OF assms(3)] by simp
  next
    case (tick t)
    then show ?thesis using assms(3) inv by (simp add: overtaken_def)
  qed
qed

lemma overtaken_steps:
  assumes "logged_in env" and "job_steps env s t" and "overtaken env s"
  shows "overtaken env t"
  using assms(2,3) unfolding job_steps_def by (induction rule: rtranclp_induct) (auto intro: overtaken_step [OF assms(1)])


subsection \<open>What is reachable\<close>


subsection \<open>The run of a worker\<close>

lemma Root_sees [simp]: "sees Root j" "owns Root j"
  by (simp_all add: sees_def owns_def)

text \<open>C40. A worker that nothing interferes with returns exactly when the tasks can be changed and its status can be
  entered; then the job has that status and is unlocked. Otherwise it never returns: no operation is repeated.\<close>

theorem worker_returns:
  assumes "jb_process (en_job e) = Some process"
  shows "if ok \<and> (jb_status (en_job e) = target_status k \<or> jb_status (en_job e) \<in> set (sources (target_status k)))
    then \<exists>e'. job_worker process ok k e = Some (Done, e') \<and> jb_status (en_job e') = target_status k \<and> jb_process (en_job e') = None
    else job_worker process ok k e = None"
proof -
  have target: "target_status k \<noteq> JobError" by (cases k) (simp_all add: target_status_def)
  note iff = status_updates_iff [OF target, of "en_now e" "en_job e"]
  show ?thesis
  proof (cases "status_updates (en_now e) (en_job e) (target_status k)")
    case (Inl err)
    then have "\<not> (jb_status (en_job e) = target_status k \<or> jb_status (en_job e) \<in> set (sources (target_status k)))"
      using iff by auto
    moreover have "job_worker process ok k e = None"
      using Inl status_refused [OF Inl] by (simp add: job_worker_def repeat_eq worker_operation_def update_status_cases)
    ultimately show ?thesis by simp
  next
    case (Inr us)
    then have "jb_status (en_job e) = target_status k \<or> jb_status (en_job e) \<in> set (sources (target_status k))"
      using iff by auto
    then show ?thesis using assms Inr status_after [OF Inr] status_keeps(2) [OF Inr]
      by (simp add: job_worker_def repeat_eq worker_operation_def update_status_cases UnlockJob_def)
  qed
qed

theorem worker_returns_witness:
  "\<exists>e'. job_worker ''p'' True PausingWorker \<lparr>en_now = 1, en_id = ''j'', en_job = (new_job 0 ''u'' True)\<lparr>jb_status := ''pausing'', jb_process := Some ''p''\<rparr>\<rparr> =
     Some (Done, e') \<and> jb_status (en_job e') = ''paused'' \<and> jb_process (en_job e') = None"
  using worker_returns [of "\<lparr>en_now = 1, en_id = ''j'', en_job = (new_job 0 ''u'' True)\<lparr>jb_status := ''pausing'', jb_process := Some ''p''\<rparr>\<rparr>" "''p''" True PausingWorker]
  by (simp add: target_status_def sources_def)

subsection \<open>An example\<close>

definition example_texts :: "unit texts" where
  "example_texts = \<lparr>duration = (\<lambda>v. ()), duration_text = (\<lambda>d. []), date_text = (\<lambda>v. [])\<rparr>"

definition example_context :: string where
  "example_context =
     CHR ''{'' # quote_text ''serverAddress'' @ CHR '':'' # quote_text ''http://h'' @ CHR '','' #
     quote_text ''userCredentials'' @ '':{}}''"

definition example_env :: "unit environment" where
  "example_env =
     \<lparr>ev_urljoin = join ''/'', ev_decam = (\<lambda>ob. ob), ev_texts = example_texts, ev_others = (\<lambda>j now. []),
      ev_caller = Named ''u'', ev_stored = Some example_context, ev_process = ''p''\<rparr>"

lemma example_logged_in: "logged_in example_env"
proof -
  have "case stored_context (join ''/'') (Some example_context) of Inl e \<Rightarrow> False | Inr ctx \<Rightarrow> True" by code_simp
  then show ?thesis by (auto simp: logged_in_def example_env_def split: sum.splits)
qed

text \<open>The page has been loaded; the button to pause the job has been pressed; the maintainer has locked the job.\<close>

definition loaded_job :: "unit job_system" where "loaded_job = refresh example_env (opened 0 ''u'' ''j'' True)"
definition pausing_job :: "unit job_system" where "pausing_job = press_pause example_env loaded_job"
definition locked_job :: "unit job_system" where
  "locked_job = pausing_job\<lparr>sy_engine := snd (LockJob JobPausing ''p'' (sy_engine pausing_job)), sy_kind := PausingWorker, sy_worker := AtTasks\<rparr>"

lemma example_states:
  "shown_status loaded_job = Str JobRunning" "engine_status loaded_job = JobRunning"
  "shown_status locked_job = Str JobPausing" "engine_status locked_job = JobPausing"
  "LockJob JobPausing ''p'' (sy_engine pausing_job) = (None, sy_engine locked_job)"
  by code_simp+

lemma example_loaded: "reachable example_env loaded_job"
proof -
  have "owns (ev_caller example_env) (new_job 0 ''u'' True)" by (simp add: owns_def example_env_def new_job_def)
  moreover have "job_steps example_env (opened 0 ''u'' ''j'' True) loaded_job"
    unfolding job_steps_def loaded_job_def by (blast intro: job_step.load)
  ultimately show ?thesis unfolding reachable_def by blast
qed

lemma example_locked: "reachable example_env locked_job"
proof -
  have "pauseShow (sy_page loaded_job)" "\<not> pauseDisabled (sy_page loaded_job)"
    by (simp_all add: pauseShow_def pauseDisabled_def array_includes_def example_states)
  then have "job_step example_env loaded_job pausing_job" unfolding pausing_job_def by (rule job_step.pause)
  moreover have "job_step example_env pausing_job
      (pausing_job\<lparr>sy_engine := sy_engine locked_job, sy_kind := PausingWorker, sy_worker := AtTasks\<rparr>)"
    using example_states(5) by (intro job_step.lock) (simp add: watched_status_def example_env_def)
  moreover have "pausing_job\<lparr>sy_engine := sy_engine locked_job, sy_kind := PausingWorker, sy_worker := AtTasks\<rparr> = locked_job"
    by (simp add: locked_job_def)
  ultimately have "job_steps example_env loaded_job locked_job" unfolding job_steps_def by (simp add: converse_rtranclp_into_rtranclp)
  then show ?thesis using example_loaded unfolding reachable_def job_steps_def by (meson rtranclp_trans)
qed




text \<open>A job that the page shows as scheduled cannot be stopped: the page says that it is terminating, the engine
  refuses. Jobs are created running, so this is never seen.\<close>

lemma stop_scheduled:
  assumes "logged_in env" and "tied s" and "owns (ev_caller env) (en_job (sy_engine s))"
    and "engine_status s = JobScheduled" and "shown_status s = Str JobScheduled"
  shows "shown_status (press_stop env s) = Str JobTerminating" and "engine_status (press_stop env s) = JobScheduled"
proof -
  have "press_stop env s = requested env JobTerminating s"
    by (simp add: press_stop_eq [OF assms(1,2)] assms(5) array_includes_def)
  moreover have "engine_status (requested env JobTerminating s) = JobScheduled"
    using update_status_admitted [OF assms(3), of JobTerminating] by (simp add: requested_def assms(4) sources_def)
  ultimately show "shown_status (press_stop env s) = Str JobTerminating" "engine_status (press_stop env s) = JobScheduled" by simp_all
qed

end
