(* ===== verification/Jupyter.thy ===== *)
theory Jupyter
  imports Web_Dataset
begin

text \<open>
  The extension of JupyterLab, \<^verbatim>\<open>src/client/jupyterlab/easemlclient/src\<close>: the commands and widgets of
  \<^verbatim>\<open>index.tsx\<close> and the page \<^verbatim>\<open>Iframe.vue\<close> that shows the web interface in a frame. JupyterLab and the widgets
  of \<^verbatim>\<open>phosphor\<close> are an argument, a record of the calls that the extension makes; a widget is a reference.
\<close>

subsection \<open>JupyterLab\<close>

text \<open>The two classes of content, the two trackers, and what the two commands execute.\<close>

datatype panel = Easeml | EasemlSidebar

datatype tracker = MainTracker | SideTracker

datatype command = OpenMain | OpenMainAndCollapse

datatype lab_call =
    SetId nat string
  | SetLabel nat string
  | SetClosable nat bool
  | SetIconClass nat string
  | SetCaption nat string
  | TrackerAdd tracker nat
  | AppShellAdd nat string
  | ContentUpdate nat
  | ActivateById string
  | NewTracker tracker string
  | AddCommand string string command
  | RestorerRestore tracker string string
  | RestorerAdd nat string
  | PaletteAddItem string string
  | LabShellAdd nat string
  | CollapseLeft
  | LauncherAdd string string nat

record 'w lab =
  lab_new :: "panel \<Rightarrow> ('w, nat) io"
  lab_disposed :: "nat \<Rightarrow> ('w, bool) io"
  lab_has :: "tracker \<Rightarrow> nat \<Rightarrow> ('w, bool) io"
  lab_attached :: "nat \<Rightarrow> ('w, bool) io"
  lab_id :: "nat \<Rightarrow> ('w, string) io"
  lab_do :: "lab_call \<Rightarrow> ('w, unit) io"

definition doing :: "'w lab \<Rightarrow> lab_call list \<Rightarrow> ('w, unit) io" where
  "doing lab calls = foldS (\<lambda>c u. lab_do lab c) calls ()"

subsection \<open>Windows\<close>

text \<open>\<^verbatim>\<open>if (!widget || widget.isDisposed) { \<dots> }\<close>: a new widget with its title, or the one there is.\<close>

definition ensure_widget :: "'w lab \<Rightarrow> panel \<Rightarrow> nat option \<Rightarrow> ('w, nat) io" where
  "ensure_widget lab content widget =
     bindS (case widget of None \<Rightarrow> ret True | Some x \<Rightarrow> lab_disposed lab x) (\<lambda>create.
     case widget of
       Some x \<Rightarrow>
         if create then
           bindS (lab_new lab content) (\<lambda>y.
           bindS (doing lab [SetId y ''easeml-jupyterlab'', SetLabel y ''Ease.ml'', SetClosable y True]) (\<lambda>_. ret y))
         else ret x
     | None \<Rightarrow>
         bindS (lab_new lab content) (\<lambda>y.
         bindS (doing lab [SetId y ''easeml-jupyterlab'', SetLabel y ''Ease.ml'', SetClosable y True]) (\<lambda>_. ret y)))"

text \<open>Tracking, attaching, updating and activating a widget.\<close>

definition show_widget :: "'w lab \<Rightarrow> tracker \<Rightarrow> nat \<Rightarrow> ('w, unit) io" where
  "show_widget lab t x =
     bindS (lab_has lab t x) (\<lambda>tracked.
     bindS (if tracked then ret () else lab_do lab (TrackerAdd t x)) (\<lambda>_.
     bindS (lab_attached lab x) (\<lambda>attached.
     bindS (if attached then ret () else lab_do lab (AppShellAdd x ''main'')) (\<lambda>_.
     bindS (lab_do lab (ContentUpdate x)) (\<lambda>_.
     bindS (lab_id lab x) (\<lambda>i. lab_do lab (ActivateById i)))))))"

text \<open>The variable for the widget is declared inside of the function, so that it has no value yet.\<close>

definition easmlOpen :: "'w lab \<Rightarrow> ('w, unit) io" where
  "easmlOpen lab = bindS (ensure_widget lab Easeml None) (show_widget lab MainTracker)"

definition execute :: "'w lab \<Rightarrow> command \<Rightarrow> ('w, unit) io" where
  "execute lab c =
     (case c of
        OpenMain \<Rightarrow> easmlOpen lab
      | OpenMainAndCollapse \<Rightarrow> bindS (easmlOpen lab) (\<lambda>_. lab_do lab CollapseLeft))"

subsection \<open>Activation\<close>

definition activate :: "'w lab \<Rightarrow> bool \<Rightarrow> ('w, unit) io" where
  "activate lab has_launcher =
     bindS (doing lab
       [NewTracker MainTracker ''vue'', AddCommand ''easeml:open'' ''Open ease.ml'' OpenMain,
        RestorerRestore MainTracker ''easeml:open'' ''vue'', PaletteAddItem ''easeml:open'' ''START EASE.ML'',
        AddCommand ''easeml:openside'' ''Open ease.ml and close sidebar'' OpenMainAndCollapse,
        NewTracker SideTracker ''vue'']) (\<lambda>_.
     bindS (ensure_widget lab EasemlSidebar None) (\<lambda>x.
     bindS (show_widget lab SideTracker x) (\<lambda>_.
     bindS (doing lab
       [SetId x ''easeml-sidebar'', SetIconClass x ''jp-SpreadsheetIcon jp-SideBar-tabIcon'',
        SetCaption x ''Ease.ml Sidebar'', SetClosable x True]) (\<lambda>_.
     bindS (lab_id lab x) (\<lambda>i.
     doing lab
       ([RestorerAdd x i, LabShellAdd x ''left''] @
        (if has_launcher then [LauncherAdd ''easeml:open'' ''Other'' 0] else [])))))))"

text \<open>The registry of settings: \<^verbatim>\<open>load\<close>, whose promise nobody waits for, and the value \<^verbatim>\<open>composite\<close> that \<^verbatim>\<open>get\<close>
  is resolved with.\<close>

record 'w registry =
  rg_load :: "string \<Rightarrow> 'w \<Rightarrow> 'w"
  rg_get :: "string \<Rightarrow> string \<Rightarrow> ('w, jsv) io"

definition plugin_id :: string where
  "plugin_id = ''@easeml/jupyterlab_easeml:plugin''"

text \<open>The state is \<^verbatim>\<open>iframeSettings.easemlServer\<close>, at first the empty text. Every error is ignored.\<close>

definition loadSettings :: "'w registry \<Rightarrow> ('w \<times> jsv, unit) io" where
  "loadSettings rg =
     catchS
       (bindS (on_world (\<lambda>w. (Inr (), rg_load rg plugin_id w))) (\<lambda>_.
        bindS (on_world (rg_get rg plugin_id ''easemlConfig'')) (\<lambda>composite.
        bindS (lift (property composite ''easemlServer'')) (\<lambda>reg.
        on_state (modify (\<lambda>_. reg))))))
       (\<lambda>e. ret ())"

definition plugin_activate :: "'w registry \<Rightarrow> 'w lab \<Rightarrow> bool \<Rightarrow> ('w \<times> jsv, unit) io" where
  "plugin_activate rg lab has_launcher =
     bindS (loadSettings rg) (\<lambda>_. on_world (activate lab has_launcher))"

subsection \<open>Pages\<close>

text \<open>\<^verbatim>\<open>onUpdateRequest\<close>: what a widget renders.\<close>

datatype vue_page = IframePage jsv | SidebarPage

definition onUpdateRequest :: "panel \<Rightarrow> jsv \<Rightarrow> vue_page" where
  "onUpdateRequest content easemlServer = (case content of Easeml \<Rightarrow> IframePage easemlServer | EasemlSidebar \<Rightarrow> SidebarPage)"

record iframe_page =
  if_url :: jsv
  if_response :: jsval
  if_error :: "js_error option"

definition new_iframe :: "jsv \<Rightarrow> iframe_page" where
  "new_iframe url = \<lparr>if_url = url, if_response = JStr [], if_error = None\<rparr>"

text \<open>\<^verbatim>\<open>axios.get(this.url + "/api/v1/")\<close>; an exception while the address is put together is not caught.\<close>

definition iframe_mounted :: "(string \<Rightarrow> ('w, response) io) \<Rightarrow> ('w \<times> iframe_page, unit) io" where
  "iframe_mounted request =
     bindS (\<lambda>(w, p). (Inr (if_url p), (w, p))) (\<lambda>url.
     bindS (lift (js_text url)) (\<lambda>address.
     catchS
       (bindS (on_world (request (address @ ''/api/v1/''))) (\<lambda>rs. on_state (modify (\<lambda>p. p\<lparr>if_response := rs_data rs\<rparr>))))
       (\<lambda>e. on_state (modify (\<lambda>p. p\<lparr>if_error := Some e\<rparr>)))))"

fun has_substring :: "string \<Rightarrow> string \<Rightarrow> bool" where
  "has_substring p [] = (p = [])"
| "has_substring p (c # cs) = (starts_with (c # cs) p \<or> has_substring p cs)"

text \<open>\<^verbatim>\<open>this.response.includes("Easeml")\<close>: texts and arrays have this method.\<close>

definition IsAlive :: "iframe_page \<Rightarrow> bool res" where
  "IsAlive p =
     (case if_response p of
        JStr s \<Rightarrow> Inr (has_substring ''Easeml'' s)
      | JArr xs \<Rightarrow> Inr (JStr ''Easeml'' \<in> set xs)
      | _ \<Rightarrow> Inl TypeError)"

text \<open>The template: the frame with its address, or a message with the address, the response and the error.\<close>

datatype iframe_view = Frame jsv | Problem jsv jsval "js_error option"

definition iframe_view :: "iframe_page \<Rightarrow> iframe_view res" where
  "iframe_view p =
     bindE (IsAlive p) (\<lambda>alive. Inr (if alive then Frame (if_url p) else Problem (if_url p) (if_response p) (if_error p)))"

subsection \<open>What the commands do\<close>

text \<open>What is relied on of JupyterLab: a new widget is a reference that was not in use, and it is not attached; adding
  it to the shell adds it to the windows; no other call of the extension changes the windows.\<close>

definition desktop :: "'w lab \<Rightarrow> ('w \<Rightarrow> nat list) \<Rightarrow> bool" where
  "desktop lab windows =
     ((\<forall>c w. \<exists>x v. lab_new lab c w = (Inr x, v) \<and> windows v = windows w \<and> x \<notin> set (windows w)) \<and>
      (\<forall>t x w. \<exists>b. lab_has lab t x w = (Inr b, w)) \<and>
      (\<forall>x w. lab_attached lab x w = (Inr (x \<in> set (windows w)), w)) \<and>
      (\<forall>x w. \<exists>i. lab_id lab x w = (Inr i, w)) \<and>
      (\<forall>k w. \<exists>v. lab_do lab k w = (Inr (), v) \<and>
         windows v = (case k of AppShellAdd x a \<Rightarrow> windows w @ [x] | _ \<Rightarrow> windows w)))"

text \<open>An operation that ends and keeps the windows, or adds windows of which a property holds.\<close>

definition adds :: "('w \<Rightarrow> nat list) \<Rightarrow> nat list \<Rightarrow> ('w, 'a) io \<Rightarrow> 'w \<Rightarrow> bool" where
  "adds windows xs m w = (\<exists>r v. m w = (Inr r, v) \<and> windows v = windows w @ xs)"

lemma adds_bind:
  "adds windows xs m w \<Longrightarrow> (\<And>r v. m w = (Inr r, v) \<Longrightarrow> windows v = windows w @ xs \<Longrightarrow> adds windows ys (f r) v) \<Longrightarrow>
   adds windows (xs @ ys) (bindS m f) w"
  unfolding adds_def by (metis append_assoc bindS_simps(2))

lemma adds_ret [simp]: "adds windows [] (ret x) w"
  by (simp add: adds_def)

lemma desktop_calls:
  assumes "desktop lab windows"
  shows "\<exists>x v. lab_new lab c w = (Inr x, v) \<and> windows v = windows w \<and> x \<notin> set (windows w)"
    and "\<exists>b. lab_has lab t x w = (Inr b, w)"
    and "lab_attached lab x w = (Inr (x \<in> set (windows w)), w)"
    and "\<exists>i. lab_id lab x w = (Inr i, w)"
    and "\<exists>v. lab_do lab k w = (Inr (), v) \<and> windows v = (case k of AppShellAdd x a \<Rightarrow> windows w @ [x] | _ \<Rightarrow> windows w)"
  using assms unfolding desktop_def by blast+

definition keeps_windows :: "lab_call \<Rightarrow> bool" where
  "keeps_windows k = (case k of AppShellAdd x a \<Rightarrow> False | _ \<Rightarrow> True)"

lemma adds_call:
  "desktop lab windows \<Longrightarrow> keeps_windows k \<Longrightarrow> adds windows [] (lab_do lab k) w"
  using desktop_calls(5) [of lab windows k w] by (cases k) (auto simp: adds_def keeps_windows_def)

lemma adds_doing:
  assumes "desktop lab windows"
  shows "list_all keeps_windows ks \<Longrightarrow> adds windows [] (doing lab ks) w"
proof (induction ks arbitrary: w)
  case (Cons k ks v)
  have "adds windows ([] @ []) (bindS (lab_do lab k) (\<lambda>u. doing lab ks)) v"
    using Cons by (intro adds_bind adds_call [OF assms]) auto
  then show ?case by (simp add: doing_def)
qed (simp add: doing_def)

text \<open>A widget that is shown and not attached becomes a window.\<close>

lemma show_widget_adds:
  assumes "desktop lab windows" and "x \<notin> set (windows w)"
  shows "adds windows [x] (show_widget lab t x) w"
proof -
  obtain b where b: "lab_has lab t x w = (Inr b, w)" using desktop_calls(2) [OF assms(1)] by blast
  obtain v1 where v1: "(if b then ret () else lab_do lab (TrackerAdd t x)) w = (Inr (), v1)" "windows v1 = windows w"
    using desktop_calls(5) [OF assms(1), of "TrackerAdd t x" w] by (cases b) auto
  obtain v2 where v2: "lab_do lab (AppShellAdd x ''main'') v1 = (Inr (), v2)" "windows v2 = windows w @ [x]"
    using desktop_calls(5) [OF assms(1), of "AppShellAdd x ''main''" v1] v1(2) by auto
  obtain v3 where v3: "lab_do lab (ContentUpdate x) v2 = (Inr (), v3)" "windows v3 = windows w @ [x]"
    using desktop_calls(5) [OF assms(1), of "ContentUpdate x" v2] v2(2) by auto
  obtain i where i: "lab_id lab x v3 = (Inr i, v3)" using desktop_calls(4) [OF assms(1)] by blast
  obtain v4 where v4: "lab_do lab (ActivateById i) v3 = (Inr (), v4)" "windows v4 = windows w @ [x]"
    using desktop_calls(5) [OF assms(1), of "ActivateById i" v3] v3(2) by auto
  have "lab_attached lab x v1 = (Inr False, v1)" using desktop_calls(3) [OF assms(1), of x v1] assms(2) v1(2) by simp
  then have "show_widget lab t x w = (Inr (), v4)"
    unfolding show_widget_def by (simp add: bindS_def b v1(1) v2(1) v3(1) i v4(1))
  then show ?thesis using v4(2) by (simp add: adds_def)
qed

lemma easmlOpen_adds:
  assumes "desktop lab windows"
  shows "\<exists>x. x \<notin> set (windows w) \<and> adds windows [x] (easmlOpen lab) w"
proof -
  obtain x v where x: "lab_new lab Easeml w = (Inr x, v)" "windows v = windows w" "x \<notin> set (windows w)"
    using desktop_calls(1) [OF assms] by blast
  have "adds windows [] (doing lab [SetId x ''easeml-jupyterlab'', SetLabel x ''Ease.ml'', SetClosable x True]) v"
    by (rule adds_doing [OF assms]) (simp add: keeps_windows_def)
  then obtain r u where "doing lab [SetId x ''easeml-jupyterlab'', SetLabel x ''Ease.ml'', SetClosable x True] v = (Inr r, u)"
      "windows u = windows v" by (auto simp: adds_def)
  moreover from this have "adds windows [x] (show_widget lab MainTracker x) u"
    using x by (intro show_widget_adds [OF assms]) simp
  ultimately have "adds windows [x] (easmlOpen lab) w"
    using x by (simp add: easmlOpen_def ensure_widget_def bindS_def adds_def)
  then show ?thesis using x(3) by blast
qed

lemma execute_adds:
  assumes "desktop lab windows"
  shows "\<exists>x. x \<notin> set (windows w) \<and> adds windows [x] (execute lab c) w"
proof -
  obtain x where x: "x \<notin> set (windows w)" "adds windows [x] (easmlOpen lab) w" using easmlOpen_adds [OF assms] by blast
  have "adds windows ([x] @ []) (bindS (easmlOpen lab) (\<lambda>_. lab_do lab CollapseLeft)) w"
    by (rule adds_bind [OF x(2)]) (rule adds_call [OF assms], simp add: keeps_windows_def)
  then show ?thesis using x by (cases c) (auto simp: execute_def)
qed


text \<open>A desktop that is no more than its windows.\<close>

definition small_lab :: "nat list lab" where
  "small_lab =
     \<lparr>lab_new = (\<lambda>c ws. (Inr (Suc (sum_list ws)), ws)), lab_disposed = (\<lambda>x ws. (Inr False, ws)),
      lab_has = (\<lambda>t x ws. (Inr False, ws)), lab_attached = (\<lambda>x ws. (Inr (x \<in> set ws), ws)),
      lab_id = (\<lambda>x ws. (Inr ''easeml-jupyterlab'', ws)),
      lab_do = (\<lambda>k ws. (Inr (), case k of AppShellAdd x a \<Rightarrow> ws @ [x] | _ \<Rightarrow> ws))\<rparr>"

lemma small_desktop: "desktop small_lab (\<lambda>ws. ws)"
proof -
  have "Suc (sum_list ws) \<notin> set ws" for ws :: "nat list" using member_le_sum_list [of "Suc (sum_list ws)" ws] by auto
  then show ?thesis by (simp add: desktop_def small_lab_def) blast
qed


subsection \<open>Settings and the frame\<close>

text \<open>The extension is activated whatever the registry answers; the address stays as it was if there is no answer or
  none with settings.\<close>

lemma settings_read:
  "rg_get rg plugin_id ''easemlConfig'' (rg_load rg plugin_id w) = (Inr (Json (JObj ob)), v) \<Longrightarrow>
   loadSettings rg (w, server) = (Inr (), (v, case map_of ob ''easemlServer'' of Some x \<Rightarrow> Json x | None \<Rightarrow> Undefined))"
  by (simp add: loadSettings_def catchS_def bindS_def on_world_def on_state_def modify_def)

lemma settings_missing:
  "rg_get rg plugin_id ''easemlConfig'' (rg_load rg plugin_id w) = (r, v) \<Longrightarrow> r \<in> {Inl AssertionError, Inl TypeError, Inr Undefined, Inr (Json JNull)} \<Longrightarrow>
   loadSettings rg (w, server) = (Inr (), (v, server))"
  by (auto simp: loadSettings_def catchS_def bindS_def on_world_def)

lemma activated_anyway:
  assumes "loadSettings rg (w, server) = (Inr (), (v, server'))"
  shows "plugin_activate rg lab b (w, server) = (case activate lab b v of (r, u) \<Rightarrow> (r, (u, server')))"
  using assms by (simp add: plugin_activate_def bindS_def on_world_def)

text \<open>The text that the root of the interface of the engine answers with (\<^verbatim>\<open>api/router/router.go\<close>) shows the frame.\<close>

lemma frame_of_engine:
  assumes "request (u @ ''/api/v1/'') w = (Inr \<lparr>rs_data = JStr ''Hello from Easeml API v1 root!'', rs_headers = hs\<rparr>, v)"
  shows "\<exists>p. iframe_mounted request (w, new_iframe (Str u)) = (Inr (), (v, p)) \<and> iframe_view p = Inr (Frame (Str u))"
proof -
  have "has_substring ''Easeml'' ''Hello from Easeml API v1 root!''" by code_simp
  then show ?thesis using assms
    by (simp add: iframe_mounted_def new_iframe_def catchS_def bindS_def on_world_def on_state_def modify_def iframe_view_def IsAlive_def)
qed

text \<open>A response in JSON that is an object has no method \<^verbatim>\<open>includes\<close>, so that nothing is rendered.\<close>

lemma frame_of_object: "if_response p = JObj ob \<Longrightarrow> iframe_view p = Inl TypeError"
  by (simp add: iframe_view_def IsAlive_def)

lemma has_substring_iff: "has_substring p s \<longleftrightarrow> (\<exists>a b. s = a @ p @ b)"
proof (induction s)
  case (Cons c cs)
  have "starts_with (c # cs) p \<longleftrightarrow> (\<exists>b. c # cs = p @ b)"
    unfolding starts_with_def by (metis append_eq_conv_conj append_take_drop_id)
  then show ?case using Cons by (auto simp: Cons_eq_append_conv)
qed simp

end
