(* ===== verification/Spec2Isabelle.thy ===== *)
theory Spec2Isabelle
  imports Match_Total Match_Limits Load_Correct Infer_Correct Generate_Correct Web_Correct Session_Correct
    Jobs_Correct Job_System Jupyter
begin

text \<open>
  The JavaScript code of ease.ml: the schema package, \<^verbatim>\<open>src/schema/javascript/easemlschema/src\<close>, with the
  schemas of machine learning tasks, their matching, and the data sets that conform to them; the client
  of the REST interface, \<^verbatim>\<open>src/client/javascript/easemlclient/src\<close>; the pages of the web interface that
  use both, \<^verbatim>\<open>src/web/src\<close>; and the extension of JupyterLab that shows them,
  \<^verbatim>\<open>src/client/jupyterlab/easemlclient/src\<close>. Of the engine, which is written in Go, the status of a job is modelled
  as far as the page of a job depends on it.

  \<^bold>\<open>The program.\<close> A schema (\<^verbatim>\<open>schema.js\<close>) is a graph of nodes. A singleton node has one field, any
  other node stands for a number of instances with fields and with links between them. A field is a
  tensor with a list of dimensions, some of which may be names or wildcards, or a category of a
  class. Matching a destination schema with a source schema looks for a renaming of nodes, fields,
  classes and dimensions; it enumerates the arrangements with an iterative permutation
  (\<^verbatim>\<open>util/iterative-permutation.js\<close>). A data set (\<^verbatim>\<open>dataset.js\<close>) is a tree of directories and files.
  It is read and written by an opener (\<^verbatim>\<open>openers/fs-opener.js\<close>, \<^verbatim>\<open>openers/tar-opener.js\<close>) whose files
  have the interface of \<^verbatim>\<open>reader-writer-closer.js\<close>; tensors are npy files (\<^verbatim>\<open>util/jsnpy.js\<close>). A
  schema can be inferred from a data set, and a random data set can be generated for a schema. The
  client (\<^verbatim>\<open>index.js\<close>, \<^verbatim>\<open>common.js\<close> and a file for each kind of resource) turns the items of the server into
  objects and follows the pages of a list. The web interface keeps a context of the client in the store
  of the browser (\<^verbatim>\<open>pages/Login.vue\<close>); its dialogs and pages load it for each request. The dialog for new data
  sets (\<^verbatim>\<open>modals/NewDataset.vue\<close>) unpacks an archive, loads its data sets through the archive opener, infers
  and shows their schemas, creates the data set and uploads the archive. The page of a job (\<^verbatim>\<open>pages/Job.vue\<close>)
  requests a new status from the engine (\<^verbatim>\<open>src/engine/database/model/job.go\<close>), whose workers
  (\<^verbatim>\<open>workers/job_status_maintainer.go\<close>) lock the job and take it further.

  \<^bold>\<open>Conventions.\<close> JavaScript strings are lists of characters and JSON values the type \<open>jsval\<close> of theory
  Js\_Base; integers are exact and other numbers are binary fractions there, 64-bit patterns in the
  elements of files. An object is an association list in the order of its properties (\<open>obj_put\<close>
  keeps that order, indices first), and what the prototype of every object has is looked up as in
  JavaScript (\<open>get\<close>, \<open>obj_in\<close>); a property \<^verbatim>\<open>__proto__\<close> is never written. A function that may throw
  returns \<open>js_error + 'a\<close>, with every exception a constructor of \<open>js_error\<close>; \<open>Unmodelled\<close> marks the
  few places where the code goes on with a value outside of the model. An operation on files is a
  function from a world to a result and a world (\<open>io\<close> in theory Io).

  \<^bold>\<open>Theories.\<close>
  \<^item> Js\_Base: values, objects, errors, loops over lists with exceptions (\<open>foldE\<close>, \<open>mapE\<close>), and the
    locales \<open>dictionary\<close>, \<open>codec\<close>, \<open>incremental_matcher\<close> and \<open>recording_matcher\<close>, the contracts that
    objects, the load and dump functions and the four matching loops share. Js\_Text: trimming,
    splitting, \<^verbatim>\<open>parseInt\<close>, and \<^verbatim>\<open>Map\<close> and \<^verbatim>\<open>Set\<close> with their order of insertion.
  \<^item> Permutation: the iterator as its record with its stack; locale \<open>enumerator\<close>. C3.
  \<^item> Schema\_Types: the types and constructors of \<^verbatim>\<open>schema.js\<close> with all checks, what each accepts
    (lemmas in \<open>accepts\<close>), well-formedness \<open>wf_schema\<close>. Schema\_Load: load and dump. C1, C2.
  \<^item> Dim\_Match: \<^verbatim>\<open>matchDimList\<close> against a declarative meaning of dimension lists; locale \<open>dim_matcher\<close>.
    C5, C6.
  \<^item> Schema\_Match: \<^verbatim>\<open>matchLink\<close>, \<^verbatim>\<open>matchCategory\<close>, \<^verbatim>\<open>matchNode\<close>, \<^verbatim>\<open>match\<close> with the loops over permutations;
    the interpretations show that each loop does what its locale says. C7. Match\_Correct: soundness
    and the schema that is built, C8, C9. Match\_Self: C10. Match\_Limits: what is not found,
    C12. Match\_Modes: the two modes agree, C14. Match\_Total: no exceptions, C15.
  \<^item> Links, Links\_Correct: the class \<^verbatim>\<open>Links\<close> of \<^verbatim>\<open>dataset.js\<close>. The two depth-first searches of
    \<^verbatim>\<open>isCyclic\<close> are related to the closure of the link relation by invariants of their stacks; fan-in,
    text form, index and count queries. C17 to C21.
  \<^item> Io: operations on a world, bytes, \<^verbatim>\<open>ReaderWriterCloser\<close> as a record of methods, the locales
    \<open>byte_reader\<close> and \<open>byte_writer\<close>, paths. Json: \<^verbatim>\<open>JSON.parse\<close> and the replacements on text. Openers: the
    methods that the two openers install and in which order, the file system opener over the part
    of node's \<^verbatim>\<open>fs\<close> that is used (a tree of files, descriptors), the archive opener over its object
    tree. The methods of both are interpreted as byte readers, those of the file system as a
    byte writer. Openers\_Correct: lines of text, C25; what the methods in effect make
    impossible, C27.
  \<^item> Npy, Npy\_Correct: header, elements, reader and writer; the text of a header is followed through
    the replacements and the JSON parser. Reading and writing are proved in the contexts of the two
    locales and used for archives and for the file system. C29 to C31.
  \<^item> Dataset: the types of files, their loaders and writers over any opener, directories, data sets.
    Load\_Correct: a tree of files that stores a data set (\<open>stores\<close>) is loaded as that data set, proved
    once in the locale \<open>tree_reader\<close> of theory Openers and used for directories and archives. C39.
  \<^item> Infer, Infer\_Correct: \<^verbatim>\<open>inferSchema\<close>, one definition for each stage of its loop body; invariants of
    its state over the fold through the samples. C32, C33.
  \<^item> Generate, Generate\_Correct: \<^verbatim>\<open>generateFromSchema\<close>, with \<^verbatim>\<open>Math.random\<close> as a parameter that is only
    assumed to return an index below its bound. C35, C36.

  \<^item> Client\_Values, Json\_Correct: values that may be undefined, their texts and numbers, \<^verbatim>\<open>JSON.stringify\<close>,
    \<^verbatim>\<open>btoa\<close>; \<^verbatim>\<open>JSON.parse\<close> reads back what \<^verbatim>\<open>JSON.stringify\<close> writes. Client, Client\_Correct: contexts, the
    paging loop, and every operation on data sets, modules, jobs, tasks, users and processes. C4, C13,
    C22, C34.
  \<^item> Web\_Dataset, Web\_Correct: the dialog for new data sets as a record and operations on it; its events in
    any order are the step relation \<open>wizard\<close>. The opener of the package is interpreted as a
    \<open>tree_reader\<close>, so archives that store data sets are accepted with their schemas. C11, C16, C38.
    Web\_Session, Session\_Correct: login, the store of the browser, the guard of the router. C37. Web\_Jobs,
    Jobs\_Correct: the dialog for new jobs, the page of a job, lists of items. Web\_Pages: how dialogs and pages
    are opened and closed, the choices of the user, the events of the drop zone, the bar at the top.
  \<^item> Job\_Engine: the transitions of \<^verbatim>\<open>UpdateJob\<close> with the fields they set, the handlers that answer the page,
    locks, \<^verbatim>\<open>repeatUntilSuccess\<close> and the workers. Job\_System: the relation \<open>job_step\<close> of the page, the engine, its
    workers and the clock in any order, with the invariant of its states; C23, C24, C28, C40.
  \<^item> Jupyter: the commands, the activation, the settings and the pages of the extension. C26.

  \<^bold>\<open>Termination and bounds.\<close> All loops are total functions with measures: the permutation by its stack,
  the directed search by the nodes that are left and those on the path, the undirected search by
  the nodes that are left, the JSON parser by the length of the text. \<open>loadDirectory\<close> follows the tree
  that the opener shows, which need not be finite; its first argument is the number of calls the
  stack of JavaScript has room for, and without room it raises the \<^verbatim>\<open>RangeError\<close> that JavaScript raises.
  Any number above the depth of the tree gives the same result (C39). The paging loop of the client ends
  only if the server says so; it is a partial function, C13 says when it returns, and C4 that it does
  for a server that has a finite list of items. The loop of \<^verbatim>\<open>repeatUntilSuccess\<close> is a partial function as well; C40
  says when the workers that use it return. \<open>switchStep\<close> of the dialog calls itself only where it goes
  on in the same direction.

  \<^bold>\<open>Parameters.\<close> \<^verbatim>\<open>parseFloat\<close> and the text of a number (CSV files), \<^verbatim>\<open>Math.random\<close>, and the entries that
  \<^verbatim>\<open>js-untar\<close> extracts from an archive are arguments of the definitions that use them. So are, for the client and
  the pages, \<^verbatim>\<open>axios\<close> (a record of requests), \<^verbatim>\<open>tus-js-client\<close>, \<^verbatim>\<open>decamelize-keys\<close>, \<^verbatim>\<open>url-join\<close>, \<^verbatim>\<open>moment\<close>, \<^verbatim>\<open>js-yaml\<close>, the
  text of a date in the user's locale, the calls on the document that start a download, and what a dialog
  does with the page when it has succeeded; for the extension JupyterLab and its registry of settings. For
  the page of a job \<^verbatim>\<open>axios\<close> is also instantiated with the handlers of the engine (\<open>engine_axios\<close>). A promise is an operation on a world; in the composed operations
  (\<open>finish\<close>, \<open>login\<close>) nothing happens between their requests, in the relation \<open>wizard\<close> anything may.

  \<^bold>\<open>Not modelled.\<close> In the schema package: the exports of \<^verbatim>\<open>index.js\<close>, character codes from 256 on, numbers
  beyond exact integers in shapes, and setters of \<^verbatim>\<open>__proto__\<close>. In the web interface: styles, templates but for
  their buttons and fields, and messages on the console. Elsewhere: build configurations are data, the theme of the
  documentation consists of third-party plugins; of the engine everything but the status of a job (its updates
  read and write in one step here, and tasks are not followed), and the other clients, are left to a
  development for Go and Python.
\<close>

end
